(* ===== verification/Prelude.thy ===== *)
theory Prelude
  imports Complex_Main "HOL-Library.Word"
begin

text \<open>
  Shared vocabulary of the development: Go's fixed-width \<^verbatim>\<open>int64\<close> arithmetic, the decimal
  printing behind \<^verbatim>\<open>fmt.Sprintf("%d")\<close>, buffered channels as bounded queues, and the generic
  lemmas on lists and maps the components use. The named collection \<open>i64_simps\<close> gathers
  the facts that remove a wrap-around whose result is in range.
\<close>

named_theorems i64_simps \<open>wrap-around arithmetic that stays in range\<close>

section \<open>Go values\<close>

text \<open>Instants are \<^verbatim>\<open>UnixNano\<close> readings; objects behind pointers live at addresses.\<close>

type_synonym instant = int
type_synonym addr = nat

subsection \<open>int64\<close>

text \<open>An \<^verbatim>\<open>int64\<close> is an integer kept in range by two's-complement wrap-around at 64 bits.\<close>

definition wrap64 :: "int \<Rightarrow> int" where
  "wrap64 x = signed_take_bit 63 x"

definition in64 :: "int \<Rightarrow> bool" where
  "in64 x \<longleftrightarrow> - (2 ^ 63) \<le> x \<and> x < 2 ^ 63"

definition add64 :: "int \<Rightarrow> int \<Rightarrow> int" where
  "add64 x y = wrap64 (x + y)"

definition sub64 :: "int \<Rightarrow> int \<Rightarrow> int" where
  "sub64 x y = wrap64 (x - y)"

definition neg64 :: "int \<Rightarrow> int" where
  "neg64 x = wrap64 (- x)"

subsection \<open>Decimal printing\<close>

function nat_digits :: "int \<Rightarrow> string" where
  "nat_digits n =
     (if n < 10 then [char_of (48 + nat n)]
      else nat_digits (n div 10) @ [char_of (48 + nat (n mod 10))])"
  by pat_completeness auto
termination
  by (relation "measure nat") auto

declare nat_digits.simps [simp del]

definition show_int :: "int \<Rightarrow> string" where
  "show_int n = (if n < 0 then ''-'' @ nat_digits (- n) else nat_digits n)"

subsection \<open>Buffered channels\<close>

text \<open>
  A channel is the list of its queued messages. The non-blocking send of a
  \<^verbatim>\<open>select ... default\<close> drops the message when the buffer of the given capacity is full.
\<close>

definition try_send :: "nat \<Rightarrow> 'a \<Rightarrow> 'a list \<Rightarrow> 'a list" where
  "try_send cap m ch = (if length ch < cap then ch @ [m] else ch)"

section \<open>Arithmetic in range\<close>

lemma in64_wrap64 [simp]: "in64 (wrap64 x)"
  using signed_take_bit_int_greater_eq_minus_exp [of 63 x] signed_take_bit_int_less_exp [of 63 x]
  by (simp only: in64_def wrap64_def)

lemma wrap64_id [i64_simps]: "in64 x \<Longrightarrow> wrap64 x = x"
  by (simp add: in64_def wrap64_def signed_take_bit_int_eq_self)

lemma add64_id [i64_simps]: "in64 (x + y) \<Longrightarrow> add64 x y = x + y"
  by (simp add: add64_def wrap64_id)

lemma sub64_id [i64_simps]: "in64 (x - y) \<Longrightarrow> sub64 x y = x - y"
  by (simp add: sub64_def wrap64_id)

lemma neg64_id [i64_simps]: "in64 (- x) \<Longrightarrow> neg64 x = - x"
  by (simp add: neg64_def wrap64_id)

lemma wrap64_wraps: "wrap64 (2 ^ 63) = - (2 ^ 63)"
  by (simp add: wrap64_def)

lemma in64_between: "in64 y \<Longrightarrow> 0 \<le> x \<Longrightarrow> x \<le> y \<Longrightarrow> in64 x"
  by (simp add: in64_def)

lemma in64_small: "\<bar>x\<bar> \<le> 1000000000000000000 \<Longrightarrow> in64 x"
  by (auto simp: in64_def)

text \<open>Wrapping commutes with addition, so a chain of wrapped additions wraps once.\<close>

lemma wrap64_eq_mod: "wrap64 x = (x + 2 ^ 63) mod 2 ^ 64 - 2 ^ 63"
  by (simp add: wrap64_def signed_take_bit_eq_take_bit_shift take_bit_eq_mod)

lemma wrap64_add_left: "wrap64 (wrap64 x + y) = wrap64 (x + y)"
proof -
  have "wrap64 x + y + 2 ^ 63 = (x + 2 ^ 63) mod 2 ^ 64 + y"
    by (simp add: wrap64_eq_mod)
  then have "(wrap64 x + y + 2 ^ 63) mod 2 ^ 64 = (x + 2 ^ 63 + y) mod 2 ^ 64"
    by (simp only: mod_add_left_eq)
  then show ?thesis by (simp add: wrap64_eq_mod ac_simps)
qed

lemma wrap64_add_right: "wrap64 (x + wrap64 y) = wrap64 (x + y)"
  using wrap64_add_left [of y x] by (simp add: add.commute)

section \<open>Printing is injective\<close>

lemma nat_digits_snoc:
  "10 \<le> n \<Longrightarrow> nat_digits n = nat_digits (n div 10) @ [char_of (48 + nat (n mod 10))]"
  by (subst nat_digits.simps) simp

lemma nat_digits_small: "n < 10 \<Longrightarrow> nat_digits n = [char_of (48 + nat n)]"
  by (subst nat_digits.simps) simp

lemma nat_digits_nonempty [simp]: "nat_digits n \<noteq> []" "[] \<noteq> nat_digits n"
  by (subst nat_digits.simps, simp)+

lemma of_char_digit: "0 \<le> d \<Longrightarrow> d < 10 \<Longrightarrow> (of_char (char_of (48 + nat d) :: char) :: nat) = 48 + nat d"
  by (simp add: of_char_of)

lemma digit_char_inj:
  assumes "0 \<le> d" "d < 10" "0 \<le> e" "e < 10"
    and "(char_of (48 + nat d) :: char) = char_of (48 + nat e)"
  shows "d = e"
proof -
  from assms(5) have "(of_char (char_of (48 + nat d) :: char) :: nat) = of_char (char_of (48 + nat e) :: char)"
    by simp
  with assms(1-4) show ?thesis by (simp add: of_char_digit)
qed

lemma nat_digits_digits: "0 \<le> n \<Longrightarrow> c \<in> set (nat_digits n) \<Longrightarrow> 48 \<le> (of_char c :: nat) \<and> (of_char c :: nat) < 58"
proof (induction n rule: nat_digits.induct)
  case (1 n)
  show ?case
  proof (cases "n < 10")
    case True
    with 1 show ?thesis by (auto simp: nat_digits_small of_char_digit)
  next
    case False
    with 1 consider "c \<in> set (nat_digits (n div 10))" | "c = char_of (48 + nat (n mod 10))"
      by (auto simp: nat_digits_snoc)
    then show ?thesis
      using 1 False by cases (auto simp: of_char_digit)
  qed
qed

lemma nat_digits_inj: "0 \<le> m \<Longrightarrow> 0 \<le> n \<Longrightarrow> nat_digits m = nat_digits n \<Longrightarrow> m = n"
proof (induction m arbitrary: n rule: nat_digits.induct)
  case (1 m)
  show ?case
  proof (cases "m < 10")
    case m: True
    with 1 have "n < 10"
      by (cases "n < 10") (auto simp: nat_digits_small nat_digits_snoc)
    with m 1 show ?thesis by (auto simp: nat_digits_small intro: digit_char_inj)
  next
    case m: False
    with 1 have n: "10 \<le> n"
      by (cases "n < 10") (auto simp: nat_digits_small nat_digits_snoc)
    with m 1 have "nat_digits (m div 10) = nat_digits (n div 10)"
      and last: "char_of (48 + nat (m mod 10)) = (char_of (48 + nat (n mod 10)) :: char)"
      by (auto simp: nat_digits_snoc)
    with 1 m n have "m div 10 = n div 10" by simp
    moreover from last have "m mod 10 = n mod 10"
      by (rule digit_char_inj [rotated 4]) auto
    ultimately show ?thesis by (metis div_mult_mod_eq)
  qed
qed

lemma show_int_nonneg [simp]: "0 \<le> n \<Longrightarrow> show_int n = nat_digits n"
  by (simp add: show_int_def)

lemma show_int_no_char:
  "0 \<le> n \<Longrightarrow> (of_char c :: nat) < 48 \<or> 58 \<le> (of_char c :: nat) \<Longrightarrow> c \<notin> set (show_int n)"
  using nat_digits_digits [of n c] by auto

text \<open>
  Splitting at a separator: two texts of the form \<open>xs @ c # ys\<close> with \<open>c\<close> not in the
  suffixes agree only if both parts agree.
\<close>

lemma last_separator_inj:
  assumes "xs @ c # ys = xs' @ c # ys'" "c \<notin> set ys" "c \<notin> set ys'"
  shows "xs = xs' \<and> ys = ys'"
proof -
  from assms(1) obtain us where
    "xs = xs' @ us \<and> us @ c # ys = c # ys' \<or> xs @ us = xs' \<and> c # ys = us @ c # ys'"
    by (auto simp: append_eq_append_conv2)
  with assms(2,3) show ?thesis by (cases us) auto
qed

lemma first_separator_inj:
  assumes "xs @ c # ys = xs' @ c # ys'" "c \<notin> set xs" "c \<notin> set xs'"
  shows "xs = xs' \<and> ys = ys'"
proof -
  from assms(1) obtain us where
    "xs = xs' @ us \<and> us @ c # ys = c # ys' \<or> xs @ us = xs' \<and> c # ys = us @ c # ys'"
    by (auto simp: append_eq_append_conv2)
  with assms(2,3) show ?thesis by (cases us) auto
qed

section \<open>Lists\<close>

lemma sum_list_map_fun_upd:
  "distinct xs \<Longrightarrow> x \<in> set xs \<Longrightarrow>
   sum_list (map (f(x := v)) xs) = sum_list (map f xs) - f x + (v :: int)"
  by (induction xs) (auto simp: map_fun_upd)

lemma length_try_send: "length ch \<le> cap \<Longrightarrow> length (try_send cap m ch) \<le> cap"
  by (simp add: try_send_def)

lemma sorted_wrt_take_drop:
  "sorted_wrt P xs \<Longrightarrow> x \<in> set (take n xs) \<Longrightarrow> y \<in> set (drop n xs) \<Longrightarrow> P x y"
  by (metis append_take_drop_id sorted_wrt_append)

end
