(* ===== verification/Float64.thy ===== *)
theory Float64
  imports Prelude
begin

text \<open>
  Go's \<^verbatim>\<open>float64\<close>: IEEE 754 binary64 with round-to-nearest-even. A finite value is the
  rational number it denotes; every operation computes the exact rational result and rounds
  it once. The two zeros are one value: no expression of the program divides by a zero, so
  no result depends on a zero's sign. Named collection: \<open>f64_simps\<close>, the facts that evaluate
  an operation whose exact result is representable.
\<close>

named_theorems f64_simps \<open>operations with a representable result\<close>

section \<open>Values and rounding\<close>

datatype f64 = NaN | NInf | Fin rat | PInf

text \<open>Bit length of a positive integer.\<close>

function bit_length :: "int \<Rightarrow> int" where
  "bit_length n = (if n \<le> 0 then 0 else 1 + bit_length (n div 2))"
  by pat_completeness auto
termination
  by (relation "measure nat") auto

declare bit_length.simps [simp del]

abbreviation two_to :: "int \<Rightarrow> rat" where
  "two_to k \<equiv> 2 powi k"

text \<open>The exponent \<open>e\<close> with \<open>2 ^ e \<le> x < 2 ^ (e + 1)\<close>, for positive \<open>x\<close>.\<close>

definition flog2 :: "rat \<Rightarrow> int" where
  "flog2 x =
     (let (a, b) = quotient_of x; k = bit_length a - bit_length b
      in if two_to k \<le> x then k else k - 1)"

text \<open>Round to the nearest integer, ties to even.\<close>

definition rne :: "rat \<Rightarrow> int" where
  "rne x =
     (let f = \<lfloor>x\<rfloor>; d = x - of_int f
      in if d < 1 / 2 then f else if 1 / 2 < d then f + 1 else if even f then f else f + 1)"

text \<open>
  The exponent of the last mantissa bit: 52 below the leading bit, and never below the
  subnormal step \<open>2 ^ -1074\<close>.
\<close>

definition quantum :: "rat \<Rightarrow> int" where
  "quantum x = max (flog2 \<bar>x\<bar> - 52) (- 1074)"

definition rnd :: "rat \<Rightarrow> rat" where
  "rnd x = (if x = 0 then 0 else of_int (rne (x / two_to (quantum x))) * two_to (quantum x))"

text \<open>A rounded value of magnitude \<open>2 ^ 1024\<close> or more overflows to an infinity.\<close>

definition round64 :: "rat \<Rightarrow> f64" where
  "round64 x =
     (let r = rnd x in
      if r = 0 \<or> flog2 \<bar>r\<bar> < 1024 then Fin r else if 0 < r then PInf else NInf)"

section \<open>Operations\<close>

fun fneg :: "f64 \<Rightarrow> f64" where
  "fneg NaN = NaN"
| "fneg NInf = PInf"
| "fneg PInf = NInf"
| "fneg (Fin x) = Fin (- x)"

fun fadd :: "f64 \<Rightarrow> f64 \<Rightarrow> f64" where
  "fadd (Fin x) (Fin y) = round64 (x + y)"
| "fadd NaN _ = NaN"
| "fadd _ NaN = NaN"
| "fadd PInf NInf = NaN"
| "fadd NInf PInf = NaN"
| "fadd PInf _ = PInf"
| "fadd _ PInf = PInf"
| "fadd NInf _ = NInf"
| "fadd _ NInf = NInf"

definition fsub :: "f64 \<Rightarrow> f64 \<Rightarrow> f64" where
  "fsub x y = fadd x (fneg y)"

definition inf_of_sign :: "rat \<Rightarrow> f64" where
  "inf_of_sign s = (if 0 < s then PInf else if s < 0 then NInf else NaN)"

fun fmul :: "f64 \<Rightarrow> f64 \<Rightarrow> f64" where
  "fmul (Fin x) (Fin y) = round64 (x * y)"
| "fmul NaN _ = NaN"
| "fmul _ NaN = NaN"
| "fmul PInf (Fin y) = inf_of_sign y"
| "fmul NInf (Fin y) = inf_of_sign (- y)"
| "fmul (Fin x) PInf = inf_of_sign x"
| "fmul (Fin x) NInf = inf_of_sign (- x)"
| "fmul PInf PInf = PInf"
| "fmul NInf NInf = PInf"
| "fmul PInf NInf = NInf"
| "fmul NInf PInf = NInf"

fun fdiv :: "f64 \<Rightarrow> f64 \<Rightarrow> f64" where
  "fdiv (Fin x) (Fin y) = (if y = 0 then inf_of_sign x else round64 (x / y))"
| "fdiv NaN _ = NaN"
| "fdiv _ NaN = NaN"
| "fdiv (Fin _) PInf = Fin 0"
| "fdiv (Fin _) NInf = Fin 0"
| "fdiv PInf (Fin y) = (if 0 \<le> y then PInf else NInf)"
| "fdiv NInf (Fin y) = (if 0 \<le> y then NInf else PInf)"
| "fdiv PInf _ = NaN"
| "fdiv NInf _ = NaN"

text \<open>Comparisons: every comparison with NaN is false.\<close>

fun flt :: "f64 \<Rightarrow> f64 \<Rightarrow> bool" where
  "flt (Fin x) (Fin y) \<longleftrightarrow> x < y"
| "flt NaN _ \<longleftrightarrow> False"
| "flt _ NaN \<longleftrightarrow> False"
| "flt NInf y \<longleftrightarrow> y \<noteq> NInf"
| "flt x PInf \<longleftrightarrow> x \<noteq> PInf"
| "flt _ _ \<longleftrightarrow> False"

definition feq :: "f64 \<Rightarrow> f64 \<Rightarrow> bool" where
  "feq x y \<longleftrightarrow> x \<noteq> NaN \<and> x = y"

definition fle :: "f64 \<Rightarrow> f64 \<Rightarrow> bool" where
  "fle x y \<longleftrightarrow> flt x y \<or> feq x y"

text \<open>Conversions: \<^verbatim>\<open>float64(n)\<close> for an integer, and a decimal constant of the source.\<close>

definition float64 :: "int \<Rightarrow> f64" where
  "float64 n = round64 (of_int n)"

definition flit :: "rat \<Rightarrow> f64" where
  "flit r = round64 r"

text \<open>\<^verbatim>\<open>math.Round\<close>: nearest integer, ties away from zero.\<close>

definition round_away :: "rat \<Rightarrow> int" where
  "round_away x = (if 0 \<le> x then \<lfloor>x + 1 / 2\<rfloor> else - \<lfloor>- x + 1 / 2\<rfloor>)"

fun math_Round :: "f64 \<Rightarrow> f64" where
  "math_Round (Fin x) = Fin (of_int (round_away x))"
| "math_Round x = x"

text \<open>The idiom \<^verbatim>\<open>math.Round(x*100) / 100\<close>.\<close>

definition round2 :: "f64 \<Rightarrow> f64" where
  "round2 x = fdiv (math_Round (fmul x (Fin 100))) (Fin 100)"

text \<open>
  Fixed-point text with two decimals (\<^verbatim>\<open>%.2f\<close>, \<^verbatim>\<open>strconv.FormatFloat(x, 'f', 2, 64)\<close>): the
  exact value rounded to hundredths, ties to even.
\<close>

definition show_hundredths :: "int \<Rightarrow> string" where
  "show_hundredths n =
     nat_digits (n div 100) @ ''.'' @ nat_digits (n mod 100 div 10) @ nat_digits (n mod 10)"

fun show_fixed2 :: "f64 \<Rightarrow> string" where
  "show_fixed2 NaN = ''NaN''"
| "show_fixed2 PInf = ''+Inf''"
| "show_fixed2 NInf = ''-Inf''"
| "show_fixed2 (Fin x) = (if x < 0 then ''-'' else []) @ show_hundredths (rne (\<bar>x\<bar> * 100))"

section \<open>A linear order\<close>

text \<open>
  The order with NaN at the bottom; on numbers it is the IEEE comparison, so that the
  library's facts on linear orders apply to prices.
\<close>

fun f64_less_eq :: "f64 \<Rightarrow> f64 \<Rightarrow> bool" where
  "f64_less_eq NaN _ \<longleftrightarrow> True"
| "f64_less_eq NInf y \<longleftrightarrow> y \<noteq> NaN"
| "f64_less_eq (Fin x) (Fin y) \<longleftrightarrow> x \<le> y"
| "f64_less_eq (Fin _) y \<longleftrightarrow> y = PInf"
| "f64_less_eq PInf y \<longleftrightarrow> y = PInf"

instantiation f64 :: linorder
begin

definition less_eq_f64 :: "f64 \<Rightarrow> f64 \<Rightarrow> bool" where
  "less_eq_f64 = f64_less_eq"

definition less_f64 :: "f64 \<Rightarrow> f64 \<Rightarrow> bool" where
  "less_f64 x y \<longleftrightarrow> f64_less_eq x y \<and> \<not> f64_less_eq y x"

instance
proof
  fix x y z :: f64
  show "(x < y) = (x \<le> y \<and> \<not> y \<le> x)"
    by (simp add: less_f64_def less_eq_f64_def)
  show "x \<le> x"
    by (cases x) (simp_all add: less_eq_f64_def)
  show "x \<le> y \<Longrightarrow> y \<le> z \<Longrightarrow> x \<le> z"
    by (cases x; cases y; cases z) (simp_all add: less_eq_f64_def)
  show "x \<le> y \<Longrightarrow> y \<le> x \<Longrightarrow> x = y"
    by (cases x; cases y) (simp_all add: less_eq_f64_def)
  show "x \<le> y \<or> y \<le> x"
    by (cases x; cases y) (auto simp: less_eq_f64_def)
qed

end

lemma flt_iff: "flt x y \<longleftrightarrow> x \<noteq> NaN \<and> x < y"
  by (cases x; cases y) (auto simp: less_f64_def)

lemma feq_iff: "feq x y \<longleftrightarrow> x \<noteq> NaN \<and> x = y"
  by (simp add: feq_def)

lemma fle_iff: "fle x y \<longleftrightarrow> x \<noteq> NaN \<and> x \<le> y"
  by (auto simp: fle_def flt_iff feq_iff le_less)

lemma Fin_le [simp]: "Fin x \<le> Fin y \<longleftrightarrow> x \<le> y"
  by (simp add: less_eq_f64_def)

lemma Fin_less [simp]: "Fin x < Fin y \<longleftrightarrow> x < y"
  by (auto simp: less_f64_def)

lemma NaN_le [simp]: "NaN \<le> x"
  by (simp add: less_eq_f64_def)

lemma le_NaN [simp]: "x \<le> NaN \<longleftrightarrow> x = NaN"
  by (cases x) (simp_all add: less_eq_f64_def)

section \<open>Rounding\<close>

subsection \<open>The exponent\<close>

lemma bit_length_nonneg: "0 \<le> bit_length n"
  by (induction n rule: bit_length.induct) (subst bit_length.simps, simp)

lemma bit_length_pos: "0 < n \<Longrightarrow> 0 < bit_length n"
  using bit_length_nonneg [of "n div 2"] by (simp add: bit_length.simps [of n])

lemma bit_length_bounds:
  "0 < n \<Longrightarrow> 2 ^ nat (bit_length n - 1) \<le> n \<and> n < 2 ^ nat (bit_length n)"
proof (induction n rule: bit_length.induct)
  case (1 n)
  show ?case
  proof (cases "n = 1")
    case True
    then show ?thesis by (simp add: bit_length.simps)
  next
    case False
    with 1 have half: "0 < n div 2" by simp
    let ?k = "nat (bit_length (n div 2) - 1)"
    have k: "nat (bit_length (n div 2)) = Suc ?k"
      using bit_length_pos [OF half] by simp
    have "nat (bit_length n - 1) = Suc ?k" and "nat (bit_length n) = Suc (Suc ?k)"
      using 1(2) k bit_length_pos [OF half] by (simp_all add: bit_length.simps [of n])
    moreover have "2 ^ ?k \<le> n div 2" and "n div 2 < 2 * 2 ^ ?k"
      using 1(1) 1(2) half k by simp_all
    then have "2 * 2 ^ ?k \<le> n" and "n < 4 * 2 ^ ?k" by linarith+
    ultimately show ?thesis by simp
  qed
qed

lemma two_to_pos [simp]: "0 < two_to k"
  by simp

lemma two_to_nat: "two_to (int n) = 2 ^ n"
  by simp

lemma two_to_mono: "a \<le> b \<Longrightarrow> two_to a \<le> two_to b"
  by (simp add: power_int_increasing)

lemma two_to_less: "a < b \<Longrightarrow> two_to a < two_to b"
  by (simp add: power_int_strict_increasing)

lemma two_to_less_iff: "two_to a < two_to b \<longleftrightarrow> a < b"
  by (metis linorder_not_less order.strict_iff_not two_to_less two_to_mono)

lemma two_to_Suc: "two_to (k + 1) = 2 * two_to k"
  by (simp add: power_int_add)

lemma two_to_diff: "two_to (a - b) = two_to a / two_to b"
  by (simp add: power_int_diff)

lemma flog2_bounds:
  assumes "0 < x"
  shows "two_to (flog2 x) \<le> x" and "x < two_to (flog2 x + 1)"
proof -
  obtain a b where ab: "quotient_of x = (a, b)" by fastforce
  let ?m = "bit_length a" and ?n = "bit_length b"
  have b: "0 < b" and x: "x = of_int a / of_int b"
    using ab quotient_of_denom_pos quotient_of_div by auto
  with assms have a: "0 < a" by (simp add: zero_less_divide_iff)
  have "two_to (?m - 1) = of_int (2 ^ nat (?m - 1))" "two_to ?m = of_int (2 ^ nat ?m)"
    "two_to (?n - 1) = of_int (2 ^ nat (?n - 1))" "two_to ?n = of_int (2 ^ nat ?n)"
    using bit_length_pos [OF a] bit_length_pos [OF b] by (simp_all flip: two_to_nat)
  then have A: "two_to (?m - 1) \<le> of_int a" "of_int a < two_to ?m"
    and B: "two_to (?n - 1) \<le> of_int b" "of_int b < two_to ?n"
    using bit_length_bounds [OF a] bit_length_bounds [OF b]
    by (simp_all only: of_int_le_iff of_int_less_iff)
  have "two_to (?m - ?n - 1) = two_to (?m - 1) / two_to ?n"
    by (simp add: power_int_diff)
  also have "\<dots> \<le> x"
    using A B b a unfolding x by (intro frac_le) auto
  finally have low: "two_to (?m - ?n - 1) \<le> x" .
  have "x < two_to ?m / two_to (?n - 1)"
    using A B b a unfolding x by (intro frac_less) auto
  also have "\<dots> = two_to (?m - ?n + 1)"
    by (simp add: power_int_diff power_int_add)
  finally have high: "x < two_to (?m - ?n + 1)" .
  show "two_to (flog2 x) \<le> x" "x < two_to (flog2 x + 1)"
    using low high by (auto simp: flog2_def ab Let_def)
qed

lemma flog2_unique:
  assumes "two_to e \<le> x" and "x < two_to (e + 1)"
  shows "flog2 x = e"
proof -
  have "0 < x" using assms(1) two_to_pos [of e] by (rule less_le_trans [rotated])
  note * = flog2_bounds [OF this]
  have "two_to (flog2 x) < two_to (e + 1)" "two_to e < two_to (flog2 x + 1)"
    using * assms by linarith+
  then show ?thesis by (simp add: two_to_less_iff)
qed

lemma flog2_mono: "0 < x \<Longrightarrow> x \<le> y \<Longrightarrow> flog2 x \<le> flog2 y"
proof -
  assume "0 < x" "x \<le> y"
  then have "two_to (flog2 x) < two_to (flog2 y + 1)"
    using flog2_bounds [of x] flog2_bounds [of y] by linarith
  then show ?thesis by (simp add: two_to_less_iff)
qed

subsection \<open>Nearest integers\<close>

lemma rne_of_int [simp]: "rne (of_int n) = n"
  by (simp add: rne_def)

lemma rne_error: "\<bar>of_int (rne x) - x\<bar> \<le> 1 / 2"
  using floor_correct [of x] by (auto simp: rne_def Let_def abs_le_iff)

lemma rne_unique: "\<bar>x - of_int n\<bar> < 1 / 2 \<Longrightarrow> rne x = n"
proof -
  assume "\<bar>x - of_int n\<bar> < 1 / 2"
  with rne_error [of x] have "\<bar>of_int (rne x) - of_int n :: rat\<bar> < 1" by linarith
  then have "\<bar>of_int (rne x - n) :: rat\<bar> < of_int 1" by simp
  then show ?thesis by (simp only: of_int_less_iff flip: of_int_abs)
qed

lemma rne_minus: "rne (- x) = - rne x"
proof (cases "x = of_int \<lfloor>x\<rfloor>")
  case True
  then show ?thesis by (metis of_int_minus rne_of_int)
next
  case False
  define f d where "f = \<lfloor>x\<rfloor>" and "d = x - of_int f"
  have d: "0 < d" "d < 1"
    using False floor_correct [of x] by (auto simp: f_def d_def less_le)
  have x: "x = of_int f + d" by (simp add: d_def)
  have f: "\<lfloor>x\<rfloor> = f" and "\<lfloor>- x\<rfloor> = - f - 1"
    using d by (auto simp: x intro!: floor_unique)
  moreover have "- x - of_int (- f - 1) = 1 - d" and "x - of_int f = d"
    by (simp_all add: x)
  ultimately show ?thesis
    using d unfolding rne_def Let_def by auto
qed

lemma rne_mono: "x \<le> y \<Longrightarrow> rne x \<le> rne y"
proof (cases "\<lfloor>x\<rfloor> = \<lfloor>y\<rfloor>")
  case True
  assume "x \<le> y"
  then show ?thesis using True by (auto simp: rne_def Let_def)
next
  case False
  assume "x \<le> y"
  with False have "\<lfloor>x\<rfloor> + 1 \<le> \<lfloor>y\<rfloor>"
    by (meson floor_mono int_one_le_iff_zero_less le_less zless_imp_add1_zle)
  moreover have "rne x \<le> \<lfloor>x\<rfloor> + 1" "\<lfloor>y\<rfloor> \<le> rne y"
    by (auto simp: rne_def Let_def)
  ultimately show ?thesis by linarith
qed

subsection \<open>Rounding on a grid\<close>

text \<open>Rounding to multiples of a fixed power of two is monotone and fixes the multiples.\<close>

definition grid :: "int \<Rightarrow> rat \<Rightarrow> rat" where
  "grid q x = of_int (rne (x / two_to q)) * two_to q"

lemma rnd_grid: "x \<noteq> 0 \<Longrightarrow> rnd x = grid (quantum x) x"
  by (simp add: rnd_def grid_def)

lemma grid_mono: "x \<le> y \<Longrightarrow> grid q x \<le> grid q y"
  by (simp add: grid_def rne_mono divide_right_mono)

lemma grid_fix: "q \<le> k \<Longrightarrow> grid q (of_int m * two_to k) = of_int m * two_to k"
proof -
  assume "q \<le> k"
  then have k: "k = q + int (nat (k - q))" by simp
  have "two_to k = two_to q * 2 ^ nat (k - q)"
    by (subst k, subst power_int_add) (simp_all only: two_to_nat, simp)
  then have "of_int m * two_to k / two_to q = of_int (m * 2 ^ nat (k - q))" by simp
  then have "rne (of_int m * two_to k / two_to q) = m * 2 ^ nat (k - q)"
    by (simp only: rne_of_int)
  then show ?thesis
    using \<open>two_to k = two_to q * 2 ^ nat (k - q)\<close> by (simp add: grid_def)
qed

lemma grid_error: "\<bar>grid q x - x\<bar> \<le> two_to q / 2"
proof -
  have "grid q x - x = (of_int (rne (x / two_to q)) - x / two_to q) * two_to q"
    by (simp add: grid_def left_diff_distrib)
  then have "\<bar>grid q x - x\<bar> = \<bar>of_int (rne (x / two_to q)) - x / two_to q\<bar> * two_to q"
    by (simp add: abs_mult)
  also have "\<dots> \<le> 1 / 2 * two_to q"
    by (intro mult_right_mono rne_error) simp
  finally show ?thesis by simp
qed

subsection \<open>Rounding to binary64\<close>

lemma rnd_0 [simp]: "rnd 0 = 0"
  by (simp add: rnd_def)

lemma rnd_minus: "rnd (- x) = - rnd x"
  by (simp add: rnd_def quantum_def rne_minus)

lemma rnd_mono_pos:
  assumes "0 < x" "x \<le> y"
  shows "rnd x \<le> rnd y"
proof (cases "quantum x = quantum y")
  case True
  with assms show ?thesis by (simp add: rnd_grid grid_mono)
next
  case False
  let ?e = "flog2 y"
  have "flog2 x \<le> ?e" using assms by (rule flog2_mono)
  with False assms have q: "quantum x < quantum y" "quantum y \<le> ?e" "flog2 x < ?e"
    by (auto simp: quantum_def)
  have "x \<le> two_to ?e"
  proof -
    have "x < two_to (flog2 x + 1)" using assms by (simp add: flog2_bounds)
    also have "\<dots> \<le> two_to ?e" using q by (intro two_to_mono) simp
    finally show ?thesis by simp
  qed
  then have "rnd x \<le> grid (quantum x) (two_to ?e)"
    using assms by (simp add: rnd_grid grid_mono)
  also have "\<dots> = two_to ?e" using grid_fix [of "quantum x" ?e 1] q by simp
  also have "\<dots> = grid (quantum y) (two_to ?e)" using grid_fix [of "quantum y" ?e 1] q by simp
  also have "\<dots> \<le> rnd y"
    using assms by (simp add: rnd_grid grid_mono flog2_bounds)
  finally show ?thesis .
qed

lemma rnd_nonneg: "0 \<le> x \<Longrightarrow> 0 \<le> rnd x"
proof (cases "x = 0")
  case False
  assume "0 \<le> x"
  with False have "grid (quantum x) 0 \<le> rnd x" by (simp add: rnd_grid grid_mono)
  then show ?thesis by (simp add: grid_def rne_def)
qed simp

lemma rnd_mono: "x \<le> y \<Longrightarrow> rnd x \<le> rnd y"
proof -
  assume le: "x \<le> y"
  consider "0 < x" | "x \<le> 0" "0 \<le> y" | "y < 0" by linarith
  then show ?thesis
  proof cases
    case 1
    with le show ?thesis by (simp add: rnd_mono_pos)
  next
    case 2
    with rnd_nonneg [of y] rnd_nonneg [of "- x"] show ?thesis by (simp add: rnd_minus)
  next
    case 3
    with le rnd_mono_pos [of "- y" "- x"] show ?thesis by (simp add: rnd_minus)
  qed
qed

text \<open>Numbers with a 53-bit mantissa are exact.\<close>

definition representable :: "rat \<Rightarrow> bool" where
  "representable x \<longleftrightarrow> (\<exists>m k. x = of_int m * two_to k \<and> \<bar>m\<bar> \<le> 2 ^ 53 \<and> - 1074 \<le> k)"

lemma rnd_exact_pos:
  assumes "0 < m" "m \<le> 2 ^ 53" "- 1074 \<le> k"
  shows "rnd (of_int m * two_to k) = of_int m * two_to k"
proof (cases "m = 2 ^ 53")
  case True
  have eq: "of_int m * two_to k = of_int 1 * two_to (k + 53)"
    by (simp add: True power_int_add)
  have "flog2 (of_int 1 * two_to (k + 53)) = k + 53"
    by (rule flog2_unique) (simp_all add: two_to_less)
  then have "quantum (of_int 1 * two_to (k + 53)) \<le> k + 53"
    using assms by (simp add: quantum_def)
  then show ?thesis unfolding eq by (subst rnd_grid) (simp, rule grid_fix)
next
  case False
  let ?x = "of_int m * two_to k"
  have "of_int m < (of_int (2 ^ 53) :: rat)"
    using False assms by (simp only: of_int_less_iff)
  then have "?x < 2 ^ 53 * two_to k" by simp
  also have "\<dots> = two_to (53 + k)" by (simp add: power_int_add)
  finally have "?x < two_to (53 + k)" .
  moreover have pos: "0 < ?x" using assms by simp
  ultimately have "two_to (flog2 ?x) < two_to (53 + k)"
    using flog2_bounds(1) [OF pos] by linarith
  then have "quantum ?x \<le> k"
    using assms pos by (simp add: quantum_def two_to_less_iff)
  then have "grid (quantum ?x) ?x = ?x" by (rule grid_fix)
  with pos show ?thesis by (metis less_irrefl rnd_grid)
qed

lemma rnd_exact: "representable x \<Longrightarrow> rnd x = x"
proof -
  assume "representable x"
  then obtain m k where x: "x = of_int m * two_to k" "\<bar>m\<bar> \<le> 2 ^ 53" "- 1074 \<le> k"
    by (auto simp: representable_def)
  consider "m = 0" | "0 < m" | "0 < - m" by linarith
  then show ?thesis
  proof cases
    case 3
    with x rnd_exact_pos [of "- m" k] show ?thesis by (simp add: rnd_minus)
  qed (use x rnd_exact_pos [of m k] in auto)
qed

text \<open>In the normal range one rounding has relative error at most \<open>2 ^ -53\<close>.\<close>

lemma rnd_error:
  assumes "two_to (- 1022) \<le> \<bar>x\<bar>"
  shows "\<bar>rnd x - x\<bar> \<le> \<bar>x\<bar> / 2 ^ 53"
proof -
  have pos: "0 < \<bar>x\<bar>" using assms by (rule less_le_trans [rotated]) simp
  have "two_to (- 1022) < two_to (flog2 \<bar>x\<bar> + 1)"
    using assms flog2_bounds(2) [OF pos] by (rule le_less_trans)
  then have "- 1022 < flog2 \<bar>x\<bar> + 1" by (simp only: two_to_less_iff)
  then have q: "quantum x = flog2 \<bar>x\<bar> - 52" by (simp add: quantum_def)
  have "\<bar>rnd x - x\<bar> \<le> two_to (quantum x) / 2"
    using pos grid_error [of "quantum x" x] by (metis abs_zero less_irrefl rnd_grid)
  also have "\<dots> = two_to (flog2 \<bar>x\<bar>) / 2 ^ 53"
    unfolding q by (simp add: two_to_diff)
  also have "\<dots> \<le> \<bar>x\<bar> / 2 ^ 53"
    using flog2_bounds(1) [OF pos] by (intro divide_right_mono) simp_all
  finally show ?thesis .
qed

subsection \<open>Overflow, order and exactness of the operations\<close>

abbreviation max_f64 :: rat where
  "max_f64 \<equiv> two_to 1024"

lemma flog2_less_iff: "0 < x \<Longrightarrow> flog2 x < k \<longleftrightarrow> x < two_to k"
proof
  assume x: "0 < x" and "flog2 x < k"
  then have "two_to (flog2 x + 1) \<le> two_to k" by (intro two_to_mono) simp
  with flog2_bounds(2) [OF x] show "x < two_to k" by simp
next
  assume x: "0 < x" and "x < two_to k"
  with flog2_bounds(1) [OF x] have "two_to (flog2 x) < two_to k" by linarith
  then show "flog2 x < k" by (simp only: two_to_less_iff)
qed

lemma round64_cases:
  "round64 x = (if \<bar>rnd x\<bar> < max_f64 then Fin (rnd x) else if 0 < rnd x then PInf else NInf)"
proof (cases "rnd x = 0")
  case False
  then have "flog2 \<bar>rnd x\<bar> < 1024 \<longleftrightarrow> \<bar>rnd x\<bar> < max_f64" by (intro flog2_less_iff) simp
  with False show ?thesis by (simp only: round64_def Let_def) simp
qed (simp add: round64_def)

lemma round64_not_NaN [simp]: "round64 x \<noteq> NaN"
  by (simp only: round64_cases) simp

lemma round64_mono: "x \<le> y \<Longrightarrow> round64 x \<le> round64 y"
proof -
  assume "x \<le> y"
  then have le: "rnd x \<le> rnd y" by (rule rnd_mono)
  define M where "M = max_f64"
  have "0 < M" by (simp add: M_def)
  with le show ?thesis
    unfolding round64_cases M_def [symmetric]
    by (auto simp: less_eq_f64_def abs_less_iff not_less split: if_splits)
qed

lemma round64_exact:
  assumes "representable x" "\<bar>x\<bar> < max_f64"
  shows "round64 x = Fin x"
  using assms by (simp only: round64_cases rnd_exact if_True)

lemma round64_0 [simp]: "round64 0 = Fin 0"
  by (simp add: round64_def)

lemma representable_of_int: "\<bar>n\<bar> \<le> 2 ^ 53 \<Longrightarrow> representable (of_int n)"
  unfolding representable_def by (intro exI [of _ n] exI [of _ 0]) simp

lemma small_less_max: "\<bar>x\<bar> \<le> 2 ^ 53 \<Longrightarrow> \<bar>x\<bar> < max_f64"
proof -
  assume "\<bar>x\<bar> \<le> 2 ^ 53"
  also have "(2::rat) ^ 53 = two_to 53" by simp
  also have "\<dots> < max_f64" by (rule two_to_less) simp
  finally show ?thesis .
qed

lemma round64_of_int [f64_simps]: "\<bar>n\<bar> \<le> 2 ^ 53 \<Longrightarrow> round64 (of_int n) = Fin (of_int n)"
proof -
  assume n: "\<bar>n\<bar> \<le> 2 ^ 53"
  then have "\<bar>of_int n :: rat\<bar> \<le> 2 ^ 53"
    by (metis of_int_abs of_int_le_iff of_int_numeral of_int_power)
  with n show ?thesis by (intro round64_exact representable_of_int small_less_max)
qed

lemma float64_small [f64_simps]: "\<bar>n\<bar> \<le> 2 ^ 53 \<Longrightarrow> float64 n = Fin (of_int n)"
  by (simp only: float64_def round64_of_int)

lemma round64_numeral [f64_simps]:
  "(numeral n :: int) \<le> 2 ^ 53 \<Longrightarrow> round64 (numeral n) = Fin (numeral n)"
  using round64_of_int [of "numeral n"] by simp

lemma round64_one [f64_simps]: "round64 1 = Fin 1"
  using round64_of_int [of 1] by simp

lemma flit_not_NaN [simp]: "flit r \<noteq> NaN"
  by (simp add: flit_def)

lemma float64_not_NaN [simp]: "float64 n \<noteq> NaN"
  by (simp add: float64_def)

lemma float64_mono: "m \<le> n \<Longrightarrow> float64 m \<le> float64 n"
  by (simp add: float64_def round64_mono)

lemma fadd_Fin_mono: "y \<le> z \<Longrightarrow> fadd (Fin x) (Fin y) \<le> fadd (Fin x) (Fin z)"
  by (simp add: round64_mono)

lemma fmul_Fin_mono: "0 \<le> x \<Longrightarrow> y \<le> z \<Longrightarrow> fmul (Fin x) (Fin y) \<le> fmul (Fin x) (Fin z)"
  by (simp add: round64_mono mult_left_mono)

lemma fneg_not_NaN [simp]: "fneg x = NaN \<longleftrightarrow> x = NaN"
  by (cases x) auto

lemma rel_error_bounds:
  fixes x y e :: rat
  assumes "\<bar>y - x\<bar> \<le> x / e"
  shows "x * (1 - 1 / e) \<le> y" and "y \<le> x * (1 + 1 / e)"
proof -
  from assms have "x - x / e \<le> y" "y \<le> x + x / e" by (auto simp: abs_le_iff)
  then show "x * (1 - 1 / e) \<le> y" "y \<le> x * (1 + 1 / e)" by (simp_all add: algebra_simps)
qed

text \<open>A finite product of normal size is within relative error \<open>2 ^ -53\<close>.\<close>

lemma round64_Fin_error:
  assumes "two_to (- 1022) \<le> \<bar>x\<bar>" "\<bar>x\<bar> \<le> 2 ^ 60"
  shows "\<exists>y. round64 x = Fin y \<and> \<bar>y - x\<bar> \<le> \<bar>x\<bar> / 2 ^ 53"
proof -
  have err: "\<bar>rnd x - x\<bar> \<le> \<bar>x\<bar> / 2 ^ 53" by (rule rnd_error [OF assms(1)])
  have "\<bar>rnd x\<bar> \<le> \<bar>rnd x - x\<bar> + \<bar>x\<bar>" using abs_triangle_ineq [of "rnd x - x" x] by simp
  also have "\<dots> \<le> \<bar>x\<bar> / 2 ^ 53 + \<bar>x\<bar>" using err by (rule add_right_mono)
  also have "\<dots> \<le> 2 * \<bar>x\<bar>" by simp
  finally have "\<bar>rnd x\<bar> \<le> 2 * \<bar>x\<bar>" .
  also have "\<dots> \<le> 2 ^ 61" using assms(2) by simp
  also have "(2 :: rat) ^ 61 = two_to 61" by simp
  also have "\<dots> < max_f64" by (intro two_to_less) simp
  finally have "round64 x = Fin (rnd x)" by (simp only: round64_cases if_True)
  with err show ?thesis by blast
qed

lemma round_away_of_int [simp]: "round_away (of_int n) = n"
proof -
  have "\<lfloor>of_int k + 1 / 2 :: rat\<rfloor> = k" for k :: int by linarith
  from this [of n] this [of "- n"] show ?thesis by (simp add: round_away_def)
qed

lemma math_Round_of_int [simp]: "math_Round (Fin (of_int n)) = Fin (of_int n)"
  by simp

lemma between_Fin:
  assumes "Fin a \<le> y" "y \<le> Fin b"
  shows "\<exists>c. y = Fin c \<and> a \<le> c \<and> c \<le> b"
  using assms by (cases y) (auto simp: less_eq_f64_def)

text \<open>A rounded value between representable bounds stays between them.\<close>

lemma round64_between:
  assumes "a \<le> x" "x \<le> b" "round64 a = Fin a'" "round64 b = Fin b'"
  shows "\<exists>c. round64 x = Fin c \<and> a' \<le> c \<and> c \<le> b'"
  using between_Fin [of a' "round64 x" b'] round64_mono [OF assms(1)] round64_mono [OF assms(2)] assms(3,4)
  by simp

section \<open>Non-negative values\<close>

lemma round64_nonneg: "0 \<le> x \<Longrightarrow> fle (Fin 0) (round64 x)"
  using round64_mono [of 0 x] by (simp add: fle_iff)

lemma nonneg_cases:
  assumes "fle (Fin 0) x"
  obtains "x = PInf" | r where "x = Fin r" "0 \<le> r"
  using assms by (cases x) (auto simp: fle_def feq_def)

lemma fadd_nonneg: "fle (Fin 0) x \<Longrightarrow> fle (Fin 0) y \<Longrightarrow> fle (Fin 0) (fadd x y)"
  by (elim nonneg_cases) (auto simp: round64_nonneg, auto simp: fle_def)

lemma fmul_nonneg: "fle (Fin 0) x \<Longrightarrow> 0 < c \<Longrightarrow> fle (Fin 0) (fmul x (Fin c))"
  by (elim nonneg_cases) (auto simp: round64_nonneg inf_of_sign_def, auto simp: fle_def)

lemma fsub_nonneg_le: "fle (Fin 0) y \<Longrightarrow> round64 b = Fin b \<Longrightarrow> fle (fsub (Fin b) y) (Fin b)"
proof (elim nonneg_cases)
  fix r assume "y = Fin r" "0 \<le> r" "round64 b = Fin b"
  then show "fle (fsub (Fin b) y) (Fin b)"
    using round64_mono [of "b - r" b] by (simp add: fsub_def fle_iff)
qed (simp add: fsub_def fle_def)

end
