(* ===== verification/Models.thy ===== *)
theory Models
  imports Float64
begin

text \<open>
  The data of \<^verbatim>\<open>internal/models/order.go\<close>: orders, trades, positions, margin information and the
  methods of \<^verbatim>\<open>Order\<close>. The string types whose values arrive from clients and are never
  validated (side, order type, product, validity, exchange) stay strings, with the source's
  constants; the order status is only ever assigned from its constants and is a datatype.
  \<^verbatim>\<open>time.Now()\<close> is an argument \<open>now\<close>; the readings inside one operation are the same instant.
  Lemmas: the quantity invariant \<open>qty_ok\<close> and what \<open>Fill\<close> does to it, the average price, and
  the injectivity of order identifiers.
\<close>

section \<open>Constants and records\<close>

type_synonym OrderSide = string
type_synonym OrderType = string
type_synonym ProductType = string
type_synonym OrderValidity = string
type_synonym Exchange = string

definition Buy :: OrderSide where "Buy = ''BUY''"
definition Sell :: OrderSide where "Sell = ''SELL''"

definition Market :: OrderType where "Market = ''MARKET''"
definition Limit :: OrderType where "Limit = ''LIMIT''"
definition StopLoss :: OrderType where "StopLoss = ''SL''"
definition StopLossMarket :: OrderType where "StopLossMarket = ''SL-M''"

definition CNC :: ProductType where "CNC = ''CNC''"
definition MIS :: ProductType where "MIS = ''MIS''"
definition NRML :: ProductType where "NRML = ''NRML''"

definition DAY :: OrderValidity where "DAY = ''DAY''"
definition IOC :: OrderValidity where "IOC = ''IOC''"
definition GTT :: OrderValidity where "GTT = ''GTT''"

definition NSE :: Exchange where "NSE = ''NSE''"
definition BSE :: Exchange where "BSE = ''BSE''"
definition MCX :: Exchange where "MCX = ''MCX''"

lemmas go_constants = Buy_def Sell_def Market_def Limit_def StopLoss_def StopLossMarket_def
  CNC_def MIS_def NRML_def DAY_def IOC_def GTT_def NSE_def BSE_def MCX_def

datatype OrderStatus =
    StatusPending
  | StatusOpen
  | StatusPartiallyFilled
  | StatusFilled
  | StatusCancelled
  | StatusRejected
  | StatusModified

fun status_string :: "OrderStatus \<Rightarrow> string" where
  "status_string StatusPending = ''PENDING''"
| "status_string StatusOpen = ''OPEN''"
| "status_string StatusPartiallyFilled = ''PARTIALLY_FILLED''"
| "status_string StatusFilled = ''FILLED''"
| "status_string StatusCancelled = ''CANCELLED''"
| "status_string StatusRejected = ''REJECTED''"
| "status_string StatusModified = ''MODIFIED''"

record Order =
  o_OrderID :: string
  o_ClientID :: string
  o_Timestamp :: instant
  o_Symbol :: string
  o_Exchange :: Exchange
  o_Side :: OrderSide
  o_OrderType :: OrderType
  o_ProductType :: ProductType
  o_Validity :: OrderValidity
  o_Quantity :: int
  o_FilledQty :: int
  o_RemainingQty :: int
  o_Price :: f64
  o_TriggerPrice :: f64
  o_AveragePrice :: f64
  o_DisclosedQty :: int
  o_IsAMO :: bool
  o_Status :: OrderStatus
  o_StatusMsg :: string
  o_UpdatedAt :: instant
  o_ExchangeOrderID :: string
  o_Tag :: string

record Trade =
  t_TradeID :: string
  t_BuyOrderID :: string
  t_SellOrderID :: string
  t_Symbol :: string
  t_Exchange :: Exchange
  t_Quantity :: int
  t_Price :: f64
  t_Timestamp :: instant
  t_BuyerID :: string
  t_SellerID :: string

record ModelPosition =
  mp_ClientID :: string
  mp_Symbol :: string
  mp_Exchange :: Exchange
  mp_ProductType :: ProductType
  mp_Quantity :: int
  mp_BuyQty :: int
  mp_SellQty :: int
  mp_BuyAvg :: f64
  mp_SellAvg :: f64
  mp_RealizedPnL :: f64
  mp_UnrealizedPnL :: f64
  mp_LastPrice :: f64
  mp_UpdatedAt :: instant

record MarginInfo =
  mi_Required :: f64
  mi_Available :: f64
  mi_Used :: f64
  mi_Free :: f64

section \<open>Operations\<close>

definition Sufficient :: "MarginInfo \<Rightarrow> bool" where
  "Sufficient m \<longleftrightarrow> fle (mi_Required m) (mi_Free m)"

definition generateOrderID :: "string \<Rightarrow> instant \<Rightarrow> string" where
  "generateOrderID clientID t = clientID @ ''-'' @ show_int t"

definition NewOrder :: "instant \<Rightarrow> string \<Rightarrow> string \<Rightarrow> Order" where
  "NewOrder now clientID symbol =
     \<lparr>o_OrderID = generateOrderID clientID now, o_ClientID = clientID, o_Timestamp = now,
      o_Symbol = symbol, o_Exchange = NSE, o_Side = [], o_OrderType = [], o_ProductType = MIS,
      o_Validity = DAY, o_Quantity = 0, o_FilledQty = 0, o_RemainingQty = 0, o_Price = Fin 0,
      o_TriggerPrice = Fin 0, o_AveragePrice = Fin 0, o_DisclosedQty = 0, o_IsAMO = False,
      o_Status = StatusPending, o_StatusMsg = [], o_UpdatedAt = now, o_ExchangeOrderID = [],
      o_Tag = []\<rparr>"

definition UpdateStatus :: "instant \<Rightarrow> OrderStatus \<Rightarrow> string \<Rightarrow> Order \<Rightarrow> Order" where
  "UpdateStatus now status msg o' = o'\<lparr>o_Status := status, o_StatusMsg := msg, o_UpdatedAt := now\<rparr>"

definition Fill :: "instant \<Rightarrow> int \<Rightarrow> f64 \<Rightarrow> Order \<Rightarrow> Order" where
  "Fill now qty price o0 =
     (let totalCost = fadd (fmul (o_AveragePrice o0) (float64 (o_FilledQty o0)))
                           (fmul price (float64 qty));
          o1 = o0\<lparr>o_FilledQty := add64 (o_FilledQty o0) qty\<rparr>;
          o2 = o1\<lparr>o_RemainingQty := sub64 (o_Quantity o1) (o_FilledQty o1)\<rparr>;
          o3 = (if 0 < o_FilledQty o2
                then o2\<lparr>o_AveragePrice := fdiv totalCost (float64 (o_FilledQty o2))\<rparr> else o2)
      in if o_RemainingQty o3 = 0 then UpdateStatus now StatusFilled ''Order fully executed'' o3
         else UpdateStatus now StatusPartiallyFilled
                (''Filled '' @ show_int (o_FilledQty o3) @ '' of '' @ show_int (o_Quantity o3)) o3)"

definition IsActive :: "Order \<Rightarrow> bool" where
  "IsActive o' \<longleftrightarrow> o_Status o' = StatusOpen \<or> o_Status o' = StatusPartiallyFilled"

definition OrderValue :: "f64 \<Rightarrow> Order \<Rightarrow> f64" where
  "OrderValue ltp o' =
     (let p = (if o_OrderType o' = Market then ltp else o_Price o')
      in fmul p (float64 (o_Quantity o')))"

section \<open>Status updates\<close>

lemma UpdateStatus_simps [simp]:
  "o_Status (UpdateStatus now s m x) = s"
  "o_StatusMsg (UpdateStatus now s m x) = m"
  "o_UpdatedAt (UpdateStatus now s m x) = now"
  "o_OrderID (UpdateStatus now s m x) = o_OrderID x"
  "o_ClientID (UpdateStatus now s m x) = o_ClientID x"
  "o_Symbol (UpdateStatus now s m x) = o_Symbol x"
  "o_Side (UpdateStatus now s m x) = o_Side x"
  "o_OrderType (UpdateStatus now s m x) = o_OrderType x"
  "o_ProductType (UpdateStatus now s m x) = o_ProductType x"
  "o_Price (UpdateStatus now s m x) = o_Price x"
  "o_Quantity (UpdateStatus now s m x) = o_Quantity x"
  "o_FilledQty (UpdateStatus now s m x) = o_FilledQty x"
  "o_RemainingQty (UpdateStatus now s m x) = o_RemainingQty x"
  "o_AveragePrice (UpdateStatus now s m x) = o_AveragePrice x"
  by (simp_all add: UpdateStatus_def)

lemma Fill_frame [simp]:
  "o_OrderID (Fill now q p x) = o_OrderID x"
  "o_ClientID (Fill now q p x) = o_ClientID x"
  "o_Symbol (Fill now q p x) = o_Symbol x"
  "o_Side (Fill now q p x) = o_Side x"
  "o_OrderType (Fill now q p x) = o_OrderType x"
  "o_ProductType (Fill now q p x) = o_ProductType x"
  "o_Price (Fill now q p x) = o_Price x"
  "o_Quantity (Fill now q p x) = o_Quantity x"
  by (simp_all add: Fill_def Let_def)

section \<open>Quantities\<close>

text \<open>
  The invariant of an order's three quantities: nothing negative, filled and remaining add up
  to the order's quantity, and everything fits in 64 bits.
\<close>

definition qty_ok :: "Order \<Rightarrow> bool" where
  "qty_ok x \<longleftrightarrow> in64 (o_Quantity x) \<and> 0 \<le> o_FilledQty x \<and> 0 \<le> o_RemainingQty x \<and>
     o_FilledQty x + o_RemainingQty x = o_Quantity x"

lemma qty_ok_UpdateStatus [simp]: "qty_ok (UpdateStatus now s m x) = qty_ok x"
  by (simp add: qty_ok_def)

lemma Fill_filled:
  assumes "qty_ok x" "0 \<le> q" "q \<le> o_RemainingQty x"
  shows "o_FilledQty (Fill now q p x) = o_FilledQty x + q"
proof -
  have "in64 (o_FilledQty x + q)"
    using assms by (auto simp: qty_ok_def intro: in64_between)
  then show ?thesis by (simp add: Fill_def Let_def i64_simps)
qed

lemma Fill_remaining:
  assumes "qty_ok x" "0 \<le> q" "q \<le> o_RemainingQty x"
  shows "o_RemainingQty (Fill now q p x) = o_RemainingQty x - q"
proof -
  have q: "o_Quantity x - (o_FilledQty x + q) = o_RemainingQty x - q"
    and filled: "in64 (o_FilledQty x + q)" and left: "in64 (o_RemainingQty x - q)"
    using assms by (auto simp: qty_ok_def intro: in64_between)
  from left have "sub64 (o_Quantity x) (o_FilledQty x + q) = o_RemainingQty x - q"
    by (simp only: sub64_def q wrap64_id)
  with filled show ?thesis by (simp add: Fill_def Let_def add64_id)
qed

lemma Fill_status:
  "o_Status (Fill now q p x) =
     (if o_RemainingQty (Fill now q p x) = 0 then StatusFilled else StatusPartiallyFilled)"
  by (simp add: Fill_def Let_def)

lemmas Fill_simps = Fill_filled Fill_remaining Fill_status

lemma IsActive_Fill: "IsActive (Fill now q p x) \<longleftrightarrow> o_RemainingQty (Fill now q p x) \<noteq> 0"
  by (simp add: IsActive_def Fill_status)

lemma qty_ok_Fill:
  assumes "qty_ok x" "0 \<le> q" "q \<le> o_RemainingQty x"
  shows "qty_ok (Fill now q p x)"
  using assms by (simp add: qty_ok_def Fill_filled Fill_remaining)

section \<open>Average price\<close>

lemma Fill_average:
  assumes "qty_ok x" "0 < q" "q \<le> o_RemainingQty x"
  shows "o_AveragePrice (Fill now q p x) =
    fdiv (fadd (fmul (o_AveragePrice x) (float64 (o_FilledQty x))) (fmul p (float64 q)))
         (float64 (o_FilledQty x + q))"
proof -
  have "in64 (o_FilledQty x + q)" and "0 < o_FilledQty x + q"
    using assms by (auto simp: qty_ok_def intro: in64_between)
  then show ?thesis by (simp add: Fill_def Let_def i64_simps)
qed

lemma weighted_mean_between:
  fixes a b v w :: "'a :: linordered_field"
  assumes "0 \<le> v" "0 < w"
  shows "min a b \<le> (a * v + b * w) / (v + w)" and "(a * v + b * w) / (v + w) \<le> max a b"
proof -
  have pos: "0 < v + w" using assms by simp
  have "min a b * (v + w) \<le> a * v + b * w" "a * v + b * w \<le> max a b * (v + w)"
    using assms by (auto simp: distrib_left intro!: add_mono mult_right_mono)
  with pos show "min a b \<le> (a * v + b * w) / (v + w)" "(a * v + b * w) / (v + w) \<le> max a b"
    by (simp_all add: field_simps)
qed

section \<open>Identifiers\<close>

lemma generateOrderID_inj:
  assumes "0 \<le> t" "0 \<le> t'" "generateOrderID c t = generateOrderID c' t'"
  shows "c = c' \<and> t = t'"
proof -
  have dash: "CHR ''-'' \<notin> set (nat_digits t)" "CHR ''-'' \<notin> set (nat_digits t')"
    using assms show_int_no_char [of t "CHR ''-''"] show_int_no_char [of t' "CHR ''-''"] by auto
  from assms have "c @ CHR ''-'' # nat_digits t = c' @ CHR ''-'' # nat_digits t'"
    by (simp add: generateOrderID_def)
  with dash have "c = c' \<and> nat_digits t = nat_digits t'" by (intro last_separator_inj)
  with assms show ?thesis by (auto intro: nat_digits_inj)
qed

section \<open>Properties\<close>

definition ex_order :: Order where
  "ex_order = (NewOrder 5 ''C1'' ''INFY'')\<lparr>o_Side := Buy, o_OrderType := Limit, o_Quantity := 300,
     o_FilledQty := 100, o_RemainingQty := 200, o_Price := Fin 104, o_AveragePrice := Fin 100,
     o_Status := StatusPartiallyFilled\<rparr>"

lemma ex_order_simps [simp]:
  "o_Quantity ex_order = 300" "o_FilledQty ex_order = 100" "o_RemainingQty ex_order = 200"
  "o_AveragePrice ex_order = Fin 100" "qty_ok ex_order"
  by (simp_all add: ex_order_def qty_ok_def in64_def)

text \<open>A fill of at most the remaining quantity moves exactly that quantity from remaining to
  filled, never changes the ordered quantity, and closes the order exactly when nothing is left;
  the quantity invariant is kept, so no sequence of such fills can overfill an order.\<close>

lemma fill_moves_quantity:
  assumes "qty_ok x" "0 < q" "q \<le> o_RemainingQty x"
  shows "qty_ok (Fill now q p x) \<and> o_Quantity (Fill now q p x) = o_Quantity x \<and>
    o_FilledQty (Fill now q p x) = o_FilledQty x + q \<and>
    o_RemainingQty (Fill now q p x) = o_RemainingQty x - q \<and>
    (o_Status (Fill now q p x) = StatusFilled \<longleftrightarrow> q = o_RemainingQty x) \<and>
    (IsActive (Fill now q p x) \<longleftrightarrow> q < o_RemainingQty x)"
  using assms qty_ok_Fill [OF assms(1)] by (auto simp: Fill_simps IsActive_Fill)

lemma fill_moves_quantity_witness:
  "o_FilledQty (Fill 9 200 (Fin 103) ex_order) = 300 \<and>
   o_Status (Fill 9 200 (Fin 103) ex_order) = StatusFilled \<and>
   IsActive (Fill 9 150 (Fin 103) ex_order)"
  using fill_moves_quantity [of ex_order 200 9 "Fin 103"] fill_moves_quantity [of ex_order 150 9 "Fin 103"]
  by simp

text \<open>The average price: while the two cost products and their sum are exactly representable and
  the quantities are below \<open>2 ^ 53\<close>, the new average is the quantity-weighted mean of the fill
  prices, rounded once to the nearest float, and it lies between the old average and the price
  of the fill.\<close>

lemma fill_average_is_weighted_mean:
  assumes "qty_ok x" "0 < q" "q \<le> o_RemainingQty x" "o_Quantity x \<le> 2 ^ 53"
    and "o_AveragePrice x = Fin a" "round64 a = Fin a" "round64 b = Fin b"
    and "round64 (a * of_int (o_FilledQty x)) = Fin (a * of_int (o_FilledQty x))"
    and "round64 (b * of_int q) = Fin (b * of_int q)"
    and "round64 (a * of_int (o_FilledQty x) + b * of_int q) = Fin (a * of_int (o_FilledQty x) + b * of_int q)"
  shows "o_AveragePrice (Fill now q (Fin b) x) =
      round64 ((a * of_int (o_FilledQty x) + b * of_int q) / of_int (o_FilledQty x + q)) \<and>
    Fin (min a b) \<le> o_AveragePrice (Fill now q (Fin b) x) \<and>
    o_AveragePrice (Fill now q (Fin b) x) \<le> Fin (max a b)"
proof -
  let ?f = "o_FilledQty x" let ?m = "(a * of_int ?f + b * of_int q) / of_int (?f + q)"
  have f: "0 \<le> ?f" "?f + q \<le> 2 ^ 53" using assms(1-4) by (auto simp: qty_ok_def)
  have "fadd (fmul (Fin a) (float64 ?f)) (fmul (Fin b) (float64 q)) = Fin (a * of_int ?f + b * of_int q)"
    using f assms(2,8-10) by (simp add: float64_small)
  moreover have "float64 (?f + q) = Fin (of_int (?f + q))" using f assms(2) by (intro float64_small) simp
  moreover have "(of_int (?f + q) :: rat) \<noteq> 0" using f assms(2) by linarith
  ultimately have avg: "o_AveragePrice (Fill now q (Fin b) x) = round64 ?m"
    by (simp add: Fill_average [OF assms(1-3)] assms(5))
  have "0 \<le> (of_int ?f :: rat)" "0 < (of_int q :: rat)" using f assms(2) by simp_all
  from weighted_mean_between [OF this, of a b] have "min a b \<le> ?m" "?m \<le> max a b" by simp_all
  then have "round64 (min a b) \<le> round64 ?m" "round64 ?m \<le> round64 (max a b)"
    by (simp_all only: round64_mono)
  moreover have "round64 (min a b) = Fin (min a b)" "round64 (max a b) = Fin (max a b)"
    using assms(6,7) by (simp_all add: min_def max_def)
  ultimately show ?thesis by (simp only: avg simp_thms)
qed

lemma fill_average_is_weighted_mean_witness:
  "o_AveragePrice (Fill 9 100 (Fin 103) ex_order) = round64 (203 / 2) \<and>
   Fin 100 \<le> o_AveragePrice (Fill 9 100 (Fin 103) ex_order) \<and>
   o_AveragePrice (Fill 9 100 (Fin 103) ex_order) \<le> Fin 103"
proof -
  have "o_AveragePrice (Fill 9 100 (Fin 103) ex_order) = round64 (203 / 2) \<and>
    Fin (min 100 103) \<le> o_AveragePrice (Fill 9 100 (Fin 103) ex_order) \<and>
    o_AveragePrice (Fill 9 100 (Fin 103) ex_order) \<le> Fin (max 100 103)"
    using fill_average_is_weighted_mean [of ex_order 100 100 103 9]
    by (auto simp: f64_simps)
  then show ?thesis by (auto simp: min_def max_def)
qed

text \<open>Order identifiers are unique per client and instant: two orders get the same identifier only
  if they were created for the same client at the same nanosecond, even for client names that
  contain the separator.\<close>

lemma order_ids_unique:
  assumes "0 \<le> t" "0 \<le> t'" "o_OrderID (NewOrder t c s) = o_OrderID (NewOrder t' c' s')"
  shows "c = c' \<and> t = t'"
  using assms generateOrderID_inj [of t t' c c'] by (simp add: NewOrder_def)

lemma order_ids_unique_witness:
  "o_OrderID (NewOrder 12 ''A'' ''INFY'') \<noteq> o_OrderID (NewOrder 2 ''A-1'' ''INFY'')"
  using order_ids_unique [of 12 2 "''A''" "''INFY''" "''A-1''" "''INFY''"] by auto

end
