(* ===== verification/Market_Data.thy ===== *)
theory Market_Data
  imports Models
begin

text \<open>
  The market data feed of \<^verbatim>\<open>internal/marketdata/feed.go\<close>. Subscribers are functions on an outer state
  \<open>'w\<close>; a refresh stores the quote and hands it to each of them in turn. The HTTP client that
  fetches from Yahoo is a parameter that yields the decoded answer or an error; the readings of
  \<^verbatim>\<open>math/rand\<close> are arguments. Shown: a simulated price stays at or above one rupee and moves by at
  most half a percent per tick, and every quote in the cache carries its key as symbol.
\<close>

section \<open>State\<close>

record Quote =
  q_Symbol :: string
  q_LTP :: f64
  q_Open :: f64
  q_High :: f64
  q_Low :: f64
  q_PreviousClose :: f64
  q_Change :: f64
  q_ChangePercent :: f64
  q_Volume :: int
  q_UpdatedAt :: instant

record 'w Feed =
  fd_quotes :: "string \<rightharpoonup> Quote"
  fd_handlers :: "(Quote \<Rightarrow> 'w \<Rightarrow> 'w) list"
  fd_simMode :: bool

text \<open>The fields of \<^verbatim>\<open>yahooResponse\<close> the code reads: the list of results, each with its meta data.\<close>

record yahooMeta =
  y_RegularMarketPrice :: f64
  y_RegularMarketOpen :: f64
  y_RegularMarketDayHigh :: f64
  y_RegularMarketDayLow :: f64
  y_PreviousClose :: f64
  y_RegularMarketVolume :: int

datatype yahooResponse = HttpError string | DecodeError string | ChartResult "yahooMeta list"

datatype feed_error = FetchHTTP string | FetchDecode string | NoData string | ZeroPrice string

text \<open>The random readings of one simulated quote: a start price, the walk and the volume.\<close>

record randoms =
  rd_start :: f64
  rd_walk :: f64
  rd_volume :: int

section \<open>Operations\<close>

definition NewFeed :: "bool \<Rightarrow> 'w Feed" where
  "NewFeed simMode = \<lparr>fd_quotes = Map.empty, fd_handlers = [], fd_simMode = simMode\<rparr>"

definition Subscribe :: "(Quote \<Rightarrow> 'w \<Rightarrow> 'w) \<Rightarrow> 'w Feed \<Rightarrow> 'w Feed" where
  "Subscribe h f = f\<lparr>fd_handlers := fd_handlers f @ [h]\<rparr>"

definition feed_GetLTP :: "string \<Rightarrow> 'w Feed \<Rightarrow> f64" where
  "feed_GetLTP symbol f = (case fd_quotes f symbol of Some q \<Rightarrow> q_LTP q | None \<Rightarrow> Fin 0)"

definition feed_GetQuote :: "string \<Rightarrow> 'w Feed \<Rightarrow> Quote option" where
  "feed_GetQuote symbol f = fd_quotes f symbol"

definition toYahooTicker :: "string \<Rightarrow> string" where
  "toYahooTicker symbol =
     (let mapping = [''NIFTY'' \<mapsto> ''^NSEI'', ''BANKNIFTY'' \<mapsto> ''^NSEBANK'', ''SENSEX'' \<mapsto> ''^BSESN'']
      in case mapping symbol of Some ticker \<Rightarrow> ticker | None \<Rightarrow> symbol @ ''.NS'')"

definition fetchFromYahoo :: "(string \<Rightarrow> yahooResponse) \<Rightarrow> instant \<Rightarrow> string \<Rightarrow> feed_error + Quote" where
  "fetchFromYahoo http now symbol =
     (let ticker = toYahooTicker symbol in
      case http (''https://query1.finance.yahoo.com/v8/finance/chart/'' @ ticker) of
        HttpError e \<Rightarrow> Inl (FetchHTTP e)
      | DecodeError e \<Rightarrow> Inl (FetchDecode e)
      | ChartResult [] \<Rightarrow> Inl (NoData ticker)
      | ChartResult (meta # _) \<Rightarrow>
          if feq (y_RegularMarketPrice meta) (Fin 0) then Inl (ZeroPrice ticker)
          else
            let ltp = y_RegularMarketPrice meta;
                prev = y_PreviousClose meta;
                change = fsub ltp prev;
                changePct = (if flt (Fin 0) prev then fmul (fdiv change prev) (Fin 100) else Fin 0)
            in Inr \<lparr>q_Symbol = symbol, q_LTP = ltp, q_Open = y_RegularMarketOpen meta,
                    q_High = y_RegularMarketDayHigh meta, q_Low = y_RegularMarketDayLow meta,
                    q_PreviousClose = prev, q_Change = change, q_ChangePercent = changePct,
                    q_Volume = y_RegularMarketVolume meta, q_UpdatedAt = now\<rparr>)"

definition basePrices :: "string \<rightharpoonup> f64" where
  "basePrices =
     [''RELIANCE'' \<mapsto> Fin 2500, ''TCS'' \<mapsto> Fin 3800, ''INFY'' \<mapsto> Fin 1800, ''HDFCBANK'' \<mapsto> Fin 1600,
      ''ICICIBANK'' \<mapsto> Fin 1200, ''WIPRO'' \<mapsto> Fin 550, ''NIFTY'' \<mapsto> Fin 22000,
      ''BANKNIFTY'' \<mapsto> Fin 47000, ''SBIN'' \<mapsto> Fin 800, ''TATASTEEL'' \<mapsto> Fin 150]"

definition sim_current :: "randoms \<Rightarrow> string \<Rightarrow> 'w Feed \<Rightarrow> f64" where
  "sim_current rd symbol f =
     (case fd_quotes f symbol of
        Some existing \<Rightarrow> q_LTP existing
      | None \<Rightarrow>
          (case basePrices symbol of
             Some base \<Rightarrow> base
           | None \<Rightarrow> fadd (Fin 100) (fmul (rd_start rd) (Fin 900))))"

definition simulateQuote :: "randoms \<Rightarrow> instant \<Rightarrow> string \<Rightarrow> 'w Feed \<Rightarrow> Quote" where
  "simulateQuote rd now symbol f =
     (let currentPrice = sim_current rd symbol f;
          changePct = fmul (fsub (rd_walk rd) (flit (1 / 2))) (flit (1 / 100));
          newPrice0 = fmul currentPrice (fadd (Fin 1) changePct);
          newPrice = (if flt newPrice0 (Fin 1) then Fin 1 else newPrice0);
          change = fsub newPrice currentPrice;
          changePctAbs = fmul (fdiv change currentPrice) (Fin 100);
          volume = add64 100000 (rd_volume rd)
      in \<lparr>q_Symbol = symbol, q_LTP = newPrice, q_Open = fmul currentPrice (flit (998 / 1000)),
          q_High = fmul newPrice (flit (1002 / 1000)), q_Low = fmul newPrice (flit (998 / 1000)),
          q_PreviousClose = currentPrice, q_Change = change, q_ChangePercent = changePctAbs,
          q_Volume = volume, q_UpdatedAt = now\<rparr>)"

definition refresh_quote :: "(string \<Rightarrow> yahooResponse) \<Rightarrow> randoms \<Rightarrow> instant \<Rightarrow> string \<Rightarrow> 'w Feed \<Rightarrow> Quote" where
  "refresh_quote http rd now symbol f =
     (if fd_simMode f then simulateQuote rd now symbol f
      else case fetchFromYahoo http now symbol of
             Inl _ \<Rightarrow> simulateQuote rd now symbol f
           | Inr quote \<Rightarrow> quote)"

definition Refresh :: "(string \<Rightarrow> yahooResponse) \<Rightarrow> randoms \<Rightarrow> instant \<Rightarrow> string \<Rightarrow> 'w Feed \<times> 'w \<Rightarrow> 'w Feed \<times> 'w" where
  "Refresh http rd now symbol st =
     (let (f, w) = st;
          quote = refresh_quote http rd now symbol f;
          f1 = f\<lparr>fd_quotes := (fd_quotes f)(symbol \<mapsto> quote)\<rparr>
      in (f1, fold (\<lambda>h. h quote) (fd_handlers f) w))"

text \<open>One round of the polling loop; each symbol has its own readings and answers.\<close>

definition poll_round ::
  "(string \<Rightarrow> yahooResponse) \<Rightarrow> (string \<Rightarrow> randoms) \<Rightarrow> instant \<Rightarrow> string list \<Rightarrow> 'w Feed \<times> 'w \<Rightarrow> 'w Feed \<times> 'w" where
  "poll_round http rds now symbols st = fold (\<lambda>s. Refresh http (rds s) now s) symbols st"

section \<open>Lemmas\<close>

text \<open>The range of \<^verbatim>\<open>rand.Float64\<close> and \<^verbatim>\<open>rand.Intn(500000)\<close>.\<close>

definition randoms_ok :: "randoms \<Rightarrow> bool" where
  "randoms_ok rd \<longleftrightarrow> (\<exists>s x. rd_start rd = Fin s \<and> 0 \<le> s \<and> s < 1 \<and> rd_walk rd = Fin x \<and> 0 \<le> x \<and> x < 1) \<and>
     0 \<le> rd_volume rd \<and> rd_volume rd < 500000"

lemma walk_constants:
  "flit (1 / 2) = Fin (1 / 2)" "flit (1 / 100) = Fin (5764607523034235 / 576460752303423488)"
  "round64 (1 / 2) = Fin (1 / 2)" "round64 (- 1 / 2) = Fin (- 1 / 2)"
  "round64 (5764607523034235 / 1152921504606846976) = Fin (5764607523034235 / 1152921504606846976)"
  "round64 (- 5764607523034235 / 1152921504606846976) = Fin (- 5764607523034235 / 1152921504606846976)"
  by code_simp+

text \<open>The factor of one step of the walk, at its two ends.\<close>

definition walk_low :: rat where "walk_low = 8962163258467287 / 9007199254740992"
definition walk_high :: rat where "walk_high = 4526117625507348 / 4503599627370496"

lemma walk_ends:
  "round64 (1 + 5764607523034235 / 1152921504606846976) = Fin walk_high"
  "round64 (1 - 5764607523034235 / 1152921504606846976) = Fin walk_low"
  by code_simp+

lemma walk_factor:
  assumes "0 \<le> x" "x < 1"
  shows "\<exists>c. fadd (Fin 1) (fmul (fsub (Fin x) (flit (1 / 2))) (flit (1 / 100))) = Fin c \<and>
    walk_low \<le> c \<and> c \<le> walk_high"
proof -
  let ?k = "5764607523034235 / 576460752303423488 :: rat"
  obtain d where d: "round64 (x + - (1 / 2)) = Fin d" "- 1 / 2 \<le> d" "d \<le> 1 / 2"
    using round64_between [OF _ _ walk_constants(4) walk_constants(3), of "x + - (1 / 2)"] assms by auto
  obtain e where e: "round64 (d * ?k) = Fin e" "- (?k / 2) \<le> e" "e \<le> ?k / 2"
    using round64_between [OF _ _ walk_constants(6) walk_constants(5), of "d * ?k"] d by auto
  obtain c where "round64 (1 + e) = Fin c" "walk_low \<le> c" "c \<le> walk_high"
    using round64_between [OF _ _ walk_ends(2) walk_ends(1), of "1 + e"] e by auto
  with d e show ?thesis by (simp add: walk_constants fsub_def)
qed

text \<open>Half a percent, up to float rounding.\<close>

lemma walk_half_percent: "walk_low \<ge> 995 / 1000 - 1 / 2 ^ 53" "walk_high \<le> 1005 / 1000 + 1 / 2 ^ 52"
  by (simp_all add: walk_low_def walk_high_def)

section \<open>Properties\<close>

text \<open>C37: The simulated price walk: from any finite price \<open>p\<close> the next price is at least one rupee, and unless the floor applies it moves by at most half a percent (factors
  within \<open>2 ^ -52\<close> of 0.995 and 1.005, one final rounding); the quote carries its symbol and the
  previous price.\<close>

theorem simulated_price_walk_bounded:
  assumes "randoms_ok rd" "sim_current rd symbol f = Fin p"
  shows "\<exists>c. walk_low \<le> c \<and> c \<le> walk_high \<and>
    995 / 1000 - 1 / 2 ^ 53 \<le> c \<and> c \<le> 1005 / 1000 + 1 / 2 ^ 52 \<and>
    q_LTP (simulateQuote rd now symbol f) = (if round64 (p * c) < Fin 1 then Fin 1 else round64 (p * c)) \<and>
    Fin 1 \<le> q_LTP (simulateQuote rd now symbol f) \<and>
    q_Symbol (simulateQuote rd now symbol f) = symbol \<and>
    q_PreviousClose (simulateQuote rd now symbol f) = Fin p"
proof -
  from assms(1) obtain x where x: "rd_walk rd = Fin x" "0 \<le> x" "x < 1" by (auto simp: randoms_ok_def)
  from walk_factor [OF x(2,3)] obtain c where
    c: "fadd (Fin 1) (fmul (fsub (Fin x) (flit (1 / 2))) (flit (1 / 100))) = Fin c" "walk_low \<le> c" "c \<le> walk_high"
    by blast
  have "q_LTP (simulateQuote rd now symbol f) = (if flt (round64 (p * c)) (Fin 1) then Fin 1 else round64 (p * c))"
    by (simp add: simulateQuote_def x(1) c(1) assms(2) Let_def)
  then have ltp: "q_LTP (simulateQuote rd now symbol f) = (if round64 (p * c) < Fin 1 then Fin 1 else round64 (p * c))"
    by (simp add: flt_iff)
  moreover from this have "Fin 1 \<le> q_LTP (simulateQuote rd now symbol f)" by auto
  moreover have "995 / 1000 - 1 / 2 ^ 53 \<le> c" "c \<le> 1005 / 1000 + 1 / 2 ^ 52"
    using order_trans [OF walk_half_percent(1) c(2)] order_trans [OF c(3) walk_half_percent(2)] .
  ultimately show ?thesis
    using c(2,3) assms(2) by (intro exI [of _ c]) (simp add: simulateQuote_def Let_def)
qed

definition ex_feed :: "unit Feed" where
  "ex_feed = NewFeed True"

definition ex_randoms :: randoms where
  "ex_randoms = \<lparr>rd_start = Fin 0, rd_walk = Fin (3 / 4), rd_volume = 12\<rparr>"

theorem simulated_price_walk_bounded_witness:
  "Fin 1 \<le> q_LTP (simulateQuote ex_randoms 0 ''TCS'' ex_feed) \<and>
   q_PreviousClose (simulateQuote ex_randoms 0 ''TCS'' ex_feed) = Fin 3800"
proof -
  have "randoms_ok ex_randoms" unfolding randoms_ok_def ex_randoms_def by (intro conjI exI [of _ 0] exI [of _ "3 / 4"]) simp_all
  moreover have "sim_current ex_randoms ''TCS'' ex_feed = Fin 3800"
    by (simp add: sim_current_def ex_feed_def NewFeed_def basePrices_def)
  ultimately show ?thesis using simulated_price_walk_bounded [of ex_randoms "''TCS''" ex_feed 3800 0] by auto
qed

text \<open>A refresh never fails and always has a price: with any answer of the quote service, including
  errors and empty or zero answers, the symbol's quote is replaced by one that carries its name,
  every subscriber receives exactly that quote in order of subscription, and no other symbol
  changes.\<close>

lemma refresh_always_delivers:
  "\<exists>quote. Refresh http rd now symbol (f, w) =
      (f\<lparr>fd_quotes := (fd_quotes f)(symbol \<mapsto> quote)\<rparr>, fold (\<lambda>h. h quote) (fd_handlers f) w) \<and>
    q_Symbol quote = symbol \<and> feed_GetLTP symbol (fst (Refresh http rd now symbol (f, w))) = q_LTP quote \<and>
    (quote = simulateQuote rd now symbol f \<or>
      (\<not> fd_simMode f \<and> fetchFromYahoo http now symbol = Inr quote \<and> \<not> feq (q_LTP quote) (Fin 0)))"
proof -
  have sim: "q_Symbol (simulateQuote rd now symbol f) = symbol" by (simp add: simulateQuote_def Let_def)
  have "q_Symbol quote = symbol \<and> \<not> feq (q_LTP quote) (Fin 0)" if "fetchFromYahoo http now symbol = Inr quote" for quote
    using that by (auto simp: fetchFromYahoo_def Let_def split: yahooResponse.splits list.splits if_splits)
  with sim show ?thesis
    by (auto simp: Refresh_def refresh_quote_def feed_GetLTP_def Let_def split: sum.split)
qed

end
