(* ===== verification/Order_Book.thy ===== *)
theory Order_Book
  imports Models
begin

text \<open>
  The order book of \<^verbatim>\<open>internal/orderbook/orderbook.go\<close>. Orders are shared between the identifier
  map, the price levels and the queued events by pointer, so they live in an explicit heap and
  the book holds addresses. Every operation runs under the book's mutex and is one atomic
  state transformer on the heap and the book.
\<close>

section \<open>State\<close>

type_synonym heap = "addr \<Rightarrow> Order"

record PriceLevel =
  lv_Price :: f64
  lv_Orders :: "addr list"
  lv_Total :: int

datatype EventType = EventNewOrder | EventCancelOrder | EventModifyOrder

record Event =
  ev_Type :: EventType
  ev_Order :: addr
  ev_Timestamp :: instant

record OrderBook =
  ob_Symbol :: string
  ob_Exchange :: Exchange
  ob_bids :: "PriceLevel list"
  ob_asks :: "PriceLevel list"
  ob_orders :: "string \<rightharpoonup> addr"
  ob_EventCh :: "Event list"

datatype book_error =
    OrderExists string
  | OrderNotFound string
  | OrderNotActive string OrderStatus

fun book_error_string :: "book_error \<Rightarrow> string" where
  "book_error_string (OrderExists i) = ''order '' @ i @ '' already exists in book''"
| "book_error_string (OrderNotFound i) = ''order '' @ i @ '' not found in book''"
| "book_error_string (OrderNotActive i s) =
     ''order '' @ i @ '' is not active (status: '' @ status_string s @ '')''"

section \<open>Operations\<close>

definition NewOrderBook :: "string \<Rightarrow> Exchange \<Rightarrow> OrderBook" where
  "NewOrderBook symbol exchange =
     \<lparr>ob_Symbol = symbol, ob_Exchange = exchange, ob_bids = [], ob_asks = [],
      ob_orders = Map.empty, ob_EventCh = []\<rparr>"

definition new_level :: "f64 \<Rightarrow> addr \<Rightarrow> int \<Rightarrow> PriceLevel" where
  "new_level price p qty = \<lparr>lv_Price = price, lv_Orders = [p], lv_Total = qty\<rparr>"

definition append_order :: "addr \<Rightarrow> int \<Rightarrow> PriceLevel \<Rightarrow> PriceLevel" where
  "append_order p qty level =
     level\<lparr>lv_Orders := lv_Orders level @ [p], lv_Total := add64 (lv_Total level) qty\<rparr>"

fun addToBids :: "addr \<Rightarrow> f64 \<Rightarrow> int \<Rightarrow> PriceLevel list \<Rightarrow> PriceLevel list" where
  "addToBids p price qty [] = [new_level price p qty]"
| "addToBids p price qty (level # ls) =
     (if feq (lv_Price level) price then append_order p qty level # ls
      else if flt (lv_Price level) price then new_level price p qty # level # ls
      else level # addToBids p price qty ls)"

fun addToAsks :: "addr \<Rightarrow> f64 \<Rightarrow> int \<Rightarrow> PriceLevel list \<Rightarrow> PriceLevel list" where
  "addToAsks p price qty [] = [new_level price p qty]"
| "addToAsks p price qty (level # ls) =
     (if feq (lv_Price level) price then append_order p qty level # ls
      else if flt price (lv_Price level) then new_level price p qty # level # ls
      else level # addToAsks p price qty ls)"

definition send_event :: "instant \<Rightarrow> EventType \<Rightarrow> addr \<Rightarrow> OrderBook \<Rightarrow> OrderBook" where
  "send_event now ty p ob =
     ob\<lparr>ob_EventCh := ob_EventCh ob @ [\<lparr>ev_Type = ty, ev_Order = p, ev_Timestamp = now\<rparr>]\<rparr>"

definition ob_Add :: "instant \<Rightarrow> addr \<Rightarrow> heap \<times> OrderBook \<Rightarrow> (heap \<times> OrderBook) \<times> book_error option" where
  "ob_Add now p st =
     (let (h, ob) = st; oid = o_OrderID (h p) in
      if ob_orders ob oid \<noteq> None then (st, Some (OrderExists oid))
      else
        let ob1 = ob\<lparr>ob_orders := (ob_orders ob)(oid \<mapsto> p)\<rparr>;
            h1 = h(p := UpdateStatus now StatusOpen ''Order placed on book'' (h p));
            order = h1 p;
            ob2 = (if o_Side order = Buy
                   then ob1\<lparr>ob_bids := addToBids p (o_Price order) (o_RemainingQty order) (ob_bids ob1)\<rparr>
                   else ob1\<lparr>ob_asks := addToAsks p (o_Price order) (o_RemainingQty order) (ob_asks ob1)\<rparr>)
        in ((h1, send_event now EventNewOrder p ob2), None))"

text \<open>
  \<^verbatim>\<open>removeFromLevels\<close>: the first order with the identifier, in the first level of the order's
  price that holds one; the level goes when it was the last order.
\<close>

fun remove_by_id :: "heap \<Rightarrow> string \<Rightarrow> addr list \<Rightarrow> addr list option" where
  "remove_by_id h oid [] = None"
| "remove_by_id h oid (p # ps) =
     (if o_OrderID (h p) = oid then Some ps else map_option ((#) p) (remove_by_id h oid ps))"

fun removeFromLevels :: "heap \<Rightarrow> Order \<Rightarrow> PriceLevel list \<Rightarrow> PriceLevel list" where
  "removeFromLevels h order [] = []"
| "removeFromLevels h order (level # ls) =
     (if feq (lv_Price level) (o_Price order)
      then case remove_by_id h (o_OrderID order) (lv_Orders level) of
             None \<Rightarrow> level # removeFromLevels h order ls
           | Some ps \<Rightarrow>
               if ps = [] then ls
               else level\<lparr>lv_Orders := ps,
                          lv_Total := sub64 (lv_Total level) (o_RemainingQty order)\<rparr> # ls
      else level # removeFromLevels h order ls)"

definition ob_Cancel :: "instant \<Rightarrow> string \<Rightarrow> heap \<times> OrderBook \<Rightarrow> (heap \<times> OrderBook) \<times> book_error option" where
  "ob_Cancel now orderID st =
     (let (h, ob) = st in
      case ob_orders ob orderID of
        None \<Rightarrow> (st, Some (OrderNotFound orderID))
      | Some p \<Rightarrow>
          let order = h p in
          if \<not> IsActive order then (st, Some (OrderNotActive orderID (o_Status order)))
          else
            let ob1 = (if o_Side order = Buy
                       then ob\<lparr>ob_bids := removeFromLevels h order (ob_bids ob)\<rparr>
                       else ob\<lparr>ob_asks := removeFromLevels h order (ob_asks ob)\<rparr>);
                ob2 = ob1\<lparr>ob_orders := (ob_orders ob1)(orderID := None)\<rparr>;
                h1 = h(p := UpdateStatus now StatusCancelled ''Cancelled by user'' order)
            in ((h1, send_event now EventCancelOrder p ob2), None))"

definition BestBid :: "OrderBook \<Rightarrow> PriceLevel option" where
  "BestBid ob = (case ob_bids ob of [] \<Rightarrow> None | l # _ \<Rightarrow> Some l)"

definition BestAsk :: "OrderBook \<Rightarrow> PriceLevel option" where
  "BestAsk ob = (case ob_asks ob of [] \<Rightarrow> None | l # _ \<Rightarrow> Some l)"

definition Spread :: "OrderBook \<Rightarrow> f64" where
  "Spread ob =
     (case (BestBid ob, BestAsk ob) of
        (Some bid, Some ask) \<Rightarrow> fsub (lv_Price ask) (lv_Price bid)
      | _ \<Rightarrow> Fin 0)"

text \<open>The depth loop: level number \<open>i\<close> is copied until \<open>i\<close> reaches the limit.\<close>

fun depth_from :: "int \<Rightarrow> int \<Rightarrow> PriceLevel list \<Rightarrow> PriceLevel list" where
  "depth_from i levels [] = []"
| "depth_from i levels (l # ls) = (if levels \<le> i then [] else l # depth_from (i + 1) levels ls)"

definition MarketDepth :: "int \<Rightarrow> OrderBook \<Rightarrow> PriceLevel list \<times> PriceLevel list" where
  "MarketDepth levels ob = (depth_from 0 levels (ob_bids ob), depth_from 0 levels (ob_asks ob))"

definition ob_GetOrder :: "string \<Rightarrow> OrderBook \<Rightarrow> addr option" where
  "ob_GetOrder orderID ob = ob_orders ob orderID"

definition BidLevels :: "OrderBook \<Rightarrow> PriceLevel list" where
  "BidLevels ob = ob_bids ob"

definition AskLevels :: "OrderBook \<Rightarrow> PriceLevel list" where
  "AskLevels ob = ob_asks ob"

record BookStats =
  st_symbol :: string
  st_bid_levels :: nat
  st_ask_levels :: nat
  st_total_bid_qty :: int
  st_total_ask_qty :: int
  st_total_orders :: nat
  st_spread :: f64

definition total_qty :: "PriceLevel list \<Rightarrow> int" where
  "total_qty ls = fold (\<lambda>l acc. add64 acc (lv_Total l)) ls 0"

definition ob_Stats :: "OrderBook \<Rightarrow> BookStats" where
  "ob_Stats ob =
     \<lparr>st_symbol = ob_Symbol ob, st_bid_levels = length (ob_bids ob),
      st_ask_levels = length (ob_asks ob), st_total_bid_qty = total_qty (ob_bids ob),
      st_total_ask_qty = total_qty (ob_asks ob), st_total_orders = card (dom (ob_orders ob)),
      st_spread = Spread ob\<rparr>"

section \<open>Well-formed sides\<close>

text \<open>The orders of a side in priority order: best level first, oldest order first.\<close>

definition level_orders :: "PriceLevel list \<Rightarrow> addr list" where
  "level_orders ls = concat (map lv_Orders ls)"

definition level_sorted :: "(f64 \<Rightarrow> f64 \<Rightarrow> bool) \<Rightarrow> PriceLevel list \<Rightarrow> bool" where
  "level_sorted better ls \<longleftrightarrow>
     sorted_wrt (\<lambda>l m. better (lv_Price l) (lv_Price m)) ls \<and> (\<forall>l \<in> set ls. lv_Price l \<noteq> NaN)"

text \<open>Every level is non-empty and its orders carry the level's price and belong to the side.\<close>

definition level_ok :: "(Order \<Rightarrow> bool) \<Rightarrow> heap \<Rightarrow> PriceLevel \<Rightarrow> bool" where
  "level_ok on_side h l \<longleftrightarrow> lv_Orders l \<noteq> [] \<and>
     (\<forall>p \<in> set (lv_Orders l). o_Price (h p) = lv_Price l \<and> on_side (h p))"

definition side_ok :: "(f64 \<Rightarrow> f64 \<Rightarrow> bool) \<Rightarrow> (Order \<Rightarrow> bool) \<Rightarrow> heap \<Rightarrow> PriceLevel list \<Rightarrow> bool" where
  "side_ok better on_side h ls \<longleftrightarrow> level_sorted better ls \<and> (\<forall>l \<in> set ls. level_ok on_side h l)"

text \<open>Each level's total is the sum of its orders' remaining quantities.\<close>

definition totals_ok :: "heap \<Rightarrow> PriceLevel list \<Rightarrow> bool" where
  "totals_ok h ls \<longleftrightarrow>
     (\<forall>l \<in> set ls. lv_Total l = wrap64 (\<Sum>p\<leftarrow>lv_Orders l. o_RemainingQty (h p)))"

lemma level_orders_simps [simp]:
  "level_orders [] = []"
  "level_orders (l # ls) = lv_Orders l @ level_orders ls"
  by (simp_all add: level_orders_def)

lemma set_level_orders: "set (level_orders ls) = (\<Union>l \<in> set ls. set (lv_Orders l))"
  by (simp add: level_orders_def)

lemma level_sorted_Cons:
  "level_sorted better (l # ls) \<longleftrightarrow>
     lv_Price l \<noteq> NaN \<and> (\<forall>m \<in> set ls. better (lv_Price l) (lv_Price m)) \<and> level_sorted better ls"
  by (auto simp: level_sorted_def)

lemma level_sorted_Nil [simp]: "level_sorted better []"
  by (simp add: level_sorted_def)

lemma side_ok_Cons:
  "side_ok better on_side h (l # ls) \<longleftrightarrow>
     level_sorted better (l # ls) \<and> level_ok on_side h l \<and> side_ok better on_side h ls"
  by (auto simp: side_ok_def level_sorted_Cons)

lemma new_level_simps [simp]:
  "lv_Price (new_level price p q) = price"
  "lv_Orders (new_level price p q) = [p]"
  "lv_Total (new_level price p q) = q"
  by (simp_all add: new_level_def)

lemma append_order_simps [simp]:
  "lv_Price (append_order p q l) = lv_Price l"
  "lv_Orders (append_order p q l) = lv_Orders l @ [p]"
  "lv_Total (append_order p q l) = add64 (lv_Total l) q"
  by (simp_all add: append_order_def)

section \<open>Insertion\<close>

text \<open>
  The contract of one side of the book: a strict priority between prices and an insertion that
  walks the levels in that priority. Bids and asks are its two providers.
\<close>

locale book_side =
  fixes better :: "f64 \<Rightarrow> f64 \<Rightarrow> bool"
    and add :: "addr \<Rightarrow> f64 \<Rightarrow> int \<Rightarrow> PriceLevel list \<Rightarrow> PriceLevel list"
  assumes better_irrefl: "\<not> better a a"
    and better_trans: "better a b \<Longrightarrow> better b c \<Longrightarrow> better a c"
    and better_total: "a \<noteq> NaN \<Longrightarrow> b \<noteq> NaN \<Longrightarrow> a \<noteq> b \<Longrightarrow> better a b \<or> better b a"
    and add_Nil: "add p price q [] = [new_level price p q]"
    and add_Cons: "add p price q (l # ls) =
      (if feq (lv_Price l) price then append_order p q l # ls
       else if better price (lv_Price l) then new_level price p q # l # ls
       else l # add p price q ls)"
begin

lemma add_prices: "lv_Price ` set (add p price q ls) = insert price (lv_Price ` set ls)"
  by (induction ls) (auto simp: add_Nil add_Cons feq_iff)

lemma add_prices_ball:
  "(\<forall>m \<in> set (add p price q ls). P (lv_Price m)) \<longleftrightarrow> P price \<and> (\<forall>l \<in> set ls. P (lv_Price l))"
proof -
  have "(\<forall>m \<in> set (add p price q ls). P (lv_Price m)) \<longleftrightarrow> (\<forall>a \<in> lv_Price ` set (add p price q ls). P a)"
    by simp
  also have "\<dots> \<longleftrightarrow> P price \<and> (\<forall>l \<in> set ls. P (lv_Price l))"
    by (simp only: add_prices) simp
  finally show ?thesis .
qed

lemma add_sorted:
  assumes "level_sorted better ls" "price \<noteq> NaN"
  shows "level_sorted better (add p price q ls)"
  using assms
proof (induction ls)
  case Nil
  then show ?case by (simp add: add_Nil level_sorted_Cons)
next
  case (Cons l ls)
  consider "lv_Price l = price" | "lv_Price l \<noteq> price" "better price (lv_Price l)"
    | "lv_Price l \<noteq> price" "\<not> better price (lv_Price l)" by blast
  then show ?case
  proof cases
    case 3
    with Cons.prems better_total have "better (lv_Price l) price"
      by (auto simp: level_sorted_Cons)
    with 3 Cons show ?thesis
      by (simp add: add_Cons feq_iff level_sorted_Cons add_prices_ball)
  qed (use Cons.prems in \<open>auto simp: add_Cons feq_iff level_sorted_Cons intro: better_trans\<close>)
qed

lemma add_level_ok:
  assumes "\<forall>l \<in> set ls. level_ok on_side h l" "o_Price (h p) = price" "on_side (h p)"
  shows "\<forall>l \<in> set (add p price q ls). level_ok on_side h l"
  using assms(1)
proof (induction ls)
  case Nil
  with assms(2,3) show ?case by (simp add: add_Nil level_ok_def)
next
  case (Cons l ls)
  have "lv_Price l = price \<Longrightarrow> level_ok on_side h (append_order p q l)"
    "level_ok on_side h (new_level price p q)"
    using Cons.prems assms(2,3) by (auto simp: level_ok_def)
  with Cons show ?case by (simp add: add_Cons feq_iff)
qed

lemma add_side_ok:
  assumes "side_ok better on_side h ls" "o_Price (h p) = price" "on_side (h p)" "price \<noteq> NaN"
  shows "side_ok better on_side h (add p price q ls)"
  using assms add_sorted add_level_ok unfolding side_ok_def by blast

text \<open>
  Where the new order goes: behind every order at its price or better, ahead of every order at
  a worse price.
\<close>

lemma add_position:
  assumes "side_ok better on_side h ls" "price \<noteq> NaN"
  shows "\<exists>xs ys. level_orders ls = xs @ ys \<and> level_orders (add p price q ls) = xs @ p # ys \<and>
    (\<forall>x \<in> set xs. o_Price (h x) = price \<or> better (o_Price (h x)) price) \<and>
    (\<forall>y \<in> set ys. better price (o_Price (h y)))"
  using assms
proof (induction ls)
  case Nil
  then show ?case by (simp add: add_Nil)
next
  case (Cons l ls)
  from Cons.prems have l: "lv_Price l \<noteq> NaN" "\<forall>x \<in> set (lv_Orders l). o_Price (h x) = lv_Price l"
    and rest: "\<forall>y \<in> set (level_orders ls). better (lv_Price l) (o_Price (h y))"
    by (auto simp: side_ok_def level_sorted_Cons level_ok_def set_level_orders)
  consider "lv_Price l = price" | "lv_Price l \<noteq> price" "better price (lv_Price l)"
    | "lv_Price l \<noteq> price" "\<not> better price (lv_Price l)" by blast
  then show ?case
  proof cases
    case 1
    with l rest Cons.prems show ?thesis
      by (intro exI [of _ "lv_Orders l"] exI [of _ "level_orders ls"]) (auto simp: add_Cons feq_iff)
  next
    case 2
    with l rest show ?thesis
      by (intro exI [of _ "[]"] exI [of _ "lv_Orders l @ level_orders ls"])
        (auto simp: add_Cons feq_iff intro: better_trans)
  next
    case 3
    with l Cons.prems better_total have "better (lv_Price l) price" by auto
    moreover from Cons obtain xs ys where "level_orders ls = xs @ ys"
      "level_orders (add p price q ls) = xs @ p # ys"
      "\<forall>x \<in> set xs. o_Price (h x) = price \<or> better (o_Price (h x)) price"
      "\<forall>y \<in> set ys. better price (o_Price (h y))"
      by (auto simp: side_ok_Cons)
    ultimately show ?thesis
      using 3 l by (intro exI [of _ "lv_Orders l @ xs"] exI [of _ ys]) (auto simp: add_Cons feq_iff)
  qed
qed

lemma set_add: "set (level_orders (add p price q ls)) = insert p (set (level_orders ls))"
  by (induction ls) (auto simp: add_Nil add_Cons)

lemma distinct_add:
  "distinct (level_orders ls) \<Longrightarrow> p \<notin> set (level_orders ls) \<Longrightarrow>
   distinct (level_orders (add p price q ls))"
  by (induction ls) (auto simp: add_Nil add_Cons set_add)

lemma add_totals_ok:
  assumes "totals_ok h ls" "q = o_RemainingQty (h p)" "in64 q"
  shows "totals_ok h (add p price q ls)"
  using assms
  by (induction ls)
    (auto simp: add_Nil add_Cons totals_ok_def add64_def wrap64_add_left wrap64_id)

end

abbreviation better_bid :: "f64 \<Rightarrow> f64 \<Rightarrow> bool" where
  "better_bid a b \<equiv> flt b a"

abbreviation is_buy :: "Order \<Rightarrow> bool" where
  "is_buy x \<equiv> o_Side x = Buy"

interpretation bids: book_side better_bid addToBids
  by unfold_locales (auto simp: flt_iff)

interpretation asks: book_side flt addToAsks
  by unfold_locales (auto simp: flt_iff)

section \<open>Removal\<close>

definition without :: "addr list \<Rightarrow> int \<Rightarrow> PriceLevel \<Rightarrow> PriceLevel list" where
  "without ps q l =
     (if ps = [] then [] else [l\<lparr>lv_Orders := ps, lv_Total := sub64 (lv_Total l) q\<rparr>])"

lemma remove_by_id_None: "remove_by_id h oid ps = None \<longleftrightarrow> (\<forall>p \<in> set ps. o_OrderID (h p) \<noteq> oid)"
  by (induction ps) auto

lemma remove_by_id_SomeD:
  "remove_by_id h oid ps = Some rest \<Longrightarrow>
   \<exists>xs p ys. ps = xs @ p # ys \<and> rest = xs @ ys \<and> o_OrderID (h p) = oid"
proof (induction ps arbitrary: rest)
  case (Cons a ps)
  show ?case
  proof (cases "o_OrderID (h a) = oid")
    case True
    with Cons.prems show ?thesis by (intro exI [of _ "[]"]) auto
  next
    case False
    with Cons.prems obtain r where r: "remove_by_id h oid ps = Some r" "rest = a # r" by auto
    with Cons.IH obtain xs p ys where "ps = xs @ p # ys" "r = xs @ ys" "o_OrderID (h p) = oid"
      by blast
    with r show ?thesis by (intro exI [of _ "a # xs"]) auto
  qed
qed simp

text \<open>
  What removal does: one order with the identifier leaves its level, and the level leaves the
  side when that was its last order; or no level of that price holds the identifier and nothing
  changes.
\<close>

lemma removeFromLevels_split:
  "(removeFromLevels h order ls = ls \<and>
    (\<forall>l \<in> set ls. feq (lv_Price l) (o_Price order) \<longrightarrow>
       (\<forall>p \<in> set (lv_Orders l). o_OrderID (h p) \<noteq> o_OrderID order))) \<or>
   (\<exists>ls1 l ls2 xs p ys. ls = ls1 @ l # ls2 \<and> lv_Orders l = xs @ p # ys \<and>
      o_OrderID (h p) = o_OrderID order \<and> lv_Price l = o_Price order \<and>
      removeFromLevels h order ls = ls1 @ without (xs @ ys) (o_RemainingQty order) l @ ls2)"
  (is "?same ls \<or> ?gone ls")
proof (induction ls)
  case Nil
  then show ?case by simp
next
  case (Cons l ls)
  show ?case
  proof (cases "feq (lv_Price l) (o_Price order) \<and> remove_by_id h (o_OrderID order) (lv_Orders l) \<noteq> None")
    case True
    then obtain rest where rest: "remove_by_id h (o_OrderID order) (lv_Orders l) = Some rest" by blast
    from remove_by_id_SomeD [OF this] obtain xs p ys
      where "lv_Orders l = xs @ p # ys" "rest = xs @ ys" "o_OrderID (h p) = o_OrderID order" by blast
    moreover from this True rest have "lv_Price l = o_Price order" "l # ls = [] @ l # ls"
      "removeFromLevels h order (l # ls) = [] @ without (xs @ ys) (o_RemainingQty order) l @ ls"
      by (auto simp: without_def feq_iff)
    ultimately have "?gone (l # ls)" by blast
    then show ?thesis ..
  next
    case False
    then have step: "removeFromLevels h order (l # ls) = l # removeFromLevels h order ls"
      by auto
    from False have none: "feq (lv_Price l) (o_Price order) \<longrightarrow>
        (\<forall>p \<in> set (lv_Orders l). o_OrderID (h p) \<noteq> o_OrderID order)"
      by (simp add: remove_by_id_None)
    from Cons show ?thesis
    proof
      assume "?same ls"
      with step none show ?thesis by simp
    next
      assume "?gone ls"
      then obtain ls1 m ls2 xs p ys where "ls = ls1 @ m # ls2" "lv_Orders m = xs @ p # ys"
        "o_OrderID (h p) = o_OrderID order" "lv_Price m = o_Price order"
        "removeFromLevels h order ls = ls1 @ without (xs @ ys) (o_RemainingQty order) m @ ls2" by blast
      moreover from this step have "l # ls = (l # ls1) @ m # ls2"
        "removeFromLevels h order (l # ls) = (l # ls1) @ without (xs @ ys) (o_RemainingQty order) m @ ls2"
        by simp_all
      ultimately have "?gone (l # ls)" by blast
      then show ?thesis ..
    qed
  qed
qed

lemma level_orders_append [simp]: "level_orders (ls @ ms) = level_orders ls @ level_orders ms"
  by (simp add: level_orders_def)

lemma level_orders_without [simp]: "level_orders (without ps q l) = ps"
  by (simp add: without_def)

lemma set_without: "m \<in> set (without ps q l) \<Longrightarrow>
  ps \<noteq> [] \<and> m = l\<lparr>lv_Orders := ps, lv_Total := sub64 (lv_Total l) q\<rparr>"
  by (simp add: without_def split: if_splits)

lemma without_sorted:
  "level_sorted better (ls1 @ l # ls2) \<Longrightarrow> level_sorted better (ls1 @ without ps q l @ ls2)"
  by (auto simp: level_sorted_def sorted_wrt_append without_def)

lemma remove_side_ok:
  assumes "side_ok better on_side h ls"
  shows "side_ok better on_side h (removeFromLevels h order ls)"
  using removeFromLevels_split [of h order ls]
proof (elim disjE exE conjE)
  assume "removeFromLevels h order ls = ls"
  with assms show ?thesis by simp
next
  fix ls1 l ls2 xs p ys
  assume ls: "ls = ls1 @ l # ls2" and l: "lv_Orders l = xs @ p # ys"
    and eq: "removeFromLevels h order ls = ls1 @ without (xs @ ys) (o_RemainingQty order) l @ ls2"
  from assms ls have sorted: "level_sorted better (ls1 @ l # ls2)"
    and ok: "\<forall>m \<in> set (ls1 @ l # ls2). level_ok on_side h m" by (simp_all add: side_ok_def)
  from ok l have "\<forall>m \<in> set (without (xs @ ys) (o_RemainingQty order) l). level_ok on_side h m"
    by (auto simp: level_ok_def dest!: set_without)
  with ok without_sorted [OF sorted] show ?thesis by (auto simp: eq side_ok_def)
qed

text \<open>With unique identifiers the removed order is exactly the one the caller holds.\<close>

lemma remove_orders:
  assumes "side_ok better on_side h ls" "p \<in> set (level_orders ls)"
    and "inj_on (\<lambda>q. o_OrderID (h q)) (set (level_orders ls))" "distinct (level_orders ls)"
  shows "level_orders (removeFromLevels h (h p) ls) = remove1 p (level_orders ls)"
  using removeFromLevels_split [of h "h p" ls]
proof (elim disjE exE conjE)
  assume none: "\<forall>l \<in> set ls. feq (lv_Price l) (o_Price (h p)) \<longrightarrow>
    (\<forall>q \<in> set (lv_Orders l). o_OrderID (h q) \<noteq> o_OrderID (h p))"
  from assms(2) obtain l where l: "l \<in> set ls" "p \<in> set (lv_Orders l)" by (auto simp: set_level_orders)
  with assms(1) have "feq (lv_Price l) (o_Price (h p))"
    by (auto simp: side_ok_def level_ok_def level_sorted_def feq_iff)
  with none l have False by blast
  then show ?thesis ..
next
  fix ls1 l ls2 xs p' ys
  assume ls: "ls = ls1 @ l # ls2" and l: "lv_Orders l = xs @ p' # ys"
    and ident: "o_OrderID (h p') = o_OrderID (h p)"
    and eq: "removeFromLevels h (h p) ls = ls1 @ without (xs @ ys) (o_RemainingQty (h p)) l @ ls2"
  from ls l assms(2,3) ident have "p' = p" by (auto simp: inj_on_def)
  moreover from assms(4) ls l have "p' \<notin> set (level_orders ls1 @ xs)" by auto
  ultimately show ?thesis unfolding eq by (simp add: ls l remove1_append)
qed

lemma remove_totals_ok:
  assumes "totals_ok h ls" "side_ok better on_side h ls" "p \<in> set (level_orders ls)"
    and "inj_on (\<lambda>q. o_OrderID (h q)) (set (level_orders ls))"
  shows "totals_ok h (removeFromLevels h (h p) ls)"
  using removeFromLevels_split [of h "h p" ls]
proof (elim disjE exE conjE)
  assume "removeFromLevels h (h p) ls = ls"
  with assms show ?thesis by simp
next
  fix ls1 l ls2 xs p' ys
  assume ls: "ls = ls1 @ l # ls2" and l: "lv_Orders l = xs @ p' # ys"
    and ident: "o_OrderID (h p') = o_OrderID (h p)"
    and eq: "removeFromLevels h (h p) ls = ls1 @ without (xs @ ys) (o_RemainingQty (h p)) l @ ls2"
  let ?r = "\<lambda>q. o_RemainingQty (h q)"
  from ls l assms(3,4) ident have "p' = p" by (auto simp: inj_on_def)
  with assms(1) ls l have "lv_Total l = wrap64 ((\<Sum>q\<leftarrow>xs @ ys. ?r q) + ?r p)"
    by (simp add: totals_ok_def ac_simps)
  then have "sub64 (lv_Total l) (?r p) = wrap64 (\<Sum>q\<leftarrow>xs @ ys. ?r q)"
    using wrap64_add_left [of "(\<Sum>q\<leftarrow>xs @ ys. ?r q) + ?r p" "- ?r p"] by (simp add: sub64_def)
  moreover from assms(1) ls have "totals_ok h ls1" "totals_ok h ls2" by (auto simp: totals_ok_def)
  ultimately show ?thesis
    unfolding eq totals_ok_def by (fastforce dest: set_without)
qed

section \<open>The book's invariant\<close>

abbreviation resting :: "OrderBook \<Rightarrow> addr list" where
  "resting ob \<equiv> level_orders (ob_bids ob) @ level_orders (ob_asks ob)"

text \<open>
  Both sides are sorted and consistent with the heap, no order appears twice, and the
  identifier map lists exactly the resting orders.
\<close>

definition book_inv :: "heap \<Rightarrow> OrderBook \<Rightarrow> bool" where
  "book_inv h ob \<longleftrightarrow>
     side_ok better_bid is_buy h (ob_bids ob) \<and>
     side_ok flt (\<lambda>x. \<not> is_buy x) h (ob_asks ob) \<and>
     distinct (resting ob) \<and>
     (\<forall>oid p. ob_orders ob oid = Some p \<longleftrightarrow> p \<in> set (resting ob) \<and> o_OrderID (h p) = oid)"

lemma book_invD:
  assumes "book_inv h ob"
  shows "side_ok better_bid is_buy h (ob_bids ob)"
    and "side_ok flt (\<lambda>x. \<not> is_buy x) h (ob_asks ob)"
    and "distinct (resting ob)"
    and "ob_orders ob oid = Some p \<longleftrightarrow> p \<in> set (resting ob) \<and> o_OrderID (h p) = oid"
  using assms by (simp_all only: book_inv_def)

lemma book_inv_ids: "book_inv h ob \<Longrightarrow> inj_on (\<lambda>p. o_OrderID (h p)) (set (resting ob))"
  by (rule inj_onI) (metis book_invD(4) option.inject)

lemma side_ok_orders: "side_ok better on_side h ls \<Longrightarrow> p \<in> set (level_orders ls) \<Longrightarrow> on_side (h p)"
  by (auto simp: side_ok_def level_ok_def set_level_orders)

text \<open>The invariant reads only four fields of the orders in the book.\<close>

definition same_key :: "Order \<Rightarrow> Order \<Rightarrow> bool" where
  "same_key x y \<longleftrightarrow> o_OrderID x = o_OrderID y \<and> o_Price x = o_Price y \<and> o_Side x = o_Side y \<and>
     o_OrderType x = o_OrderType y"

lemma same_key_refl [simp]: "same_key x x"
  by (simp add: same_key_def)

lemma same_key_trans: "same_key x y \<Longrightarrow> same_key y z \<Longrightarrow> same_key x z"
  by (simp add: same_key_def)

lemma same_key_UpdateStatus [simp]: "same_key (UpdateStatus now s m x) x" "same_key x (UpdateStatus now s m x)"
  by (simp_all add: same_key_def)

lemma same_key_Fill [simp]: "same_key (Fill now q pr x) x" "same_key x (Fill now q pr x)"
  by (simp_all add: same_key_def)

lemma side_ok_cong:
  assumes "side_ok better on_side h ls" "\<And>p. p \<in> set (level_orders ls) \<Longrightarrow> same_key (h p) (h' p)"
    and "\<And>x y. same_key x y \<Longrightarrow> on_side x = on_side y"
  shows "side_ok better on_side h' ls"
proof -
  have "level_ok on_side h' l" if "l \<in> set ls" for l
  proof -
    from that assms(1) have l: "level_ok on_side h l" by (simp add: side_ok_def)
    have "same_key (h p) (h' p)" if "p \<in> set (lv_Orders l)" for p
      using that \<open>l \<in> set ls\<close> by (intro assms(2)) (auto simp: set_level_orders)
    with l assms(3) show ?thesis unfolding level_ok_def by (metis same_key_def)
  qed
  with assms(1) show ?thesis by (simp add: side_ok_def)
qed

lemma book_inv_cong:
  assumes "book_inv h ob" "\<And>p. p \<in> set (resting ob) \<Longrightarrow> same_key (h p) (h' p)"
  shows "book_inv h' ob"
  unfolding book_inv_def
proof (intro conjI allI)
  show "side_ok better_bid is_buy h' (ob_bids ob)"
    by (rule side_ok_cong [OF book_invD(1) [OF assms(1)]]) (use assms(2) in \<open>auto simp: same_key_def\<close>)
  show "side_ok flt (\<lambda>x. \<not> is_buy x) h' (ob_asks ob)"
    by (rule side_ok_cong [OF book_invD(2) [OF assms(1)]]) (use assms(2) in \<open>auto simp: same_key_def\<close>)
  show "distinct (resting ob)" using assms(1) by (rule book_invD)
  fix oid p
  show "ob_orders ob oid = Some p \<longleftrightarrow> p \<in> set (resting ob) \<and> o_OrderID (h' p) = oid"
    using book_invD(4) [OF assms(1), of oid p] assms(2) [of p] by (auto simp: same_key_def)
qed

lemma send_event_simps [simp]:
  "ob_bids (send_event now ty p ob) = ob_bids ob"
  "ob_asks (send_event now ty p ob) = ob_asks ob"
  "ob_orders (send_event now ty p ob) = ob_orders ob"
  "ob_Symbol (send_event now ty p ob) = ob_Symbol ob"
  "ob_Exchange (send_event now ty p ob) = ob_Exchange ob"
  "ob_EventCh (send_event now ty p ob) =
     ob_EventCh ob @ [\<lparr>ev_Type = ty, ev_Order = p, ev_Timestamp = now\<rparr>]"
  by (simp_all add: send_event_def)

lemma book_inv_NewOrderBook: "book_inv h (NewOrderBook symbol exch)"
  by (simp add: book_inv_def NewOrderBook_def side_ok_def)

section \<open>Add and Cancel\<close>

lemma ob_Add_exists:
  "ob_orders ob (o_OrderID (h p)) \<noteq> None \<Longrightarrow>
   ob_Add now p (h, ob) = ((h, ob), Some (OrderExists (o_OrderID (h p))))"
  by (simp add: ob_Add_def)

lemma ob_Add_fresh:
  assumes "ob_orders ob (o_OrderID (h p)) = None"
  shows "ob_Add now p (h, ob) =
    (let x = UpdateStatus now StatusOpen ''Order placed on book'' (h p) in
     ((h(p := x),
       send_event now EventNewOrder p
         (ob\<lparr>ob_orders := (ob_orders ob)(o_OrderID (h p) \<mapsto> p),
             ob_bids := (if is_buy x then addToBids p (o_Price x) (o_RemainingQty x) (ob_bids ob) else ob_bids ob),
             ob_asks := (if is_buy x then ob_asks ob else addToAsks p (o_Price x) (o_RemainingQty x) (ob_asks ob))\<rparr>)),
      None))"
  using assms by (simp add: ob_Add_def Let_def)

lemma book_inv_Add:
  assumes inv: "book_inv h ob" and new: "p \<notin> set (resting ob)" and num: "o_Price (h p) \<noteq> NaN"
  shows "book_inv (fst (fst (ob_Add now p (h, ob)))) (snd (fst (ob_Add now p (h, ob))))"
proof (cases "ob_orders ob (o_OrderID (h p))")
  case (Some q)
  with inv show ?thesis by (simp add: ob_Add_exists)
next
  case None
  let ?x = "UpdateStatus now StatusOpen ''Order placed on book'' (h p)"
  let ?h = "h(p := ?x)"
  have inv': "book_inv ?h ob"
    using inv by (rule book_inv_cong) simp
  note sides = book_invD(1,2) [OF inv']
  have "side_ok better_bid is_buy ?h (addToBids p (o_Price ?x) q (ob_bids ob))" if "is_buy ?x" for q
    using that num by (intro bids.add_side_ok sides) auto
  moreover have "side_ok flt (\<lambda>x. \<not> is_buy x) ?h (addToAsks p (o_Price ?x) q (ob_asks ob))"
    if "\<not> is_buy ?x" for q
    using that num by (intro asks.add_side_ok sides) auto
  moreover have "o_OrderID (h q) \<noteq> o_OrderID (h p)" if "q \<in> set (resting ob)" for q
    using that None book_invD(4) [OF inv, of "o_OrderID (h p)" q] by auto
  ultimately show ?thesis
    using None new sides book_invD(3,4) [OF inv']
    by (auto simp: ob_Add_fresh Let_def book_inv_def bids.set_add asks.set_add
        bids.distinct_add asks.distinct_add split: if_splits)
qed

lemma ob_Cancel_fail:
  "ob_orders ob oid = None \<Longrightarrow> ob_Cancel now oid (h, ob) = ((h, ob), Some (OrderNotFound oid))"
  "ob_orders ob oid = Some p \<Longrightarrow> \<not> IsActive (h p) \<Longrightarrow>
   ob_Cancel now oid (h, ob) = ((h, ob), Some (OrderNotActive oid (o_Status (h p))))"
  by (simp_all add: ob_Cancel_def)

lemma ob_Cancel_ok:
  assumes "ob_orders ob oid = Some p" "IsActive (h p)"
  shows "ob_Cancel now oid (h, ob) =
    ((h(p := UpdateStatus now StatusCancelled ''Cancelled by user'' (h p)),
      send_event now EventCancelOrder p
        (ob\<lparr>ob_orders := (ob_orders ob)(oid := None),
            ob_bids := (if is_buy (h p) then removeFromLevels h (h p) (ob_bids ob) else ob_bids ob),
            ob_asks := (if is_buy (h p) then ob_asks ob else removeFromLevels h (h p) (ob_asks ob))\<rparr>)),
     None)"
  using assms by (simp add: ob_Cancel_def Let_def)

text \<open>Where a resting order rests, and what removing it leaves.\<close>

lemma book_inv_side:
  assumes "book_inv h ob" "p \<in> set (resting ob)"
  shows "is_buy (h p) \<longleftrightarrow> p \<in> set (level_orders (ob_bids ob))"
  using assms side_ok_orders [OF book_invD(1) [OF assms(1)], of p]
    side_ok_orders [OF book_invD(2) [OF assms(1)], of p] by auto

lemma book_inv_remove:
  assumes inv: "book_inv h ob" and p: "p \<in> set (resting ob)"
  shows "is_buy (h p) \<Longrightarrow>
      level_orders (removeFromLevels h (h p) (ob_bids ob)) = remove1 p (level_orders (ob_bids ob))"
    and "\<not> is_buy (h p) \<Longrightarrow>
      level_orders (removeFromLevels h (h p) (ob_asks ob)) = remove1 p (level_orders (ob_asks ob))"
proof -
  have ids: "inj_on (\<lambda>p. o_OrderID (h p)) (set (resting ob))" and dist: "distinct (resting ob)"
    using inv by (rule book_inv_ids, rule book_invD)
  show "level_orders (removeFromLevels h (h p) (ob_bids ob)) = remove1 p (level_orders (ob_bids ob))"
    if "is_buy (h p)"
    using that dist ids book_inv_side [OF inv p]
    by (intro remove_orders [OF book_invD(1) [OF inv]]) (auto simp: inj_on_def)
  show "level_orders (removeFromLevels h (h p) (ob_asks ob)) = remove1 p (level_orders (ob_asks ob))"
    if "\<not> is_buy (h p)"
    using that dist ids book_inv_side [OF inv p] p
    by (intro remove_orders [OF book_invD(2) [OF inv]]) (auto simp: inj_on_def)
qed

lemma book_inv_Cancel:
  assumes inv: "book_inv h ob"
  shows "book_inv (fst (fst (ob_Cancel now oid (h, ob)))) (snd (fst (ob_Cancel now oid (h, ob))))"
proof (cases "ob_orders ob oid")
  case None
  with inv show ?thesis by (simp add: ob_Cancel_fail)
next
  case (Some p)
  show ?thesis
  proof (cases "IsActive (h p)")
    case False
    with Some inv show ?thesis by (simp add: ob_Cancel_fail)
  next
    case True
    from Some book_invD(4) [OF inv] have p: "p \<in> set (resting ob)" "o_OrderID (h p) = oid" by auto
    define h' where "h' = h(p := UpdateStatus now StatusCancelled ''Cancelled by user'' (h p))"
    define b where "b = (if is_buy (h p) then removeFromLevels h (h p) (ob_bids ob) else ob_bids ob)"
    define a where "a = (if is_buy (h p) then ob_asks ob else removeFromLevels h (h p) (ob_asks ob))"
    have key: "same_key (h q) (h' q)" for q by (simp add: h'_def)
    have "level_orders b = remove1 p (level_orders (ob_bids ob))"
      "level_orders a = remove1 p (level_orders (ob_asks ob))"
      using book_inv_remove [OF inv p(1)] book_inv_side [OF inv p(1)] book_invD(3) [OF inv]
      by (simp_all add: b_def a_def remove1_idem disjoint_iff)
    then have rest: "level_orders b @ level_orders a = removeAll p (resting ob)"
      using book_invD(3) [OF inv] by (simp add: distinct_remove1_removeAll)
    have sides: "side_ok better_bid is_buy h b" "side_ok flt (\<lambda>x. \<not> is_buy x) h a"
      using book_invD(1,2) [OF inv] by (simp_all add: b_def a_def remove_side_ok)
    have "side_ok better_bid is_buy h' b"
      by (rule side_ok_cong [OF sides(1)]) (rule key, simp add: same_key_def)
    moreover have "side_ok flt (\<lambda>x. \<not> is_buy x) h' a"
      by (rule side_ok_cong [OF sides(2)]) (rule key, simp add: same_key_def)
    moreover have "distinct (level_orders b @ level_orders a)"
      unfolding rest using book_invD(3) [OF inv] by (auto simp: distinct_removeAll)
    moreover have "((ob_orders ob)(oid := None)) i = Some q \<longleftrightarrow>
        q \<in> set (level_orders b @ level_orders a) \<and> o_OrderID (h' q) = i" for i q
    proof -
      have "o_OrderID (h' q) = o_OrderID (h q)" using key [of q] by (simp add: same_key_def)
      moreover have "set (level_orders b @ level_orders a) = set (resting ob) - {p}"
        by (simp only: rest set_removeAll)
      moreover have "ob_orders ob oid = Some q \<longleftrightarrow> q = p" using Some by auto
      ultimately show ?thesis
        using book_invD(4) [OF inv, of i q] book_invD(4) [OF inv, of oid q] p(2)
        by (cases "i = oid") auto
    qed
    ultimately show ?thesis
      using Some True by (simp add: ob_Cancel_ok book_inv_def b_def a_def h'_def)
  qed
qed

section \<open>Cancelling what was just added\<close>

lemma remove_by_id_snoc:
  "\<forall>x \<in> set xs. o_OrderID (h x) \<noteq> oid \<Longrightarrow> o_OrderID (h p) = oid \<Longrightarrow>
   remove_by_id h oid (xs @ [p]) = Some xs"
  by (induction xs) auto

lemma sub64_add64: "in64 x \<Longrightarrow> sub64 (add64 x y) y = x"
  using wrap64_add_left [of "x + y" "- y"] by (simp add: sub64_def add64_def wrap64_id)

context book_side
begin

lemma remove_add:
  assumes "side_ok better on_side h ls" "o_Price x \<noteq> NaN"
    and "\<forall>l \<in> set ls. in64 (lv_Total l)"
    and "\<forall>y \<in> set (level_orders ls). o_OrderID (h y) \<noteq> o_OrderID x" "o_OrderID (h p) = o_OrderID x"
  shows "removeFromLevels h x (add p (o_Price x) (o_RemainingQty x) ls) = ls"
  using assms
proof (induction ls)
  case Nil
  then show ?case by (simp add: add_Nil feq_iff)
next
  case (Cons l ls)
  then have "lv_Orders l \<noteq> []" by (simp add: side_ok_Cons level_ok_def)
  with Cons show ?case
    by (auto simp: add_Cons feq_iff side_ok_Cons remove_by_id_snoc sub64_add64)
qed

end

lemma depth_from_take: "depth_from i n ls = take (nat (n - i)) ls"
proof (induction ls arbitrary: i)
  case (Cons l ls)
  show ?case
  proof (cases "n \<le> i")
    case False
    then have "nat (n - i) = Suc (nat (n - (i + 1)))" by simp
    with False Cons show ?thesis by simp
  qed simp
qed simp

lemma best_ask_head:
  "side_ok flt on_side h (l # ls) \<Longrightarrow> \<forall>p \<in> set (level_orders (l # ls)). fle (lv_Price l) (o_Price (h p))"
  by (fastforce simp: side_ok_def level_sorted_Cons level_ok_def set_level_orders flt_iff fle_iff)

lemma best_bid_head:
  "side_ok better_bid on_side h (l # ls) \<Longrightarrow> \<forall>p \<in> set (level_orders (l # ls)). fle (o_Price (h p)) (lv_Price l)"
  by (fastforce simp: side_ok_def level_sorted_Cons level_ok_def set_level_orders flt_iff fle_iff)

lemma totals_ok_status:
  "totals_ok (h(p := UpdateStatus now s m (h p))) ls \<longleftrightarrow> totals_ok h ls"
proof -
  have "(\<Sum>q\<leftarrow>qs. o_RemainingQty ((h(p := UpdateStatus now s m (h p))) q)) = (\<Sum>q\<leftarrow>qs. o_RemainingQty (h q))" for qs
    by (rule arg_cong [of _ _ sum_list]) simp
  then show ?thesis by (simp only: totals_ok_def)
qed

end
