(* ===== verification/Matching.thy ===== *)
theory Matching
  imports Order_Book
begin

text \<open>
  The matching engine of \<^verbatim>\<open>internal/matching/engine.go\<close>. One iteration of \<^verbatim>\<open>matchLoop\<close> takes an
  event from the book's channel and, for a new order, walks the opposite side of the book under
  the engine's mutex. The engine's own state is the trade counter, the running flag and the
  buffered trade channel; the orders it fills are the heap objects the book's levels point to.
  Trade identifiers are numbered by the counter. Logging is not modelled.
\<close>

section \<open>State\<close>

record MEngine =
  e_TradeCh :: "Trade list"
  e_tradeCounter :: int
  e_running :: bool
  e_stopped :: bool

definition trade_cap :: nat where
  "trade_cap = 10000"

definition NewMEngine :: MEngine where
  "NewMEngine = \<lparr>e_TradeCh = [], e_tradeCounter = 0, e_running = False, e_stopped = False\<rparr>"

definition engine_Start :: "MEngine \<Rightarrow> MEngine" where
  "engine_Start e = e\<lparr>e_running := True\<rparr>"

text \<open>\<open>e_stopped\<close> says that \<^verbatim>\<open>stopCh\<close> is closed; closing it twice panics (\<open>None\<close>).\<close>

definition engine_Stop :: "MEngine \<Rightarrow> MEngine option" where
  "engine_Stop e = (if e_stopped e then None else Some (e\<lparr>e_stopped := True, e_running := False\<rparr>))"

section \<open>Operations\<close>

definition min64 :: "int \<Rightarrow> int \<Rightarrow> int" where
  "min64 a b = (if a < b then a else b)"

definition createTrade :: "instant \<Rightarrow> OrderBook \<Rightarrow> Order \<Rightarrow> Order \<Rightarrow> int \<Rightarrow> f64 \<Rightarrow> MEngine \<Rightarrow> MEngine \<times> Trade" where
  "createTrade now ob order1 order2 qty price e =
     (let e1 = e\<lparr>e_tradeCounter := add64 (e_tradeCounter e) 1\<rparr>;
          (buyOrder, sellOrder) = (if o_Side order1 = Sell then (order2, order1) else (order1, order2))
      in (e1,
          \<lparr>t_TradeID = ''TRD-'' @ ob_Symbol ob @ ''-'' @ show_int (e_tradeCounter e1),
           t_BuyOrderID = o_OrderID buyOrder, t_SellOrderID = o_OrderID sellOrder,
           t_Symbol = ob_Symbol ob, t_Exchange = ob_Exchange ob, t_Quantity = qty, t_Price = price,
           t_Timestamp = now, t_BuyerID = o_ClientID buyOrder, t_SellerID = o_ClientID sellOrder\<rparr>))"

text \<open>The body of the loop in \<^verbatim>\<open>fillAgainstLevel\<close> for an active resting order.\<close>

definition fill_one :: "instant \<Rightarrow> OrderBook \<Rightarrow> addr \<Rightarrow> f64 \<Rightarrow> addr \<Rightarrow> heap \<times> MEngine \<Rightarrow> heap \<times> MEngine" where
  "fill_one now ob inc level_price r st =
     (let (h, e) = st;
          fillQty = min64 (o_RemainingQty (h inc)) (o_RemainingQty (h r));
          tradePrice = (if o_OrderType (h r) = Market then level_price else o_Price (h r));
          (e1, trade) = createTrade now ob (h inc) (h r) fillQty tradePrice e;
          h1 = h(inc := Fill now fillQty tradePrice (h inc));
          h2 = h1(r := Fill now fillQty tradePrice (h1 r))
      in (h2, e1\<lparr>e_TradeCh := try_send trade_cap trade (e_TradeCh e1)\<rparr>))"

fun fillAgainstLevel :: "instant \<Rightarrow> OrderBook \<Rightarrow> addr \<Rightarrow> f64 \<Rightarrow> addr list \<Rightarrow> heap \<times> MEngine \<Rightarrow> heap \<times> MEngine" where
  "fillAgainstLevel now ob inc level_price [] st = st"
| "fillAgainstLevel now ob inc level_price (r # rs) st =
     (if \<not> IsActive (fst st r) then fillAgainstLevel now ob inc level_price rs st
      else if o_RemainingQty (fst st inc) = 0 then st
      else fillAgainstLevel now ob inc level_price rs (fill_one now ob inc level_price r st))"

text \<open>
  The loops over the levels. \<open>stop\<close> compares the level's price with the incoming order's: for a
  limit buy the loop breaks at a level priced above it, for a limit sell at one priced below,
  and a market order has no such test.
\<close>

fun match_levels :: "(f64 \<Rightarrow> f64 \<Rightarrow> bool) \<Rightarrow> instant \<Rightarrow> OrderBook \<Rightarrow> addr \<Rightarrow> PriceLevel list \<Rightarrow>
    heap \<times> MEngine \<Rightarrow> heap \<times> MEngine" where
  "match_levels stop now ob inc [] st = st"
| "match_levels stop now ob inc (level # ls) st =
     (if stop (lv_Price level) (o_Price (fst st inc)) then st
      else if o_RemainingQty (fst st inc) = 0 then st
      else match_levels stop now ob inc ls
             (fillAgainstLevel now ob inc (lv_Price level) (lv_Orders level) st))"

definition above :: "f64 \<Rightarrow> f64 \<Rightarrow> bool" where
  "above level_price price \<longleftrightarrow> flt price level_price"

definition below :: "f64 \<Rightarrow> f64 \<Rightarrow> bool" where
  "below level_price price \<longleftrightarrow> flt level_price price"

definition never :: "f64 \<Rightarrow> f64 \<Rightarrow> bool" where
  "never level_price price \<longleftrightarrow> False"

definition matchLimitOrder :: "instant \<Rightarrow> OrderBook \<Rightarrow> addr \<Rightarrow> heap \<times> MEngine \<Rightarrow> heap \<times> MEngine" where
  "matchLimitOrder now ob inc st =
     (if o_Side (fst st inc) = Buy then match_levels above now ob inc (AskLevels ob) st
      else match_levels below now ob inc (BidLevels ob) st)"

definition matchMarketOrder :: "instant \<Rightarrow> OrderBook \<Rightarrow> addr \<Rightarrow> heap \<times> MEngine \<Rightarrow> heap \<times> MEngine" where
  "matchMarketOrder now ob inc st =
     (let (h, e) = (if o_Side (fst st inc) = Buy then match_levels never now ob inc (AskLevels ob) st
                    else match_levels never now ob inc (BidLevels ob) st)
      in if 0 < o_RemainingQty (h inc) \<and> o_Status (h inc) \<noteq> StatusFilled
         then (h(inc := UpdateStatus now StatusRejected
                          ''No liquidity available for market order'' (h inc)), e)
         else (h, e))"

definition engine_match :: "instant \<Rightarrow> OrderBook \<Rightarrow> addr \<Rightarrow> heap \<times> MEngine \<Rightarrow> heap \<times> MEngine" where
  "engine_match now ob inc st =
     (if o_OrderType (fst st inc) = Market then matchMarketOrder now ob inc st
      else matchLimitOrder now ob inc st)"

text \<open>
  One iteration of \<^verbatim>\<open>matchLoop\<close> that receives the oldest event; on an empty channel the loop waits.
  The other arm of the \<^verbatim>\<open>select\<close>, which ends the loop once \<^verbatim>\<open>stopCh\<close> is closed, changes no state.
\<close>

definition matchLoop_step :: "instant \<Rightarrow> heap \<times> OrderBook \<times> MEngine \<Rightarrow> heap \<times> OrderBook \<times> MEngine" where
  "matchLoop_step now st =
     (let (h, ob, e) = st in
      case ob_EventCh ob of
        [] \<Rightarrow> st
      | ev # evs \<Rightarrow>
          let ob1 = ob\<lparr>ob_EventCh := evs\<rparr> in
          if ev_Type ev = EventNewOrder
          then let (h1, e1) = engine_match now ob1 (ev_Order ev) (h, e) in (h1, ob1, e1)
          else (h, ob1, e))"

section \<open>Reference: greedy allocation in priority order\<close>

text \<open>
  The abstract matching rule: walk the resting quantities in priority order and give each as
  much as is left.
\<close>

fun alloc :: "int \<Rightarrow> (addr \<times> int) list \<Rightarrow> (addr \<times> int) list" where
  "alloc n [] = []"
| "alloc n ((r, q) # xs) = (if n = 0 then [] else (r, min n q) # alloc (n - min n q) xs)"

text \<open>The active orders at prices the incoming order accepts, best price and oldest first.\<close>

definition eligible :: "heap \<Rightarrow> (f64 \<Rightarrow> bool) \<Rightarrow> PriceLevel list \<Rightarrow> (addr \<times> int) list" where
  "eligible h accepts ls =
     map (\<lambda>r. (r, o_RemainingQty (h r)))
       (filter (\<lambda>r. IsActive (h r)) (level_orders (takeWhile (\<lambda>l. accepts (lv_Price l)) ls)))"

text \<open>Carrying out a list of fills, each at the resting order's own price.\<close>

definition fill_with :: "instant \<Rightarrow> OrderBook \<Rightarrow> addr \<Rightarrow> addr \<times> int \<Rightarrow> heap \<times> MEngine \<Rightarrow> heap \<times> MEngine" where
  "fill_with now ob inc f st =
     (let (r, q) = f; (h, e) = st;
          (e1, trade) = createTrade now ob (h inc) (h r) q (o_Price (h r)) e;
          h1 = h(inc := Fill now q (o_Price (h r)) (h inc))
      in (h1(r := Fill now q (o_Price (h r)) (h1 r)),
          e1\<lparr>e_TradeCh := try_send trade_cap trade (e_TradeCh e1)\<rparr>))"

definition apply_fills :: "instant \<Rightarrow> OrderBook \<Rightarrow> addr \<Rightarrow> (addr \<times> int) list \<Rightarrow> heap \<times> MEngine \<Rightarrow> heap \<times> MEngine" where
  "apply_fills now ob inc fs st = fold (fill_with now ob inc) fs st"

section \<open>Allocation\<close>

abbreviation filled :: "(addr \<times> int) list \<Rightarrow> int" where
  "filled fs \<equiv> sum_list (map snd fs)"

lemma alloc_zero [simp]: "alloc 0 xs = []"
  by (cases xs) auto

lemma alloc_append: "alloc n (xs @ ys) = alloc n xs @ alloc (n - filled (alloc n xs)) ys"
  by (induction n xs rule: alloc.induct) (auto simp: diff_diff_eq)

lemma alloc_bounds:
  assumes "0 \<le> n" "\<forall>x \<in> set xs. 0 < snd x"
  shows "0 \<le> filled (alloc n xs)" and "filled (alloc n xs) \<le> n"
    and "\<forall>x \<in> set (alloc n xs). 0 < snd x"
  using assms by (induction n xs rule: alloc.induct) (auto simp: min_def)

lemma alloc_fst: "set (map fst (alloc n xs)) \<subseteq> set (map fst xs)"
  by (induction n xs rule: alloc.induct) auto

lemma alloc_distinct: "distinct (map fst xs) \<Longrightarrow> distinct (map fst (alloc n xs))"
proof (induction n xs rule: alloc.induct)
  case (2 n r q xs)
  have "r \<notin> set (map fst (alloc (n - min n q) xs))"
    using 2(2) alloc_fst [of "n - min n q" xs] by auto
  with 2 show ?case by simp
qed simp

lemma alloc_le:
  "distinct (map fst xs) \<Longrightarrow> (r, q) \<in> set (alloc n xs) \<Longrightarrow> (r, m) \<in> set xs \<Longrightarrow> q \<le> m"
proof (induction n xs rule: alloc.induct)
  case (2 n r' q' xs)
  have "(r, q) \<in> set (alloc k xs) \<Longrightarrow> r \<in> fst ` set xs" for k
    using alloc_fst [of k xs] by (force simp: image_iff)
  moreover have "(r, m) \<in> set xs \<Longrightarrow> r \<in> fst ` set xs" by force
  ultimately show ?case using 2 by (auto split: if_splits)
qed simp

text \<open>Either the incoming quantity is exhausted or every offered quantity is taken whole.\<close>

lemma alloc_exhausts:
  assumes "0 \<le> n" "\<forall>x \<in> set xs. 0 < snd x" "filled (alloc n xs) < n"
  shows "alloc n xs = xs"
  using assms
proof (induction n xs rule: alloc.induct)
  case (2 n r q xs)
  then have "q < n" using alloc_bounds(1) [of "n - min n q" xs] by (auto simp: min_def split: if_splits)
  with 2 show ?case by (auto simp: min_def split: if_splits)
qed simp

text \<open>A quantity is touched only after everything ahead of it has been taken whole.\<close>

lemma alloc_priority:
  assumes "0 \<le> n" "\<forall>x \<in> set (xs @ y # ys). 0 < snd x" "fst y \<in> fst ` set (alloc n (xs @ y # ys))"
    and "distinct (map fst (xs @ y # ys))"
  shows "\<exists>zs. alloc n (xs @ y # ys) = xs @ zs"
proof (cases "filled (alloc n xs) < n")
  case True
  with assms have "alloc n xs = xs" by (intro alloc_exhausts) auto
  then show ?thesis by (metis alloc_append)
next
  case False
  with assms(1,2) alloc_bounds(2) [of n xs] have "filled (alloc n xs) = n" by auto
  then have eq: "alloc n (xs @ y # ys) = alloc n xs" by (subst alloc_append) simp
  have "fst ` set (alloc n xs) \<subseteq> fst ` set xs" using alloc_fst [of n xs] by simp
  with assms(3,4) eq have False by auto
  then show ?thesis ..
qed

section \<open>Carrying out fills\<close>

lemma createTrade_simps [simp]:
  "e_TradeCh (fst (createTrade now ob x y q pr e)) = e_TradeCh e"
  "e_running (fst (createTrade now ob x y q pr e)) = e_running e"
  "e_tradeCounter (fst (createTrade now ob x y q pr e)) = add64 (e_tradeCounter e) 1"
  "t_Quantity (snd (createTrade now ob x y q pr e)) = q"
  "t_Price (snd (createTrade now ob x y q pr e)) = pr"
  "t_TradeID (snd (createTrade now ob x y q pr e)) =
     ''TRD-'' @ ob_Symbol ob @ ''-'' @ show_int (add64 (e_tradeCounter e) 1)"
  by (simp_all add: createTrade_def Let_def)

lemma fill_with_heap:
  "r \<noteq> inc \<Longrightarrow> fst (fill_with now ob inc (r, q) (h, e)) =
     h(inc := Fill now q (o_Price (h r)) (h inc), r := Fill now q (o_Price (h r)) (h r))"
  by (simp add: fill_with_def Let_def split: prod.split)

lemma apply_fills_Nil [simp]: "apply_fills now ob inc [] st = st"
  by (simp add: apply_fills_def)

lemma apply_fills_Cons [simp]:
  "apply_fills now ob inc (f # fs) st = apply_fills now ob inc fs (fill_with now ob inc f st)"
  by (simp add: apply_fills_def)

lemma apply_fills_append:
  "apply_fills now ob inc (fs @ gs) st = apply_fills now ob inc gs (apply_fills now ob inc fs st)"
  by (simp add: apply_fills_def)

text \<open>The fills an order receives one after the other.\<close>

definition fill_all :: "instant \<Rightarrow> heap \<Rightarrow> (addr \<times> int) list \<Rightarrow> Order \<Rightarrow> Order" where
  "fill_all now h fs x = fold (\<lambda>(r, q). Fill now q (o_Price (h r))) fs x"

lemma fill_all_cong:
  "(\<And>r. r \<in> fst ` set fs \<Longrightarrow> o_Price (h r) = o_Price (h' r)) \<Longrightarrow>
   fill_all now h fs x = fill_all now h' fs x"
  unfolding fill_all_def by (rule fold_cong) force+

lemma fill_all_Cons [simp]:
  "fill_all now h ((r, q) # fs) x = fill_all now h fs (Fill now q (o_Price (h r)) x)"
  by (simp add: fill_all_def)

lemma fill_all_Nil [simp]: "fill_all now h [] x = x"
  by (simp add: fill_all_def)

lemma fill_all_key [simp]: "same_key x (fill_all now h fs x)"
proof (induction fs arbitrary: x)
  case (Cons f fs)
  show ?case
    by (cases f) (use Cons [of "Fill now (snd f) (o_Price (h (fst f))) x"] in
      \<open>auto simp: same_key_def\<close>)
qed simp

lemma fill_all_frame [simp]:
  "o_Price (fill_all now h fs x) = o_Price x" "o_Side (fill_all now h fs x) = o_Side x"
  "o_OrderType (fill_all now h fs x) = o_OrderType x" "o_OrderID (fill_all now h fs x) = o_OrderID x"
  using fill_all_key [of x now h fs] by (simp_all add: same_key_def)

lemma fill_all_qty:
  assumes "qty_ok x" "\<forall>f \<in> set fs. 0 < snd f" "filled fs \<le> o_RemainingQty x"
  shows "qty_ok (fill_all now h fs x)"
    and "o_RemainingQty (fill_all now h fs x) = o_RemainingQty x - filled fs"
    and "o_FilledQty (fill_all now h fs x) = o_FilledQty x + filled fs"
    and "fs \<noteq> [] \<Longrightarrow> o_Status (fill_all now h fs x) =
      (if filled fs = o_RemainingQty x then StatusFilled else StatusPartiallyFilled)"
proof -
  have "qty_ok (fill_all now h fs x) \<and>
    o_RemainingQty (fill_all now h fs x) = o_RemainingQty x - filled fs \<and>
    o_FilledQty (fill_all now h fs x) = o_FilledQty x + filled fs \<and>
    (fs \<noteq> [] \<longrightarrow> o_Status (fill_all now h fs x) =
      (if filled fs = o_RemainingQty x then StatusFilled else StatusPartiallyFilled))"
    using assms
  proof (induction fs arbitrary: x)
    case (Cons f fs)
    obtain r q where f: "f = (r, q)" by fastforce
    have "0 \<le> filled fs" using Cons.prems(2) by (intro sum_list_nonneg) auto
    with Cons.prems f have q: "0 \<le> q" "q \<le> o_RemainingQty x" by auto
    let ?x = "Fill now q (o_Price (h r)) x"
    note F = Fill_remaining [OF Cons.prems(1) q] Fill_filled [OF Cons.prems(1) q]
    have "qty_ok ?x" using Cons.prems(1) q by (rule qty_ok_Fill)
    moreover have "filled fs \<le> o_RemainingQty ?x" using Cons.prems(3) f by (simp add: F)
    ultimately show ?case
      using Cons.IH [of ?x] Cons.prems(2) f by (cases "fs = []") (auto simp: F Fill_status)
  qed simp
  then show "qty_ok (fill_all now h fs x)"
    "o_RemainingQty (fill_all now h fs x) = o_RemainingQty x - filled fs"
    "o_FilledQty (fill_all now h fs x) = o_FilledQty x + filled fs"
    "fs \<noteq> [] \<Longrightarrow> o_Status (fill_all now h fs x) =
      (if filled fs = o_RemainingQty x then StatusFilled else StatusPartiallyFilled)"
    by blast+
qed

text \<open>The heap after a list of fills against distinct resting orders.\<close>

lemma apply_fills_heap:
  assumes "distinct (map fst fs)" "inc \<notin> fst ` set fs"
  shows "fst (apply_fills now ob inc fs (h, e)) =
    (\<lambda>p. if p = inc then fill_all now h fs (h inc)
         else case map_of fs p of None \<Rightarrow> h p | Some q \<Rightarrow> Fill now q (o_Price (h p)) (h p))"
  using assms
proof (induction fs arbitrary: h e)
  case Nil
  then show ?case by auto
next
  case (Cons f fs)
  obtain r q where f: "f = (r, q)" by fastforce
  with Cons.prems have r: "r \<noteq> inc" "r \<notin> fst ` set fs" by auto
  obtain h1 e1 where st: "fill_with now ob inc (r, q) (h, e) = (h1, e1)" by fastforce
  have h1: "h1 = h(inc := Fill now q (o_Price (h r)) (h inc), r := Fill now q (o_Price (h r)) (h r))"
    using fill_with_heap [OF r(1), of now ob q h e] st by simp
  have "map_of fs r = None" using r(2) by (simp add: map_of_eq_None_iff)
  moreover have "fill_all now h1 fs x = fill_all now h fs x" for x
    using r by (intro fill_all_cong) (auto simp: h1)
  ultimately show ?case
    using Cons r f st by (auto simp: h1 fun_eq_iff split: option.split)
qed

section \<open>The loops implement the greedy allocation\<close>

text \<open>Orders the engine may meet: sound quantities, and something left while active.\<close>

definition ord_ok :: "Order \<Rightarrow> bool" where
  "ord_ok x \<longleftrightarrow> qty_ok x \<and> (IsActive x \<longrightarrow> 0 < o_RemainingQty x)"

definition offers :: "heap \<Rightarrow> addr list \<Rightarrow> (addr \<times> int) list" where
  "offers h rs = map (\<lambda>r. (r, o_RemainingQty (h r))) (filter (\<lambda>r. IsActive (h r)) rs)"

lemma offers_simps [simp]:
  "offers h [] = []"
  "offers h (r # rs) = (if IsActive (h r) then [(r, o_RemainingQty (h r))] else []) @ offers h rs"
  "offers h (rs @ ss) = offers h rs @ offers h ss"
  by (simp_all add: offers_def)

lemma offers_cong: "(\<And>r. r \<in> set rs \<Longrightarrow> h r = h' r) \<Longrightarrow> offers h rs = offers h' rs"
  by (induction rs) auto

lemma fst_offers: "fst ` set (offers h rs) = {r \<in> set rs. IsActive (h r)}"
  by (force simp: offers_def)

lemma distinct_offers: "distinct rs \<Longrightarrow> distinct (map fst (offers h rs))"
  by (simp add: offers_def comp_def)

lemma offers_pos: "\<forall>r \<in> set rs. ord_ok (h r) \<Longrightarrow> \<forall>x \<in> set (offers h rs). 0 < snd x"
  by (auto simp: offers_def ord_ok_def)

lemma eligible_offers:
  "eligible h accepts ls = offers h (level_orders (takeWhile (\<lambda>l. accepts (lv_Price l)) ls))"
  by (simp add: eligible_def offers_def)

lemma min64_min: "min64 a b = min a b"
  by (simp add: min64_def min_def)

lemma fill_one_fill_with:
  "o_Price (h r) = lp \<Longrightarrow> fill_one now ob inc lp r (h, e) =
   fill_with now ob inc (r, min (o_RemainingQty (h inc)) (o_RemainingQty (h r))) (h, e)"
  by (drule sym) (simp add: fill_one_def fill_with_def min64_min Let_def)

lemma fillAgainstLevel_alloc:
  assumes "distinct rs" "inc \<notin> set rs" "qty_ok (h inc)"
    and "\<forall>r \<in> set rs. ord_ok (h r) \<and> o_Price (h r) = lp"
  shows "fillAgainstLevel now ob inc lp rs (h, e) =
    apply_fills now ob inc (alloc (o_RemainingQty (h inc)) (offers h rs)) (h, e)"
  using assms
proof (induction rs arbitrary: h e)
  case (Cons r rs)
  show ?case
  proof (cases "IsActive (h r) \<and> o_RemainingQty (h inc) \<noteq> 0")
    case False
    with Cons show ?thesis by auto
  next
    case True
    let ?q = "min (o_RemainingQty (h inc)) (o_RemainingQty (h r))"
    obtain h1 e1 where st: "fill_with now ob inc (r, ?q) (h, e) = (h1, e1)" by fastforce
    have r: "r \<noteq> inc" and q: "0 \<le> ?q" "?q \<le> o_RemainingQty (h inc)"
      using Cons.prems True by (auto simp: ord_ok_def qty_ok_def)
    have h1: "h1 = h(inc := Fill now ?q (o_Price (h r)) (h inc), r := Fill now ?q (o_Price (h r)) (h r))"
      using fill_with_heap [OF r, of now ob ?q h e] st by simp
    have same: "h x = h1 x" if "x \<in> set rs" for x
      using that Cons.prems by (auto simp: h1)
    have "o_RemainingQty (h1 inc) = o_RemainingQty (h inc) - ?q" "qty_ok (h1 inc)"
      using r q Cons.prems(3) by (simp_all add: h1 Fill_remaining qty_ok_Fill)
    moreover have "fillAgainstLevel now ob inc lp rs (h1, e1) =
        apply_fills now ob inc (alloc (o_RemainingQty (h1 inc)) (offers h1 rs)) (h1, e1)"
      using Cons.prems \<open>qty_ok (h1 inc)\<close> same by (intro Cons.IH) auto
    moreover have "offers h1 rs = offers h rs" using same by (intro offers_cong) simp
    ultimately show ?thesis
      using True Cons.prems st by (simp add: fill_one_fill_with)
  qed
qed simp

lemma apply_fills_frame:
  assumes "distinct (map fst fs)" "inc \<notin> fst ` set fs" "p \<noteq> inc" "p \<notin> fst ` set fs"
  shows "fst (apply_fills now ob inc fs (h, e)) p = h p"
  using assms by (simp add: apply_fills_heap map_of_eq_None_iff [THEN iffD2])

lemma match_levels_alloc:
  assumes "distinct (level_orders ls)" "inc \<notin> set (level_orders ls)" "qty_ok (h inc)"
    and "\<forall>l \<in> set ls. \<forall>r \<in> set (lv_Orders l). ord_ok (h r) \<and> o_Price (h r) = lv_Price l"
  shows "match_levels stop now ob inc ls (h, e) =
    apply_fills now ob inc
      (alloc (o_RemainingQty (h inc)) (eligible h (\<lambda>lp. \<not> stop lp (o_Price (h inc))) ls)) (h, e)"
  using assms
proof (induction ls arbitrary: h e)
  case Nil
  then show ?case by (simp add: eligible_offers)
next
  case (Cons l ls)
  show ?case
  proof (cases "stop (lv_Price l) (o_Price (h inc)) \<or> o_RemainingQty (h inc) = 0")
    case True
    then show ?thesis by (auto simp: eligible_offers)
  next
    case False
    let ?n = "o_RemainingQty (h inc)"
    let ?fs = "alloc ?n (offers h (lv_Orders l))"
    obtain h1 e1 where st: "apply_fills now ob inc ?fs (h, e) = (h1, e1)" by fastforce
    have level: "fillAgainstLevel now ob inc (lv_Price l) (lv_Orders l) (h, e) = (h1, e1)"
      using Cons.prems st by (subst fillAgainstLevel_alloc) auto
    have n: "0 \<le> ?n" using Cons.prems(3) by (simp add: qty_ok_def)
    have pos: "\<forall>x \<in> set (offers h (lv_Orders l)). 0 < snd x"
      using Cons.prems(4) by (intro offers_pos) auto
    have "fst ` set ?fs \<subseteq> set (lv_Orders l)"
      using alloc_fst [of ?n "offers h (lv_Orders l)"] by (auto simp: fst_offers)
    moreover have dist: "distinct (map fst ?fs)"
      using Cons.prems(1) by (auto intro!: alloc_distinct distinct_offers)
    ultimately have inc: "inc \<notin> fst ` set ?fs" and outside: "\<forall>r \<in> set (level_orders ls). r \<notin> fst ` set ?fs"
      using Cons.prems(1,2) by auto
    have same: "h r = h1 r" if "r \<in> set (level_orders ls)" for r
    proof -
      have "r \<noteq> inc" using that Cons.prems(2) by auto
      with apply_fills_frame [OF dist inc, of r now ob h e] that outside st show ?thesis by simp
    qed
    have h1inc: "h1 inc = fill_all now h ?fs (h inc)"
      using apply_fills_heap [OF dist inc, of now ob h e] st by simp
    note F = fill_all_qty [OF Cons.prems(3) alloc_bounds(3) [OF n pos] alloc_bounds(2) [OF n pos], of now h]
    have "match_levels stop now ob inc ls (h1, e1) = apply_fills now ob inc
        (alloc (o_RemainingQty (h1 inc)) (eligible h1 (\<lambda>lp. \<not> stop lp (o_Price (h1 inc))) ls)) (h1, e1)"
    proof (rule Cons.IH)
      show "qty_ok (h1 inc)" by (simp only: h1inc F(1))
      show "\<forall>l \<in> set ls. \<forall>r \<in> set (lv_Orders l). ord_ok (h1 r) \<and> o_Price (h1 r) = lv_Price l"
        using Cons.prems(4) same by (fastforce simp: set_level_orders)
    qed (use Cons.prems in auto)
    moreover have "eligible h1 (\<lambda>lp. \<not> stop lp (o_Price (h1 inc))) ls =
        eligible h (\<lambda>lp. \<not> stop lp (o_Price (h inc))) ls"
      unfolding eligible_offers h1inc fill_all_frame
      by (rule offers_cong) (auto simp: set_level_orders intro!: same [symmetric] dest!: set_takeWhileD)
    moreover have "o_RemainingQty (h1 inc) = ?n - filled ?fs" by (simp only: h1inc F(2))
    ultimately show ?thesis
      using False level st by (simp add: eligible_offers alloc_append apply_fills_append)
  qed
qed

section \<open>Matching one order\<close>

text \<open>The prices an order trades at, the side it trades against, and the fills it gets.\<close>

definition accepts :: "Order \<Rightarrow> f64 \<Rightarrow> bool" where
  "accepts x lp \<longleftrightarrow> o_OrderType x = Market \<or> (if is_buy x then \<not> above lp (o_Price x) else \<not> below lp (o_Price x))"

definition opposite :: "Order \<Rightarrow> OrderBook \<Rightarrow> PriceLevel list" where
  "opposite x ob = (if is_buy x then ob_asks ob else ob_bids ob)"

definition match_fills :: "heap \<Rightarrow> OrderBook \<Rightarrow> addr \<Rightarrow> (addr \<times> int) list" where
  "match_fills h ob inc =
     alloc (o_RemainingQty (h inc)) (eligible h (accepts (h inc)) (opposite (h inc) ob))"

text \<open>A market order that is not completely filled is rejected.\<close>

definition reject_rest :: "instant \<Rightarrow> Order \<Rightarrow> Order" where
  "reject_rest now x =
     (if o_OrderType x = Market \<and> 0 < o_RemainingQty x \<and> o_Status x \<noteq> StatusFilled
      then UpdateStatus now StatusRejected ''No liquidity available for market order'' x else x)"

definition book_orders_ok :: "heap \<Rightarrow> OrderBook \<Rightarrow> bool" where
  "book_orders_ok h ob \<longleftrightarrow> (\<forall>r \<in> set (resting ob). ord_ok (h r))"

lemma opposite_outside:
  assumes "book_inv h ob"
  shows "inc \<notin> set (level_orders (opposite (h inc) ob))"
  using assms side_ok_orders [OF book_invD(1) [OF assms], of inc]
    side_ok_orders [OF book_invD(2) [OF assms], of inc] by (auto simp: opposite_def)

lemma opposite_distinct: "book_inv h ob \<Longrightarrow> distinct (level_orders (opposite x ob))"
  using book_invD(3) by (auto simp: opposite_def)

lemma opposite_resting: "set (level_orders (opposite x ob)) \<subseteq> set (resting ob)"
  by (auto simp: opposite_def)

lemma opposite_levels:
  assumes "book_inv h ob" "book_orders_ok h ob"
  shows "\<forall>l \<in> set (opposite x ob). \<forall>r \<in> set (lv_Orders l). ord_ok (h r) \<and> o_Price (h r) = lv_Price l"
proof (intro ballI conjI)
  fix l r assume l: "l \<in> set (opposite x ob)" "r \<in> set (lv_Orders l)"
  then have "r \<in> set (resting ob)" using opposite_resting [of x ob] by (auto simp: set_level_orders)
  with assms(2) show "ord_ok (h r)" by (simp add: book_orders_ok_def)
  show "o_Price (h r) = lv_Price l"
    using l book_invD(1,2) [OF assms(1)] by (auto simp: opposite_def side_ok_def level_ok_def split: if_splits)
qed

lemma level_orders_takeWhile:
  "level_orders (takeWhile P ls) @ level_orders (dropWhile P ls) = level_orders ls"
  by (simp flip: level_orders_append)

lemma eligible_distinct: "distinct (level_orders ls) \<Longrightarrow> distinct (map fst (eligible h acc ls))"
  unfolding eligible_offers
  by (rule distinct_offers) (metis distinct_append level_orders_takeWhile)

lemma eligible_order:
  assumes "(r, q) \<in> set (eligible h acc ls)"
  shows "r \<in> set (level_orders ls)" "IsActive (h r)" "q = o_RemainingQty (h r)"
    and "\<exists>l \<in> set ls. r \<in> set (lv_Orders l) \<and> acc (lv_Price l)"
  using assms by (auto simp: eligible_def set_level_orders dest!: set_takeWhileD)

text \<open>What every list of fills satisfies.\<close>

lemma match_fills_facts:
  assumes "book_inv h ob" "book_orders_ok h ob" "qty_ok (h inc)"
  shows "distinct (map fst (match_fills h ob inc))"
    and "inc \<notin> fst ` set (match_fills h ob inc)"
    and "\<forall>f \<in> set (match_fills h ob inc). 0 < snd f"
    and "0 \<le> filled (match_fills h ob inc)"
    and "filled (match_fills h ob inc) \<le> o_RemainingQty (h inc)"
    and "(r, q) \<in> set (match_fills h ob inc) \<Longrightarrow> r \<in> set (level_orders (opposite (h inc) ob))"
    and "(r, q) \<in> set (match_fills h ob inc) \<Longrightarrow> IsActive (h r)"
    and "(r, q) \<in> set (match_fills h ob inc) \<Longrightarrow> q \<le> o_RemainingQty (h r)"
    and "(r, q) \<in> set (match_fills h ob inc) \<Longrightarrow> accepts (h inc) (o_Price (h r))"
proof -
  let ?el = "eligible h (accepts (h inc)) (opposite (h inc) ob)"
  have dist: "distinct (map fst ?el)" using opposite_distinct [OF assms(1)] by (rule eligible_distinct)
  have n: "0 \<le> o_RemainingQty (h inc)" using assms(3) by (simp add: qty_ok_def)
  have pos: "\<forall>x \<in> set ?el. 0 < snd x"
    unfolding eligible_offers using opposite_levels [OF assms(1,2), of "h inc"]
    by (intro offers_pos) (auto simp: set_level_orders dest!: set_takeWhileD)
  show "distinct (map fst (match_fills h ob inc))"
    unfolding match_fills_def using dist by (rule alloc_distinct)
  show "\<forall>f \<in> set (match_fills h ob inc). 0 < snd f" "0 \<le> filled (match_fills h ob inc)"
    "filled (match_fills h ob inc) \<le> o_RemainingQty (h inc)"
    unfolding match_fills_def using n pos by (rule alloc_bounds)+
  have el: "\<exists>m. (r, m) \<in> set ?el" if "(r, q) \<in> set (match_fills h ob inc)" for r q
    using that alloc_fst [of "o_RemainingQty (h inc)" ?el] by (force simp: match_fills_def)
  show "inc \<notin> fst ` set (match_fills h ob inc)"
    using el eligible_order(1) opposite_outside [OF assms(1), of inc] by fastforce
  assume f: "(r, q) \<in> set (match_fills h ob inc)"
  then obtain m where m: "(r, m) \<in> set ?el" using el by blast
  show "r \<in> set (level_orders (opposite (h inc) ob))" "IsActive (h r)"
    using eligible_order [OF m] by simp_all
  show "q \<le> o_RemainingQty (h r)"
    using alloc_le [OF dist f [unfolded match_fills_def] m] eligible_order(3) [OF m] by simp
  show "accepts (h inc) (o_Price (h r))"
    using eligible_order(4) [OF m] opposite_levels [OF assms(1,2), of "h inc"] by auto
qed

lemma engine_match_greedy:
  assumes "book_inv h ob" "book_orders_ok h ob" "qty_ok (h inc)"
  shows "engine_match now ob inc (h, e) =
    (let (h', e') = apply_fills now ob inc (match_fills h ob inc) (h, e)
     in (h'(inc := reject_rest now (h' inc)), e'))"
proof -
  note loop = match_levels_alloc [OF opposite_distinct [OF assms(1)] opposite_outside [OF assms(1)]
      assms(3) opposite_levels [OF assms(1,2)], of _ now ob e]
  note heap = apply_fills_heap [OF match_fills_facts(1,2) [OF assms], of now ob h e]
  obtain h' e' where st: "apply_fills now ob inc (match_fills h ob inc) (h, e) = (h', e')" by fastforce
  then have type: "o_OrderType (h' inc) = o_OrderType (h inc)" using heap by auto
  show ?thesis
  proof (cases "o_OrderType (h inc) = Market")
    case True
    then have "accepts (h inc) = (\<lambda>lp. \<not> never lp (o_Price (h inc)))"
      by (auto simp: accepts_def never_def)
    then have "match_levels never now ob inc (opposite (h inc) ob) (h, e) = (h', e')"
      using loop [of never] st by (simp add: match_fills_def)
    then show ?thesis
      using True st type by (auto simp: engine_match_def matchMarketOrder_def opposite_def AskLevels_def
          BidLevels_def reject_rest_def split: if_splits)
  next
    case False
    let ?stop = "if is_buy (h inc) then above else below"
    from False have "accepts (h inc) = (\<lambda>lp. \<not> ?stop lp (o_Price (h inc)))"
      by (auto simp: accepts_def)
    then have "match_levels ?stop now ob inc (opposite (h inc) ob) (h, e) = (h', e')"
      using loop [of ?stop] st by (simp add: match_fills_def)
    then show ?thesis
      using False st type by (auto simp: engine_match_def matchLimitOrder_def opposite_def AskLevels_def
          BidLevels_def reject_rest_def split: if_splits)
  qed
qed

text \<open>The heap after matching, pointwise.\<close>

lemma engine_match_heap:
  assumes "book_inv h ob" "book_orders_ok h ob" "qty_ok (h inc)"
  shows "fst (engine_match now ob inc (h, e)) inc =
      reject_rest now (fill_all now h (match_fills h ob inc) (h inc))"
    and "(p, q) \<in> set (match_fills h ob inc) \<Longrightarrow>
      fst (engine_match now ob inc (h, e)) p = Fill now q (o_Price (h p)) (h p)"
    and "p \<noteq> inc \<Longrightarrow> p \<notin> fst ` set (match_fills h ob inc) \<Longrightarrow>
      fst (engine_match now ob inc (h, e)) p = h p"
proof -
  define fs where "fs = match_fills h ob inc"
  define h' where "h' = fst (engine_match now ob inc (h, e))"
  note F = match_fills_facts [OF assms(1-3), folded fs_def]
  have h': "h' = (fst (apply_fills now ob inc fs (h, e)))
      (inc := reject_rest now (fst (apply_fills now ob inc fs (h, e)) inc))"
    unfolding h'_def fs_def engine_match_greedy [OF assms(1-3)] by (simp add: Let_def split: prod.split)
  note heap = apply_fills_heap [OF F(1,2), of now ob h e]
  show "h' inc = reject_rest now (fill_all now h fs (h inc))" by (simp add: h' heap)
  show "h' p = Fill now q (o_Price (h p)) (h p)" if "(p, q) \<in> set fs"
  proof -
    have "p \<noteq> inc" using that F(2) by force
    with that F(1) show ?thesis by (simp add: h' heap map_of_is_SomeI)
  qed
  show "h' p = h p" if "p \<noteq> inc" "p \<notin> fst ` set fs"
    using that by (simp add: h' heap map_of_eq_None_iff [THEN iffD2])
qed

lemma reject_rest_simps [simp]:
  "same_key x (reject_rest now x)"
  "o_RemainingQty (reject_rest now x) = o_RemainingQty x"
  "o_FilledQty (reject_rest now x) = o_FilledQty x"
  "o_Quantity (reject_rest now x) = o_Quantity x"
  "qty_ok (reject_rest now x) = qty_ok x"
  by (simp_all add: reject_rest_def)

lemma reject_rest_active: "IsActive (reject_rest now x) \<Longrightarrow> IsActive x"
  by (simp add: reject_rest_def IsActive_def split: if_splits)

text \<open>The three kinds of order a match leaves behind, for case analysis on an address.\<close>

lemma engine_match_cases [consumes 3, case_names incoming traded untouched]:
  assumes "book_inv h ob" "book_orders_ok h ob" "qty_ok (h inc)"
    and "p = inc \<Longrightarrow> fst (engine_match now ob inc (h, e)) p =
      reject_rest now (fill_all now h (match_fills h ob inc) (h inc)) \<Longrightarrow> P"
    and "\<And>q. p \<noteq> inc \<Longrightarrow> (p, q) \<in> set (match_fills h ob inc) \<Longrightarrow>
      fst (engine_match now ob inc (h, e)) p = Fill now q (o_Price (h p)) (h p) \<Longrightarrow> P"
    and "p \<noteq> inc \<Longrightarrow> p \<notin> fst ` set (match_fills h ob inc) \<Longrightarrow>
      fst (engine_match now ob inc (h, e)) p = h p \<Longrightarrow> P"
  shows P
proof (cases "p = inc")
  case True
  with assms(4) engine_match_heap(1) [OF assms(1-3)] show P by blast
next
  case False
  show P
  proof (cases "p \<in> fst ` set (match_fills h ob inc)")
    case True
    then obtain q where "(p, q) \<in> set (match_fills h ob inc)" by force
    with False assms(5) engine_match_heap(2) [OF assms(1-3)] show P by blast
  next
    case out: False
    with False assms(6) engine_match_heap(3) [OF assms(1-3)] show P by blast
  qed
qed

lemma engine_match_key:
  assumes "book_inv h ob" "book_orders_ok h ob" "qty_ok (h inc)"
  shows "same_key (h p) (fst (engine_match now ob inc (h, e)) p)"
  using assms
proof (cases rule: engine_match_cases [where p = p and e = e and now = now])
  case incoming
  then show ?thesis by (metis fill_all_key reject_rest_simps(1) same_key_trans)
qed simp_all

lemma book_inv_match:
  assumes "book_inv h ob" "book_orders_ok h ob" "qty_ok (h inc)"
  shows "book_inv (fst (engine_match now ob inc (h, e))) ob"
  using assms(1) by (rule book_inv_cong) (rule engine_match_key [OF assms])

lemma ord_ok_Fill:
  assumes "qty_ok x" "0 < q" "q \<le> o_RemainingQty x"
  shows "ord_ok (Fill now q pr x)"
  using assms by (auto simp: ord_ok_def qty_ok_Fill IsActive_Fill Fill_remaining)

lemma ord_ok_match:
  assumes "book_inv h ob" "book_orders_ok h ob" "ord_ok (h inc)" "ord_ok (h p)"
  shows "ord_ok (fst (engine_match now ob inc (h, e)) p)"
proof -
  from assms(3) have inc: "qty_ok (h inc)" by (simp add: ord_ok_def)
  note F = match_fills_facts [OF assms(1,2) inc]
  note Q = fill_all_qty [OF inc F(3,5), of now h]
  show ?thesis
    using assms(1,2) inc
  proof (cases rule: engine_match_cases [where p = p and e = e and now = now])
    case incoming
    let ?x = "fill_all now h (match_fills h ob inc) (h inc)"
    have "ord_ok ?x"
    proof (cases "match_fills h ob inc = []")
      case True
      with assms(3) show ?thesis by simp
    next
      case False
      with Q F(5) show ?thesis by (auto simp: ord_ok_def IsActive_def)
    qed
    then show ?thesis
      using incoming reject_rest_active by (auto simp: ord_ok_def)
  next
    case (traded q)
    with F(3,8) assms(4) have "ord_ok (Fill now q (o_Price (h p)) (h p))"
      by (intro ord_ok_Fill) (auto simp: ord_ok_def)
    with traded show ?thesis by simp
  next
    case untouched
    with assms(4) show ?thesis by simp
  qed
qed

section \<open>Trades\<close>

text \<open>The trades a list of fills produces, in order.\<close>

fun trades_of :: "instant \<Rightarrow> OrderBook \<Rightarrow> Order \<Rightarrow> heap \<Rightarrow> MEngine \<Rightarrow> (addr \<times> int) list \<Rightarrow> Trade list" where
  "trades_of now ob x h e [] = []"
| "trades_of now ob x h e ((r, q) # fs) =
     (let (e1, t) = createTrade now ob x (h r) q (o_Price (h r)) e in t # trades_of now ob x h e1 fs)"

definition match_trades :: "instant \<Rightarrow> OrderBook \<Rightarrow> addr \<Rightarrow> heap \<times> MEngine \<Rightarrow> Trade list" where
  "match_trades now ob inc st =
     (let (h, e) = st in trades_of now ob (h inc) h e (match_fills h ob inc))"

lemma trades_of_cong:
  assumes "o_Side x = o_Side x'" "o_OrderID x = o_OrderID x'" "o_ClientID x = o_ClientID x'"
    and "\<And>r. r \<in> fst ` set fs \<Longrightarrow> h r = h' r" "e_tradeCounter e = e_tradeCounter e'"
  shows "trades_of now ob x h e fs = trades_of now ob x' h' e' fs"
  using assms(4,5)
proof (induction fs arbitrary: e e')
  case (Cons f fs)
  obtain r q where f: "f = (r, q)" by fastforce
  with Cons.prems have "h r = h' r" by simp
  moreover have "trades_of now ob x h (fst (createTrade now ob x (h r) q (o_Price (h r)) e)) fs =
      trades_of now ob x' h' (fst (createTrade now ob x' (h' r) q (o_Price (h' r)) e')) fs"
    using Cons.prems by (intro Cons.IH) auto
  ultimately show ?case
    using f assms(1-3) Cons.prems(2) by (auto simp: createTrade_def Let_def split: if_splits)
qed simp

lemma apply_fills_engine:
  assumes "distinct (map fst fs)" "inc \<notin> fst ` set fs"
  shows "e_TradeCh (snd (apply_fills now ob inc fs (h, e))) =
      fold (try_send trade_cap) (trades_of now ob (h inc) h e fs) (e_TradeCh e)"
    and "e_tradeCounter (snd (apply_fills now ob inc fs (h, e))) =
      ((\<lambda>n. add64 n 1) ^^ length fs) (e_tradeCounter e)"
    and "e_running (snd (apply_fills now ob inc fs (h, e))) = e_running e"
proof -
  have "e_TradeCh (snd (apply_fills now ob inc fs (h, e))) =
      fold (try_send trade_cap) (trades_of now ob (h inc) h e fs) (e_TradeCh e) \<and>
    e_tradeCounter (snd (apply_fills now ob inc fs (h, e))) =
      ((\<lambda>n. add64 n 1) ^^ length fs) (e_tradeCounter e) \<and>
    e_running (snd (apply_fills now ob inc fs (h, e))) = e_running e"
    using assms
  proof (induction fs arbitrary: h e)
    case (Cons f fs)
    obtain r q where f: "f = (r, q)" by fastforce
    with Cons.prems have r: "r \<noteq> inc" "r \<notin> fst ` set fs" by auto
    obtain h1 e1 where st: "fill_with now ob inc (r, q) (h, e) = (h1, e1)" by fastforce
    have h1: "h1 = h(inc := Fill now q (o_Price (h r)) (h inc), r := Fill now q (o_Price (h r)) (h r))"
      using fill_with_heap [OF r(1), of now ob q h e] st by simp
    let ?c = "createTrade now ob (h inc) (h r) q (o_Price (h r)) e"
    have e1: "e1 = (fst ?c)\<lparr>e_TradeCh := try_send trade_cap (snd ?c) (e_TradeCh (fst ?c))\<rparr>"
      using st by (auto simp: fill_with_def Let_def case_prod_unfold)
    have "trades_of now ob (h1 inc) h1 e1 fs = trades_of now ob (h inc) h (fst ?c) fs"
      using Cons.prems r by (intro trades_of_cong) (auto simp: h1 e1 f)
    moreover have "e_tradeCounter e1 = add64 (e_tradeCounter e) 1" "e_running e1 = e_running e"
      "e_TradeCh e1 = try_send trade_cap (snd ?c) (e_TradeCh e)"
      by (simp_all add: e1)
    ultimately show ?case
      using Cons.IH [of h1 e1] Cons.prems f st
        funpow_swap1 [of "\<lambda>n. add64 n 1" "length fs" "e_tradeCounter e"]
      by (simp add: Let_def split: prod.split)
  qed simp
  then show "e_TradeCh (snd (apply_fills now ob inc fs (h, e))) =
      fold (try_send trade_cap) (trades_of now ob (h inc) h e fs) (e_TradeCh e)"
    "e_tradeCounter (snd (apply_fills now ob inc fs (h, e))) =
      ((\<lambda>n. add64 n 1) ^^ length fs) (e_tradeCounter e)"
    "e_running (snd (apply_fills now ob inc fs (h, e))) = e_running e"
    by blast+
qed

lemma engine_match_trades:
  assumes "book_inv h ob" "book_orders_ok h ob" "qty_ok (h inc)"
  shows "e_TradeCh (snd (engine_match now ob inc (h, e))) =
      fold (try_send trade_cap) (match_trades now ob inc (h, e)) (e_TradeCh e)"
    and "e_tradeCounter (snd (engine_match now ob inc (h, e))) =
      ((\<lambda>n. add64 n 1) ^^ length (match_fills h ob inc)) (e_tradeCounter e)"
proof -
  have "snd (engine_match now ob inc (h, e)) = snd (apply_fills now ob inc (match_fills h ob inc) (h, e))"
    unfolding engine_match_greedy [OF assms] by (simp add: Let_def split: prod.split)
  then show "e_TradeCh (snd (engine_match now ob inc (h, e))) =
      fold (try_send trade_cap) (match_trades now ob inc (h, e)) (e_TradeCh e)"
    "e_tradeCounter (snd (engine_match now ob inc (h, e))) =
      ((\<lambda>n. add64 n 1) ^^ length (match_fills h ob inc)) (e_tradeCounter e)"
    using apply_fills_engine [OF match_fills_facts(1,2) [OF assms], of now ob h e]
    by (simp_all add: match_trades_def)
qed

lemma length_trades_of [simp]: "length (trades_of now ob x h e fs) = length fs"
  by (induction fs arbitrary: e) (auto split: prod.split)

lemma trades_of_quantities: "map t_Quantity (trades_of now ob x h e fs) = map snd fs"
  by (induction fs arbitrary: e) (auto simp: createTrade_def Let_def split: prod.splits if_splits)

text \<open>A trade of the incoming order \<open>x\<close> with the resting order \<open>y\<close>, at the resting price.\<close>

definition trade_between :: "Order \<Rightarrow> Order \<Rightarrow> int \<Rightarrow> Trade \<Rightarrow> bool" where
  "trade_between x y q t \<longleftrightarrow> t_Quantity t = q \<and> t_Price t = o_Price y \<and>
     (if o_Side x = Sell
      then t_SellOrderID t = o_OrderID x \<and> t_SellerID t = o_ClientID x \<and>
           t_BuyOrderID t = o_OrderID y \<and> t_BuyerID t = o_ClientID y
      else t_BuyOrderID t = o_OrderID x \<and> t_BuyerID t = o_ClientID x \<and>
           t_SellOrderID t = o_OrderID y \<and> t_SellerID t = o_ClientID y)"

lemma createTrade_between: "trade_between x y q (snd (createTrade now ob x y q (o_Price y) e))"
  by (simp add: trade_between_def createTrade_def Let_def)

lemma set_trades_of:
  "t \<in> set (trades_of now ob x h e fs) \<Longrightarrow> \<exists>r q. (r, q) \<in> set fs \<and> trade_between x (h r) q t"
proof (induction fs arbitrary: e)
  case (Cons f fs)
  obtain r q where f: "f = (r, q)" by fastforce
  let ?c = "createTrade now ob x (h r) q (o_Price (h r)) e"
  from Cons.prems have "t = snd ?c \<or> t \<in> set (trades_of now ob x h (fst ?c) fs)"
    by (simp add: f case_prod_unfold Let_def)
  with Cons.IH [of "fst ?c"] createTrade_between [of x "h r" q now ob e] f show ?case by auto
qed simp

text \<open>Identifiers: the \<open>k\<close>-th trade of the engine carries the number \<open>k\<close>.\<close>

definition trade_id :: "OrderBook \<Rightarrow> int \<Rightarrow> string" where
  "trade_id ob n = ''TRD-'' @ ob_Symbol ob @ ''-'' @ show_int n"

lemma trade_id_inj: "0 \<le> m \<Longrightarrow> 0 \<le> n \<Longrightarrow> trade_id ob m = trade_id ob n \<Longrightarrow> m = n"
  by (auto simp: trade_id_def intro: nat_digits_inj)

lemma counter_funpow:
  "in64 n \<Longrightarrow> in64 (n + int k) \<Longrightarrow> ((\<lambda>n. add64 n 1) ^^ k) n = n + int k"
proof (induction k)
  case (Suc k)
  then have "in64 (n + int k)" by (simp add: in64_def)
  with Suc show ?case by (simp add: add64_id ac_simps)
qed simp

lemma trades_of_ids:
  assumes "in64 (e_tradeCounter e)" "in64 (e_tradeCounter e + int (length fs))"
  shows "map t_TradeID (trades_of now ob x h e fs) =
    map (\<lambda>k. trade_id ob (e_tradeCounter e + int k)) [1..<Suc (length fs)]"
  using assms
proof (induction fs arbitrary: e)
  case (Cons f fs)
  obtain r q where f: "f = (r, q)" by fastforce
  let ?e = "fst (createTrade now ob x (h r) q (o_Price (h r)) e)"
  have n: "e_tradeCounter ?e = e_tradeCounter e + 1"
    using Cons.prems by (simp add: add64_id in64_def)
  have "[1..<Suc (length (f # fs))] = 1 # map Suc [1..<Suc (length fs)]"
    by (simp only: map_Suc_upt length_Cons) (simp add: upt_conv_Cons del: upt_Suc)
  moreover have "map t_TradeID (trades_of now ob x h ?e fs) =
      map (\<lambda>k. trade_id ob (e_tradeCounter ?e + int k)) [1..<Suc (length fs)]"
    using Cons.prems by (intro Cons.IH) (simp_all only: n, auto simp: in64_def)
  ultimately show ?case
    using n Cons.prems by (simp add: f trade_id_def case_prod_unfold Let_def add64_id in64_def comp_def ac_simps del: upt_Suc)
qed simp

section \<open>What a match does to quantities\<close>

lemma fills_total:
  assumes "distinct (map fst fs)" "distinct rs" "fst ` set fs \<subseteq> set rs"
    and "\<And>r q. (r, q) \<in> set fs \<Longrightarrow> g r = q" "\<And>r. r \<in> set rs \<Longrightarrow> r \<notin> fst ` set fs \<Longrightarrow> g r = 0"
  shows "(\<Sum>r\<leftarrow>rs. g r) = filled fs"
proof -
  have "map snd fs = map g (map fst fs)" using assms(4) by auto
  then have "filled fs = (\<Sum>r\<leftarrow>map fst fs. g r)" by presburger
  also have "\<dots> = (\<Sum>r \<in> fst ` set fs. g r)" using sum_list_distinct_conv_sum_set [OF assms(1), of g] by simp
  also have "\<dots> = (\<Sum>r \<in> set rs. g r)" using assms(3,5) by (intro sum.mono_neutral_left) auto
  also have "\<dots> = (\<Sum>r\<leftarrow>rs. g r)" using assms(2) by (simp add: sum_list_distinct_conv_sum_set)
  finally show ?thesis by simp
qed

lemma match_trades_quantity:
  "(\<Sum>t\<leftarrow>match_trades now ob inc (h, e). t_Quantity t) = filled (match_fills h ob inc)"
  by (simp add: match_trades_def trades_of_quantities)

lemma match_incoming_qty:
  assumes "book_inv h ob" "book_orders_ok h ob" "qty_ok (h inc)"
  shows "o_FilledQty (fst (engine_match now ob inc (h, e)) inc) =
      o_FilledQty (h inc) + filled (match_fills h ob inc)"
    and "o_RemainingQty (fst (engine_match now ob inc (h, e)) inc) =
      o_RemainingQty (h inc) - filled (match_fills h ob inc)"
  using fill_all_qty [OF assms(3) match_fills_facts(3,5) [OF assms], of now h]
  by (simp_all add: engine_match_heap(1) [OF assms])

lemma match_resting_qty:
  assumes "book_inv h ob" "book_orders_ok h ob" "qty_ok (h inc)"
    and "(r, q) \<in> set (match_fills h ob inc)"
  shows "o_RemainingQty (fst (engine_match now ob inc (h, e)) r) = o_RemainingQty (h r) - q"
    and "o_FilledQty (fst (engine_match now ob inc (h, e)) r) = o_FilledQty (h r) + q"
    and "o_Status (fst (engine_match now ob inc (h, e)) r) =
      (if q = o_RemainingQty (h r) then StatusFilled else StatusPartiallyFilled)"
proof -
  note F = match_fills_facts [OF assms(1-3)]
  have "r \<in> set (resting ob)" using F(6) [OF assms(4)] opposite_resting by blast
  with assms(2) have r: "qty_ok (h r)" by (simp add: book_orders_ok_def ord_ok_def)
  have q: "0 \<le> q" "q \<le> o_RemainingQty (h r)" using F(3,8) assms(4) by force+
  show "o_RemainingQty (fst (engine_match now ob inc (h, e)) r) = o_RemainingQty (h r) - q"
    "o_FilledQty (fst (engine_match now ob inc (h, e)) r) = o_FilledQty (h r) + q"
    "o_Status (fst (engine_match now ob inc (h, e)) r) =
      (if q = o_RemainingQty (h r) then StatusFilled else StatusPartiallyFilled)"
    by (simp_all add: engine_match_heap(2) [OF assms] Fill_filled [OF r q] Fill_remaining [OF r q] Fill_status)
qed

section \<open>Accepted prices form a prefix of the opposite side\<close>

lemma opposite_sorted:
  assumes "book_inv h ob"
  shows "level_sorted (if is_buy x then flt else better_bid) (opposite x ob)"
  using book_invD(1,2) [OF assms] by (simp add: opposite_def side_ok_def)

lemma accepted_prefix:
  assumes "level_sorted (if is_buy x then flt else better_bid) ls" "l \<in> set ls" "accepts x (lv_Price l)"
  shows "l \<in> set (takeWhile (\<lambda>l. accepts x (lv_Price l)) ls)"
  using assms
proof (induction ls)
  case (Cons m ls)
  have "accepts x (lv_Price m)"
  proof (cases "l = m")
    case False
    with Cons.prems have "(if is_buy x then flt else better_bid) (lv_Price m) (lv_Price l)"
      by (auto simp: level_sorted_Cons)
    with Cons.prems(3) show ?thesis
      by (auto simp: accepts_def above_def below_def flt_iff split: if_splits)
  qed (use Cons.prems in simp)
  with Cons show ?case by (auto simp: level_sorted_Cons)
qed simp

lemma eligible_iff:
  assumes "book_inv h ob" "r \<in> set (level_orders (opposite (h inc) ob))"
  shows "r \<in> fst ` set (eligible h (accepts (h inc)) (opposite (h inc) ob)) \<longleftrightarrow>
    IsActive (h r) \<and> accepts (h inc) (o_Price (h r))"
proof -
  obtain l where l: "l \<in> set (opposite (h inc) ob)" "r \<in> set (lv_Orders l)"
    using assms(2) by (auto simp: set_level_orders)
  have price: "o_Price (h r') = lv_Price m"
    if "m \<in> set (opposite (h inc) ob)" "r' \<in> set (lv_Orders m)" for m r'
    using that book_invD(1,2) [OF assms(1)]
    by (auto simp: opposite_def side_ok_def level_ok_def split: if_splits)
  have "r \<in> set (level_orders (takeWhile (\<lambda>l. accepts (h inc) (lv_Price l)) (opposite (h inc) ob))) \<longleftrightarrow>
      accepts (h inc) (o_Price (h r))"
  proof
    assume "accepts (h inc) (o_Price (h r))"
    then show "r \<in> set (level_orders (takeWhile (\<lambda>l. accepts (h inc) (lv_Price l)) (opposite (h inc) ob)))"
      using l accepted_prefix [OF opposite_sorted [OF assms(1)] l(1)] by (auto simp: set_level_orders price)
  qed (auto simp: set_level_orders price dest!: set_takeWhileD)
  then show ?thesis by (auto simp: eligible_offers fst_offers)
qed

lemma match_fills_exhaust:
  assumes "book_inv h ob" "book_orders_ok h ob" "qty_ok (h inc)"
    and "filled (match_fills h ob inc) < o_RemainingQty (h inc)"
  shows "match_fills h ob inc = eligible h (accepts (h inc)) (opposite (h inc) ob)"
proof -
  have "\<forall>x \<in> set (eligible h (accepts (h inc)) (opposite (h inc) ob)). 0 < snd x"
    unfolding eligible_offers using opposite_levels [OF assms(1,2), of "h inc"]
    by (intro offers_pos) (auto simp: set_level_orders dest!: set_takeWhileD)
  with assms(3,4) show ?thesis
    unfolding match_fills_def by (intro alloc_exhausts) (auto simp: qty_ok_def)
qed

section \<open>Priority\<close>

lemma eligible_split:
  assumes "level_orders ls = xs @ r # ys" "distinct (level_orders ls)"
    and "r \<in> fst ` set (eligible h acc ls)"
  shows "\<exists>bs. eligible h acc ls = offers h xs @ (r, o_RemainingQty (h r)) # bs"
proof -
  let ?P = "\<lambda>l. acc (lv_Price l)"
  define zs where "zs = level_orders (takeWhile ?P ls)"
  have el: "eligible h acc ls = offers h zs" by (simp add: eligible_offers zs_def)
  with assms(3) have r: "r \<in> set zs" "IsActive (h r)" by (auto simp: fst_offers)
  have "zs @ level_orders (dropWhile ?P ls) = xs @ r # ys"
    unfolding zs_def by (simp only: level_orders_takeWhile assms(1))
  then consider w where "zs = xs @ w" "w @ level_orders (dropWhile ?P ls) = r # ys"
    | w where "zs @ w = xs"
    by (auto simp: append_eq_append_conv2)
  then show ?thesis
  proof cases
    case (1 w)
    with r(1) assms(1,2) obtain vs where "w = r # vs" by (cases w) auto
    with 1 r(2) show ?thesis by (auto simp: el)
  next
    case 2
    with r(1) have "r \<in> set xs" by auto
    with assms(1,2) show ?thesis by simp
  qed
qed

lemma match_fills_priority:
  assumes "book_inv h ob" "book_orders_ok h ob" "qty_ok (h inc)"
    and "level_orders (opposite (h inc) ob) = xs @ r # ys" "r \<in> fst ` set (match_fills h ob inc)"
  shows "\<exists>zs. match_fills h ob inc = offers h xs @ zs"
proof -
  let ?el = "eligible h (accepts (h inc)) (opposite (h inc) ob)"
  have dist: "distinct (level_orders (opposite (h inc) ob))" by (rule opposite_distinct [OF assms(1)])
  have "r \<in> fst ` set ?el"
    using assms(5) alloc_fst [of "o_RemainingQty (h inc)" ?el] by (auto simp: match_fills_def)
  from eligible_split [OF assms(4) dist this]
  obtain bs where el: "?el = offers h xs @ (r, o_RemainingQty (h r)) # bs" by blast
  have pos: "\<forall>x \<in> set ?el. 0 < snd x"
    unfolding eligible_offers using opposite_levels [OF assms(1,2), of "h inc"]
    by (intro offers_pos) (auto simp: set_level_orders dest!: set_takeWhileD)
  show ?thesis
    unfolding match_fills_def el
  proof (rule alloc_priority)
    show "0 \<le> o_RemainingQty (h inc)" using assms(3) by (simp add: qty_ok_def)
    show "\<forall>x \<in> set (offers h xs @ (r, o_RemainingQty (h r)) # bs). 0 < snd x" using pos el by simp
    show "fst (r, o_RemainingQty (h r)) \<in>
      fst ` set (alloc (o_RemainingQty (h inc)) (offers h xs @ (r, o_RemainingQty (h r)) # bs))"
      using assms(5) by (simp add: match_fills_def el)
    show "distinct (map fst (offers h xs @ (r, o_RemainingQty (h r)) # bs))"
      using eligible_distinct [OF dist] el by metis
  qed
qed

end
