(* ===== verification/Order_Book_Correct.thy ===== *)
theory Order_Book_Correct
  imports Order_Book
begin

text \<open>
  The correctness of the order book on its own: \<^verbatim>\<open>Add\<close> and \<^verbatim>\<open>Cancel\<close> keep its invariant and its
  level totals, a new order is queued in price-time priority, a cancellation removes exactly its
  order and undoes the \<^verbatim>\<open>Add\<close>, and the queries report the best levels. A small book with three
  resting sells and a buy serves as the running instance here and for the matching engine.
\<close>

section \<open>Sides of an order\<close>

definition own_side :: "Order \<Rightarrow> OrderBook \<Rightarrow> PriceLevel list" where
  "own_side x ob = (if is_buy x then ob_bids ob else ob_asks ob)"

definition other_side :: "Order \<Rightarrow> OrderBook \<Rightarrow> PriceLevel list" where
  "other_side x ob = (if is_buy x then ob_asks ob else ob_bids ob)"

text \<open>Price \<open>a\<close> has priority over price \<open>b\<close> on the side of the order \<open>x\<close>.\<close>

definition ahead :: "Order \<Rightarrow> f64 \<Rightarrow> f64 \<Rightarrow> bool" where
  "ahead x a b \<longleftrightarrow> (if is_buy x then flt b a else flt a b)"

abbreviation after_Add :: "instant \<Rightarrow> addr \<Rightarrow> heap \<Rightarrow> OrderBook \<Rightarrow> heap \<times> OrderBook" where
  "after_Add now p h ob \<equiv> fst (ob_Add now p (h, ob))"

abbreviation after_Cancel :: "instant \<Rightarrow> string \<Rightarrow> heap \<Rightarrow> OrderBook \<Rightarrow> heap \<times> OrderBook" where
  "after_Cancel now oid h ob \<equiv> fst (ob_Cancel now oid (h, ob))"

section \<open>An instance\<close>

definition ex_limit :: "string \<Rightarrow> string \<Rightarrow> OrderSide \<Rightarrow> rat \<Rightarrow> int \<Rightarrow> Order" where
  "ex_limit oid client side price qty =
     (NewOrder 0 client ''RELIANCE'')\<lparr>o_OrderID := oid, o_Side := side, o_OrderType := Limit,
       o_Quantity := qty, o_RemainingQty := qty, o_Price := Fin price, o_Status := StatusOpen\<rparr>"

definition ex_heap :: heap where
  "ex_heap = (\<lambda>_. ex_limit ''MB'' ''C2'' Buy 0 300\<lparr>o_OrderType := Market\<rparr>)
     (1 := ex_limit ''S1'' ''C1'' Sell 2500 100, 2 := ex_limit ''S2'' ''C1'' Sell 2500 50,
      3 := ex_limit ''S3'' ''C1'' Sell 2510 70, 4 := ex_limit ''B1'' ''C2'' Buy 2505 120,
      6 := ex_limit ''S4'' ''C3'' Sell 2500 10)"

definition ex_book :: OrderBook where
  "ex_book =
     \<lparr>ob_Symbol = ''RELIANCE'', ob_Exchange = NSE,
      ob_bids = [\<lparr>lv_Price = Fin 2505, lv_Orders = [4], lv_Total = 120\<rparr>],
      ob_asks = [\<lparr>lv_Price = Fin 2500, lv_Orders = [1, 2], lv_Total = 150\<rparr>,
                 \<lparr>lv_Price = Fin 2510, lv_Orders = [3], lv_Total = 70\<rparr>],
      ob_orders = [''S1'' \<mapsto> 1, ''S2'' \<mapsto> 2, ''S3'' \<mapsto> 3, ''B1'' \<mapsto> 4],
      ob_EventCh = [\<lparr>ev_Type = EventNewOrder, ev_Order = 4, ev_Timestamp = 0\<rparr>]\<rparr>"

lemmas ex_book_simps = ex_heap_def ex_limit_def NewOrder_def go_constants

lemma ex_book_inv: "book_inv ex_heap ex_book"
  unfolding book_inv_def side_ok_def level_sorted_def level_ok_def
  by (auto simp: ex_book_def ex_book_simps split: if_splits)

lemma ex_totals: "totals_ok ex_heap (ob_bids ex_book)" "totals_ok ex_heap (ob_asks ex_book)"
  by (auto simp: totals_ok_def ex_book_def ex_book_simps wrap64_id in64_def)

lemma ex_in64: "\<forall>l \<in> set (ob_bids ex_book) \<union> set (ob_asks ex_book). in64 (lv_Total l)"
  by (auto simp: ex_book_def in64_def)

lemma ex_new:
  "6 \<notin> set (resting ex_book)" "o_Price (ex_heap 6) \<noteq> NaN"
  "ob_orders ex_book (o_OrderID (ex_heap 6)) = None"
  by (simp_all add: ex_book_def ex_book_simps)

section \<open>Invariant\<close>

text \<open>\<^verbatim>\<open>Add\<close> of an order that is not resting yet and has a numeric price, and \<^verbatim>\<open>Cancel\<close> of any
  identifier, keep the book's invariant: sorted sides, non-empty levels whose orders carry the
  level's price and side, no order twice, and an identifier map that lists exactly the resting
  orders.\<close>

lemma book_operations_preserve_inv:
  assumes "book_inv h ob" "p \<notin> set (resting ob)" "o_Price (h p) \<noteq> NaN"
  shows "(case after_Add now p h ob of (h', ob') \<Rightarrow> book_inv h' ob') \<and>
    (case after_Cancel now oid h ob of (h', ob') \<Rightarrow> book_inv h' ob')"
  using book_inv_Add [OF assms] book_inv_Cancel [OF assms(1)] by (simp add: case_prod_unfold)

lemma book_operations_preserve_inv_witness:
  "(case after_Add 9 6 ex_heap ex_book of (h', ob') \<Rightarrow> book_inv h' ob') \<and>
   (case after_Cancel 9 ''S1'' ex_heap ex_book of (h', ob') \<Rightarrow> book_inv h' ob')"
  by (rule book_operations_preserve_inv [OF ex_book_inv ex_new(1,2)])

section \<open>Price-time priority of the queue\<close>

text \<open>C25: \<^verbatim>\<open>Add\<close> queues a new order in price-time priority: behind every order of its side with a
  better or equal price, ahead of every order with a worse one, and the other side is untouched;
  the order is then found under its identifier, open, and announced to the matching engine.\<close>

theorem add_queues_in_priority:
  assumes "book_inv h ob" "ob_orders ob (o_OrderID (h p)) = None" "o_Price (h p) \<noteq> NaN"
  shows "\<exists>xs ys h' ob'. ob_Add now p (h, ob) = ((h', ob'), None) \<and>
    level_orders (own_side (h p) ob) = xs @ ys \<and> level_orders (own_side (h p) ob') = xs @ p # ys \<and>
    (\<forall>x \<in> set xs. o_Price (h x) = o_Price (h p) \<or> ahead (h p) (o_Price (h x)) (o_Price (h p))) \<and>
    (\<forall>y \<in> set ys. ahead (h p) (o_Price (h p)) (o_Price (h y))) \<and>
    other_side (h p) ob' = other_side (h p) ob \<and>
    ob_GetOrder (o_OrderID (h p)) ob' = Some p \<and> o_Status (h' p) = StatusOpen \<and>
    ob_EventCh ob' = ob_EventCh ob @ [\<lparr>ev_Type = EventNewOrder, ev_Order = p, ev_Timestamp = now\<rparr>]"
proof (cases "is_buy (h p)")
  case True
  with bids.add_position [OF book_invD(1) [OF assms(1)] assms(3)] show ?thesis
    by (simp add: ob_Add_fresh [where h = h and p = p, OF assms(2)] Let_def own_side_def other_side_def ahead_def
        ob_GetOrder_def)
next
  case False
  with asks.add_position [OF book_invD(2) [OF assms(1)] assms(3)] show ?thesis
    by (simp add: ob_Add_fresh [where h = h and p = p, OF assms(2)] Let_def own_side_def other_side_def ahead_def
        ob_GetOrder_def)
qed

theorem add_queues_in_priority_witness:
  "\<exists>xs ys h' ob'. ob_Add 9 6 (ex_heap, ex_book) = ((h', ob'), None) \<and>
    [1, 2, 3] = xs @ ys \<and> level_orders (ob_asks ob') = xs @ 6 # ys \<and>
    (\<forall>x \<in> set xs. o_Price (ex_heap x) = Fin 2500 \<or> flt (o_Price (ex_heap x)) (Fin 2500)) \<and>
    (\<forall>y \<in> set ys. flt (Fin 2500) (o_Price (ex_heap y)))"
proof -
  have "\<not> is_buy (ex_heap 6)" "o_Price (ex_heap 6) = Fin 2500" "level_orders (ob_asks ex_book) = [1, 2, 3]"
    by (simp_all add: ex_book_def ex_book_simps)
  with add_queues_in_priority [OF ex_book_inv ex_new(3,2), of 9] show ?thesis
    unfolding own_side_def ahead_def by (simp only: if_False) metis
qed

section \<open>Cancellation\<close>

text \<open>\<^verbatim>\<open>Cancel\<close> of an active resting order removes exactly that order from its side, keeping the
  order of the others, frees its identifier and marks it cancelled; every other order and
  identifier is untouched.\<close>

lemma cancel_removes_exactly:
  assumes "book_inv h ob" "ob_orders ob oid = Some p" "IsActive (h p)"
  shows "\<exists>h' ob'. ob_Cancel now oid (h, ob) = ((h', ob'), None) \<and>
    level_orders (own_side (h p) ob') = remove1 p (level_orders (own_side (h p) ob)) \<and>
    other_side (h p) ob' = other_side (h p) ob \<and>
    ob_orders ob' = (ob_orders ob)(oid := None) \<and>
    o_Status (h' p) = StatusCancelled \<and> (\<forall>q. q \<noteq> p \<longrightarrow> h' q = h q)"
proof -
  have "p \<in> set (resting ob)" using book_invD(4) [OF assms(1)] assms(2) by simp
  from book_inv_remove [OF assms(1) this] show ?thesis
    by (simp add: ob_Cancel_ok [where h = h and p = p, OF assms(2,3)] own_side_def other_side_def)
qed

lemma cancel_removes_exactly_witness:
  "\<exists>h' ob'. ob_Cancel 9 ''S1'' (ex_heap, ex_book) = ((h', ob'), None) \<and>
    level_orders (ob_asks ob') = [2, 3] \<and> ob_orders ob' ''S1'' = None \<and>
    o_Status (h' 1) = StatusCancelled \<and> h' 2 = ex_heap 2"
proof -
  have "ob_orders ex_book ''S1'' = Some 1" "IsActive (ex_heap 1)"
    by (simp_all add: ex_book_def IsActive_def ex_book_simps)
  from cancel_removes_exactly [OF ex_book_inv this, of 9] obtain h' ob' where
    st: "ob_Cancel 9 ''S1'' (ex_heap, ex_book) = ((h', ob'), None)"
    and side: "level_orders (own_side (ex_heap 1) ob') = remove1 1 (level_orders (own_side (ex_heap 1) ex_book))"
    and rest: "ob_orders ob' = (ob_orders ex_book)(''S1'' := None)" "o_Status (h' 1) = StatusCancelled"
      "\<forall>q. q \<noteq> 1 \<longrightarrow> h' q = ex_heap q" by blast
  have "\<not> is_buy (ex_heap 1)" "level_orders (ob_asks ex_book) = [1, 2, 3]"
    by (simp_all add: ex_book_def ex_book_simps)
  with side have "level_orders (ob_asks ob') = [2, 3]" by (simp add: own_side_def)
  with st rest show ?thesis by simp
qed

text \<open>C26: Cancelling an order right after adding it restores both sides of the book and the
  identifier map, levels and totals included; what remains is the cancelled order and the two
  queued events.\<close>

theorem cancel_undoes_add:
  assumes "book_inv h ob" "ob_orders ob (o_OrderID (h p)) = None" "o_Price (h p) \<noteq> NaN"
    and "\<forall>l \<in> set (ob_bids ob) \<union> set (ob_asks ob). in64 (lv_Total l)"
  shows "\<exists>h' ob'. ob_Cancel now' (o_OrderID (h p)) (after_Add now p h ob) = ((h', ob'), None) \<and>
    ob' = ob\<lparr>ob_EventCh := ob_EventCh ob @
      [\<lparr>ev_Type = EventNewOrder, ev_Order = p, ev_Timestamp = now\<rparr>,
       \<lparr>ev_Type = EventCancelOrder, ev_Order = p, ev_Timestamp = now'\<rparr>]\<rparr> \<and>
    h' = h(p := UpdateStatus now' StatusCancelled ''Cancelled by user'' (h p))"
proof -
  let ?x = "UpdateStatus now StatusOpen ''Order placed on book'' (h p)"
  let ?h = "h(p := ?x)"
  let ?ob = "snd (after_Add now p h ob)"
  have fst: "fst (after_Add now p h ob) = ?h" by (simp add: ob_Add_fresh [where h = h and p = p, OF assms(2)] Let_def)
  have inv: "book_inv ?h ob" using assms(1) by (rule book_inv_cong) simp
  have ids: "o_OrderID (?h q) \<noteq> o_OrderID ?x" if "q \<in> set (resting ob)" for q
    using that assms(2) book_invD(4) [OF assms(1), of "o_OrderID (h p)" q] by auto
  have undo: "removeFromLevels ?h ?x (addToBids p (o_Price ?x) (o_RemainingQty ?x) (ob_bids ob)) = ob_bids ob"
    "removeFromLevels ?h ?x (addToAsks p (o_Price ?x) (o_RemainingQty ?x) (ob_asks ob)) = ob_asks ob"
    using assms(3,4) ids
    by (intro bids.remove_add [OF book_invD(1) [OF inv]] asks.remove_add [OF book_invD(2) [OF inv]]; auto)+
  have ids': "(ob_orders ob)(o_OrderID (h p) := None) = ob_orders ob" using assms(2) by auto
  have ob: "ob_orders ?ob = (ob_orders ob)(o_OrderID (h p) \<mapsto> p)"
    "ob_bids ?ob = (if is_buy ?x then addToBids p (o_Price ?x) (o_RemainingQty ?x) (ob_bids ob) else ob_bids ob)"
    "ob_asks ?ob = (if is_buy ?x then ob_asks ob else addToAsks p (o_Price ?x) (o_RemainingQty ?x) (ob_asks ob))"
    "ob_EventCh ?ob = ob_EventCh ob @ [\<lparr>ev_Type = EventNewOrder, ev_Order = p, ev_Timestamp = now\<rparr>]"
    "ob_Symbol ?ob = ob_Symbol ob" "ob_Exchange ?ob = ob_Exchange ob"
    by (simp_all add: ob_Add_fresh [where h = h and p = p, OF assms(2)] Let_def)
  have "ob_Cancel now' (o_OrderID (h p)) (?h, ?ob) =
    ((?h(p := UpdateStatus now' StatusCancelled ''Cancelled by user'' (?h p)),
      send_event now' EventCancelOrder p
        (?ob\<lparr>ob_orders := ob_orders ob, ob_bids := ob_bids ob, ob_asks := ob_asks ob\<rparr>)), None)"
    using undo ids' by (subst ob_Cancel_ok [of _ _ p]) (simp_all add: ob IsActive_def)
  moreover have "after_Add now p h ob = (?h, ?ob)" using fst by (metis prod.collapse)
  moreover have "?h(p := UpdateStatus now' StatusCancelled ''Cancelled by user'' (?h p)) =
      h(p := UpdateStatus now' StatusCancelled ''Cancelled by user'' (h p))"
    by (simp add: UpdateStatus_def)
  moreover have "send_event now' EventCancelOrder p
      (?ob\<lparr>ob_orders := ob_orders ob, ob_bids := ob_bids ob, ob_asks := ob_asks ob\<rparr>) =
    ob\<lparr>ob_EventCh := ob_EventCh ob @
      [\<lparr>ev_Type = EventNewOrder, ev_Order = p, ev_Timestamp = now\<rparr>,
       \<lparr>ev_Type = EventCancelOrder, ev_Order = p, ev_Timestamp = now'\<rparr>]\<rparr>"
    by (rule OrderBook.equality) (simp_all add: ob)
  ultimately show ?thesis by (simp only: prod.inject simp_thms ex_simps) blast
qed

theorem cancel_undoes_add_witness:
  "\<exists>h' ob'. ob_Cancel 10 ''S4'' (after_Add 9 6 ex_heap ex_book) = ((h', ob'), None) \<and>
    ob_asks ob' = ob_asks ex_book \<and> ob_bids ob' = ob_bids ex_book \<and> ob_orders ob' = ob_orders ex_book"
proof -
  have "o_OrderID (ex_heap 6) = ''S4''" by (simp add: ex_book_simps)
  with cancel_undoes_add [OF ex_book_inv ex_new(3,2) ex_in64, of 10 9] show ?thesis by auto
qed

text \<open>A failing \<^verbatim>\<open>Add\<close> or \<^verbatim>\<open>Cancel\<close> changes nothing: the only errors are a duplicate identifier, an
  unknown identifier and an order that is no longer active, and each leaves heap, book and event
  queue as they were.\<close>

lemma book_errors_change_nothing:
  "(snd (ob_Add now p (h, ob)) = Some err \<longrightarrow>
      after_Add now p h ob = (h, ob) \<and> err = OrderExists (o_OrderID (h p)) \<and>
      ob_orders ob (o_OrderID (h p)) \<noteq> None) \<and>
   (snd (ob_Cancel now oid (h, ob)) = Some err \<longrightarrow>
      after_Cancel now oid h ob = (h, ob) \<and>
      (err = OrderNotFound oid \<and> ob_orders ob oid = None \<or>
       (\<exists>q. ob_orders ob oid = Some q \<and> \<not> IsActive (h q) \<and> err = OrderNotActive oid (o_Status (h q)))))"
  by (auto simp: ob_Add_def ob_Cancel_def Let_def split: option.splits if_splits)

lemma book_errors_change_nothing_witness:
  "snd (ob_Add 9 1 (ex_heap, ex_book)) = Some (OrderExists ''S1'') \<and>
   after_Add 9 1 ex_heap ex_book = (ex_heap, ex_book) \<and>
   snd (ob_Cancel 9 ''X'' (ex_heap, ex_book)) = Some (OrderNotFound ''X'') \<and>
   after_Cancel 9 ''X'' ex_heap ex_book = (ex_heap, ex_book)"
proof -
  have "o_OrderID (ex_heap 1) = ''S1''" "ob_orders ex_book ''S1'' = Some 1" "ob_orders ex_book ''X'' = None"
    by (simp_all add: ex_book_def ex_book_simps)
  then have "snd (ob_Add 9 1 (ex_heap, ex_book)) = Some (OrderExists ''S1'')"
    "snd (ob_Cancel 9 ''X'' (ex_heap, ex_book)) = Some (OrderNotFound ''X'')"
    by (simp_all add: ob_Add_exists ob_Cancel_fail)
  with book_errors_change_nothing [of 9 1 ex_heap ex_book "OrderExists ''S1''" "''X''"]
    book_errors_change_nothing [of 9 1 ex_heap ex_book "OrderNotFound ''X''" "''X''"]
  show ?thesis by simp
qed

section \<open>Totals and queries\<close>

text \<open>\<^verbatim>\<open>Add\<close> and \<^verbatim>\<open>Cancel\<close> keep every level's \<^verbatim>\<open>Total\<close> equal to the sum of the remaining
  quantities of the orders on it (as 64-bit integers).\<close>

lemma book_operations_preserve_totals:
  assumes "book_inv h ob" "totals_ok h (ob_bids ob)" "totals_ok h (ob_asks ob)"
    and "p \<notin> set (resting ob)" "in64 (o_RemainingQty (h p))"
  shows "(case after_Add now p h ob of (h', ob') \<Rightarrow> totals_ok h' (ob_bids ob') \<and> totals_ok h' (ob_asks ob')) \<and>
    (case after_Cancel now oid h ob of (h', ob') \<Rightarrow> totals_ok h' (ob_bids ob') \<and> totals_ok h' (ob_asks ob'))"
proof
  show "case after_Add now p h ob of (h', ob') \<Rightarrow> totals_ok h' (ob_bids ob') \<and> totals_ok h' (ob_asks ob')"
  proof (cases "ob_orders ob (o_OrderID (h p))")
    case None
    let ?x = "UpdateStatus now StatusOpen ''Order placed on book'' (h p)"
    have "totals_ok (h(p := ?x)) (ob_bids ob)" "totals_ok (h(p := ?x)) (ob_asks ob)"
      using assms(2,3) by (simp_all add: totals_ok_status)
    then show ?thesis
      using assms(5) by (simp add: ob_Add_fresh [where h = h and p = p, OF None] Let_def bids.add_totals_ok asks.add_totals_ok)
  qed (use assms in \<open>simp add: ob_Add_exists\<close>)
  show "case after_Cancel now oid h ob of (h', ob') \<Rightarrow> totals_ok h' (ob_bids ob') \<and> totals_ok h' (ob_asks ob')"
  proof (cases "\<exists>q. ob_orders ob oid = Some q \<and> IsActive (h q)")
    case True
    then obtain q where q: "ob_orders ob oid = Some q" "IsActive (h q)" by blast
    then have r: "q \<in> set (resting ob)" using book_invD(4) [OF assms(1)] by simp
    have "is_buy (h q) \<Longrightarrow> totals_ok h (removeFromLevels h (h q) (ob_bids ob))"
      "\<not> is_buy (h q) \<Longrightarrow> totals_ok h (removeFromLevels h (h q) (ob_asks ob))"
      using r book_inv_side [OF assms(1) r] book_inv_ids [OF assms(1)] assms(1,2,3)
      by (auto intro!: remove_totals_ok dest: book_invD(1,2) simp: inj_on_Un)
    then show ?thesis
      using assms(2,3) by (simp add: ob_Cancel_ok [where h = h and p = q, OF q] totals_ok_status)
  next
    case False
    then have "after_Cancel now oid h ob = (h, ob)"
      by (auto simp: ob_Cancel_def split: option.splits)
    with assms(2,3) show ?thesis by simp
  qed
qed

lemma book_operations_preserve_totals_witness:
  "case after_Cancel 9 ''S1'' ex_heap ex_book of (h', ob') \<Rightarrow>
      totals_ok h' (ob_bids ob') \<and> totals_ok h' (ob_asks ob')"
proof -
  have "in64 (o_RemainingQty (ex_heap 6))" by (simp add: ex_book_simps in64_def)
  from book_operations_preserve_totals [OF ex_book_inv ex_totals ex_new(1) this, of 9 "''S1''"]
  show ?thesis by (rule conjunct2)
qed

text \<open>\<^verbatim>\<open>MarketDepth\<close> reports the best levels: at most \<open>n\<close> on each side, a prefix of it, every level
  shown has priority over every level left out, and the first is the one \<^verbatim>\<open>BestBid\<close> or \<^verbatim>\<open>BestAsk\<close>
  returns, whose price no resting order of the side beats.\<close>

lemma market_depth_best_levels:
  assumes "book_inv h ob" "MarketDepth n ob = (bs, as)" "0 < n"
  shows "(\<exists>bs' as'. ob_bids ob = bs @ bs' \<and> ob_asks ob = as @ as' \<and>
      (\<forall>l \<in> set bs. \<forall>m \<in> set bs'. flt (lv_Price m) (lv_Price l)) \<and>
      (\<forall>l \<in> set as. \<forall>m \<in> set as'. flt (lv_Price l) (lv_Price m))) \<and>
    length bs = min (nat n) (length (ob_bids ob)) \<and> length as = min (nat n) (length (ob_asks ob)) \<and>
    (\<forall>l. BestBid ob = Some l \<longrightarrow> l \<in> set bs \<and> (\<forall>p \<in> set (level_orders (ob_bids ob)). fle (o_Price (h p)) (lv_Price l))) \<and>
    (\<forall>l. BestAsk ob = Some l \<longrightarrow> l \<in> set as \<and> (\<forall>p \<in> set (level_orders (ob_asks ob)). fle (lv_Price l) (o_Price (h p))))"
proof -
  have bs: "bs = take (nat n) (ob_bids ob)" and as: "as = take (nat n) (ob_asks ob)"
    using assms(2) by (auto simp: MarketDepth_def depth_from_take)
  note B = book_invD(1) [OF assms(1)] and A = book_invD(2) [OF assms(1)]
  have "(\<forall>l \<in> set bs. \<forall>m \<in> set (drop (nat n) (ob_bids ob)). flt (lv_Price m) (lv_Price l))"
    using B unfolding bs side_ok_def level_sorted_def by (blast dest: sorted_wrt_take_drop)
  moreover have "(\<forall>l \<in> set as. \<forall>m \<in> set (drop (nat n) (ob_asks ob)). flt (lv_Price l) (lv_Price m))"
    using A unfolding as side_ok_def level_sorted_def by (blast dest: sorted_wrt_take_drop)
  moreover have "ob_bids ob = bs @ drop (nat n) (ob_bids ob)" "ob_asks ob = as @ drop (nat n) (ob_asks ob)"
    by (simp_all add: bs as)
  moreover have "l \<in> set bs \<and> (\<forall>p \<in> set (level_orders (ob_bids ob)). fle (o_Price (h p)) (lv_Price l))"
    if "BestBid ob = Some l" for l
  proof -
    from that obtain ls where ls: "ob_bids ob = l # ls" by (auto simp: BestBid_def split: list.splits)
    from B have "\<forall>p \<in> set (level_orders (l # ls)). fle (o_Price (h p)) (lv_Price l)"
      unfolding ls by (rule best_bid_head)
    with ls assms(3) show ?thesis by (cases "nat n") (auto simp: bs)
  qed
  moreover have "l \<in> set as \<and> (\<forall>p \<in> set (level_orders (ob_asks ob)). fle (lv_Price l) (o_Price (h p)))"
    if "BestAsk ob = Some l" for l
  proof -
    from that obtain ls where ls: "ob_asks ob = l # ls" by (auto simp: BestAsk_def split: list.splits)
    from A have "\<forall>p \<in> set (level_orders (l # ls)). fle (lv_Price l) (o_Price (h p))"
      unfolding ls by (rule best_ask_head)
    with ls assms(3) show ?thesis by (cases "nat n") (auto simp: as)
  qed
  ultimately show ?thesis
    by (intro conjI exI [of _ "drop (nat n) (ob_bids ob)"] exI [of _ "drop (nat n) (ob_asks ob)"])
      (simp_all add: bs as min.commute)
qed

lemma market_depth_best_levels_witness:
  "\<exists>l. BestAsk ex_book = Some l \<and> l \<in> set (snd (MarketDepth 1 ex_book)) \<and>
    (\<forall>p \<in> {1, 2, 3}. fle (lv_Price l) (o_Price (ex_heap p)))"
proof -
  obtain l where l: "BestAsk ex_book = Some l" by (auto simp: BestAsk_def ex_book_def)
  have "set (level_orders (ob_asks ex_book)) = {1, 2, 3}" by (simp add: ex_book_def insert_commute)
  with l market_depth_best_levels [OF ex_book_inv, of 1 "fst (MarketDepth 1 ex_book)" "snd (MarketDepth 1 ex_book)"]
  show ?thesis by simp
qed

end
