(* ===== verification/Matching_Correct.thy ===== *)
theory Matching_Correct
  imports Matching Order_Book_Correct
begin

text \<open>
  The correctness of one match: it is the greedy allocation in price-time priority, it conserves
  quantity, it trades only at acceptable prices, it leaves nothing tradeable behind, and it
  keeps the invariants of the book and of every order. The book of
  \<^verbatim>\<open>Order_Book_Correct\<close> is the running instance.
\<close>

section \<open>An instance\<close>

lemma ex_orders_ok: "book_orders_ok ex_heap ex_book"
  by (auto simp: book_orders_ok_def ord_ok_def qty_ok_def in64_def ex_book_def ex_book_simps)

lemma ex_incoming: "qty_ok (ex_heap 4)" "ord_ok (ex_heap 4)" "qty_ok (ex_heap 5)" "ord_ok (ex_heap 5)"
  by (simp_all add: ord_ok_def qty_ok_def in64_def ex_book_simps)

lemmas ex_state = ex_book_inv ex_orders_ok ex_incoming

lemma ex_fills: "match_fills ex_heap ex_book 4 = [(1, 100), (2, 20)]"
  by (simp add: match_fills_def eligible_def opposite_def accepts_def above_def ex_book_def
      IsActive_def level_orders_def ex_book_simps)

section \<open>Refinement\<close>

text \<open>C1: On a well-formed book, matching an order (the nested loops of \<^verbatim>\<open>match\<close>, \<^verbatim>\<open>matchLimitOrder\<close>,
  \<^verbatim>\<open>matchMarketOrder\<close> and \<^verbatim>\<open>fillAgainstLevel\<close> with their breaks) is the greedy allocation of its
  remaining quantity over the active opposite orders at acceptable prices, in price-time
  priority, each fill at the resting order's price; a market order's unfilled rest is rejected.\<close>

theorem match_refines_greedy:
  assumes "book_inv h ob" "book_orders_ok h ob" "qty_ok (h inc)"
  shows "engine_match now ob inc (h, e) =
    (let fs = alloc (o_RemainingQty (h inc)) (eligible h (accepts (h inc)) (opposite (h inc) ob));
         (h', e') = apply_fills now ob inc fs (h, e)
     in (h'(inc := reject_rest now (h' inc)), e'))"
  using engine_match_greedy [OF assms] by (simp add: match_fills_def)

theorem match_refines_greedy_witness:
  "book_inv ex_heap ex_book \<and> book_orders_ok ex_heap ex_book \<and> qty_ok (ex_heap 4) \<and>
   engine_match 7 ex_book 4 (ex_heap, NewMEngine) =
     (let (h', e') = apply_fills 7 ex_book 4 [(1, 100), (2, 20)] (ex_heap, NewMEngine)
      in (h'(4 := reject_rest 7 (h' 4)), e'))"
  using ex_state match_refines_greedy [of ex_heap ex_book 4 7 NewMEngine] ex_fills
  by (simp add: match_fills_def)

section \<open>Quantities\<close>

text \<open>C2: A match conserves quantity: what the incoming order gains in filled quantity, what the
  resting side loses in remaining quantity, and the total quantity of the trades produced are
  the same number.\<close>

theorem match_conserves_quantity:
  assumes "book_inv h ob" "book_orders_ok h ob" "qty_ok (h inc)"
  shows "o_FilledQty (fst (engine_match now ob inc (h, e)) inc) - o_FilledQty (h inc) =
      (\<Sum>t\<leftarrow>match_trades now ob inc (h, e). t_Quantity t) \<and>
    (\<Sum>r\<leftarrow>level_orders (opposite (h inc) ob).
        o_RemainingQty (h r) - o_RemainingQty (fst (engine_match now ob inc (h, e)) r)) =
      (\<Sum>t\<leftarrow>match_trades now ob inc (h, e). t_Quantity t)"
proof
  note F = match_fills_facts [OF assms]
  show "o_FilledQty (fst (engine_match now ob inc (h, e)) inc) - o_FilledQty (h inc) =
      (\<Sum>t\<leftarrow>match_trades now ob inc (h, e). t_Quantity t)"
    by (simp add: match_incoming_qty [OF assms] match_trades_quantity)
  have "(\<Sum>r\<leftarrow>level_orders (opposite (h inc) ob).
      o_RemainingQty (h r) - o_RemainingQty (fst (engine_match now ob inc (h, e)) r)) =
    filled (match_fills h ob inc)"
  proof (rule fills_total [OF F(1) opposite_distinct [OF assms(1)]])
    show "fst ` set (match_fills h ob inc) \<subseteq> set (level_orders (opposite (h inc) ob))"
      using F(6) by auto
    show "o_RemainingQty (h r) - o_RemainingQty (fst (engine_match now ob inc (h, e)) r) = q"
      if "(r, q) \<in> set (match_fills h ob inc)" for r q
      using match_resting_qty(1) [OF assms that] by simp
    show "o_RemainingQty (h r) - o_RemainingQty (fst (engine_match now ob inc (h, e)) r) = 0"
      if "r \<in> set (level_orders (opposite (h inc) ob))" "r \<notin> fst ` set (match_fills h ob inc)" for r
    proof -
      have "r \<noteq> inc" using that(1) opposite_outside [OF assms(1), of inc] by auto
      with that(2) show ?thesis using engine_match_heap(3) [OF assms] by simp
    qed
  qed
  then show "(\<Sum>r\<leftarrow>level_orders (opposite (h inc) ob).
      o_RemainingQty (h r) - o_RemainingQty (fst (engine_match now ob inc (h, e)) r)) =
    (\<Sum>t\<leftarrow>match_trades now ob inc (h, e). t_Quantity t)"
    by (simp only: match_trades_quantity)
qed

theorem match_conserves_quantity_witness:
  "o_FilledQty (fst (engine_match 7 ex_book 4 (ex_heap, NewMEngine)) 4) = 120 \<and>
   (\<Sum>r\<leftarrow>[1, 2, 3]. o_RemainingQty (ex_heap r) -
      o_RemainingQty (fst (engine_match 7 ex_book 4 (ex_heap, NewMEngine)) r)) = 120"
proof -
  have "level_orders (opposite (ex_heap 4) ex_book) = [1, 2, 3]"
    by (simp add: opposite_def ex_book_def ex_book_simps)
  moreover have "(\<Sum>t\<leftarrow>match_trades 7 ex_book 4 (ex_heap, NewMEngine). t_Quantity t) = 120"
    by (simp add: match_trades_quantity ex_fills)
  moreover have "o_FilledQty (ex_heap 4) = 0" by (simp add: ex_book_simps)
  ultimately show ?thesis
    using match_conserves_quantity [OF ex_state(1-3), of 7 NewMEngine] by simp
qed

text \<open>A match keeps the book's invariant and the quantity invariant of every order: no order
  is ever filled beyond its quantity, filled and remaining always add up, and an order with
  nothing left is no longer active.\<close>

lemma match_preserves_invariants:
  assumes "book_inv h ob" "book_orders_ok h ob" "ord_ok (h inc)"
  shows "book_inv (fst (engine_match now ob inc (h, e))) ob \<and>
    book_orders_ok (fst (engine_match now ob inc (h, e))) ob \<and>
    ord_ok (fst (engine_match now ob inc (h, e)) inc)"
  using assms book_inv_match [OF assms(1,2), of inc] ord_ok_match [OF assms]
  by (auto simp: book_orders_ok_def ord_ok_def)

lemma match_preserves_invariants_witness:
  "book_inv (fst (engine_match 7 ex_book 4 (ex_heap, NewMEngine))) ex_book \<and>
   book_orders_ok (fst (engine_match 7 ex_book 4 (ex_heap, NewMEngine))) ex_book \<and>
   ord_ok (fst (engine_match 7 ex_book 4 (ex_heap, NewMEngine)) 4)"
  using match_preserves_invariants [OF ex_state(1,2,4)] by blast

section \<open>Prices and priority\<close>



text \<open>C16: Price-time priority: when a resting order trades, every active order ahead of it on its
  side (a better price, or the same price and earlier arrival) has been filled completely.\<close>

theorem match_price_time_priority:
  assumes "book_inv h ob" "book_orders_ok h ob" "qty_ok (h inc)"
    and "level_orders (opposite (h inc) ob) = xs @ r # ys" "r' \<in> set xs" "IsActive (h r')"
    and "fst (engine_match now ob inc (h, e)) r \<noteq> h r"
  shows "o_Status (fst (engine_match now ob inc (h, e)) r') = StatusFilled"
proof -
  have "r \<noteq> inc" using opposite_outside [OF assms(1), of inc] assms(4) by auto
  with assms(7) engine_match_heap(3) [OF assms(1-3)] have "r \<in> fst ` set (match_fills h ob inc)" by blast
  from match_fills_priority [OF assms(1-4) this] obtain zs where "match_fills h ob inc = offers h xs @ zs"
    by blast
  with assms(5,6) have "(r', o_RemainingQty (h r')) \<in> set (match_fills h ob inc)"
    by (auto simp: offers_def)
  from match_resting_qty(3) [OF assms(1-3) this] show ?thesis by simp
qed

theorem match_price_time_priority_witness:
  "o_Status (fst (engine_match 7 ex_book 4 (ex_heap, NewMEngine)) 1) = StatusFilled"
proof -
  have side: "level_orders (opposite (ex_heap 4) ex_book) = [1] @ 2 # [3]"
    by (simp add: opposite_def ex_book_def ex_book_simps)
  have "fst (engine_match 7 ex_book 4 (ex_heap, NewMEngine)) 2 \<noteq> ex_heap 2"
    using match_resting_qty(1) [OF ex_state(1-3), of 2 20 7 NewMEngine] ex_fills by fastforce
  moreover have "IsActive (ex_heap 1)" by (simp add: IsActive_def ex_book_simps)
  ultimately show ?thesis
    using match_price_time_priority [OF ex_state(1-3) side, of 1] by simp
qed

lemma match_exhausts:
  assumes "book_inv h ob" "book_orders_ok h ob" "qty_ok (h inc)"
    and "r \<in> set (level_orders (opposite (h inc) ob))" "accepts (h inc) (o_Price (h r))"
    and "IsActive (fst (engine_match now ob inc (h, e)) r)"
  shows "o_RemainingQty (fst (engine_match now ob inc (h, e)) inc) = 0"
proof (rule ccontr)
  let ?h = "fst (engine_match now ob inc (h, e))"
  note F = match_fills_facts [OF assms(1-3)]
  assume "o_RemainingQty (?h inc) \<noteq> 0"
  then have "filled (match_fills h ob inc) < o_RemainingQty (h inc)"
    using F(5) match_incoming_qty(2) [OF assms(1-3), of now e] by simp
  then have fs: "match_fills h ob inc = eligible h (accepts (h inc)) (opposite (h inc) ob)"
    by (rule match_fills_exhaust [OF assms(1-3)])
  have "r \<noteq> inc" using assms(4) opposite_outside [OF assms(1), of inc] by auto
  show False
  proof (cases "IsActive (h r)")
    case True
    with assms(4,5) eligible_iff [OF assms(1), of r inc] obtain q where
      q: "(r, q) \<in> set (match_fills h ob inc)" by (auto simp: fs)
    then have "q = o_RemainingQty (h r)" using eligible_order(3) fs by metis
    with match_resting_qty(3) [OF assms(1-3) q] assms(6) show False by (simp add: IsActive_def)
  next
    case False
    then have "r \<notin> fst ` set (match_fills h ob inc)" using F(7) by auto
    with \<open>r \<noteq> inc\<close> False assms(6) engine_match_heap(3) [OF assms(1-3)] show False by simp
  qed
qed

text \<open>C19: A match leaves nothing tradeable behind: afterwards either the incoming order is completely
  filled, or no active order on the opposite side has a price it accepts.\<close>

theorem match_leaves_nothing_tradeable:
  assumes "book_inv h ob" "book_orders_ok h ob" "qty_ok (h inc)"
    and "r \<in> set (level_orders (opposite (h inc) ob))" "accepts (h inc) (o_Price (h r))"
    and "IsActive (fst (engine_match now ob inc (h, e)) r)"
  shows "o_RemainingQty (fst (engine_match now ob inc (h, e)) inc) = 0"
  using assms by (rule match_exhausts)

theorem match_leaves_nothing_tradeable_witness:
  "o_RemainingQty (fst (engine_match 7 ex_book 4 (ex_heap, NewMEngine)) 4) = 0"
proof -
  have side: "2 \<in> set (level_orders (opposite (ex_heap 4) ex_book))"
    by (simp add: opposite_def ex_book_def ex_book_simps)
  have acc: "accepts (ex_heap 4) (o_Price (ex_heap 2))"
    by (simp add: accepts_def above_def ex_book_simps)
  have "o_RemainingQty (ex_heap 2) = 50" by (simp add: ex_book_simps)
  then have "IsActive (fst (engine_match 7 ex_book 4 (ex_heap, NewMEngine)) 2)"
    using match_resting_qty(3) [OF ex_state(1-3), of 2 20 7 NewMEngine] ex_fills
    by (simp add: IsActive_def)
  with match_leaves_nothing_tradeable [OF ex_state(1-3) side acc] show ?thesis by simp
qed

text \<open>A market order never rests: after its match it is either completely filled or
  rejected, whatever part of it has traded.\<close>

lemma market_order_filled_or_rejected:
  assumes "book_inv h ob" "book_orders_ok h ob" "qty_ok (h inc)"
    and "o_OrderType (h inc) = Market" "0 < o_RemainingQty (h inc)" "IsActive (h inc)"
  shows "o_Status (fst (engine_match now ob inc (h, e)) inc) =
    (if o_RemainingQty (fst (engine_match now ob inc (h, e)) inc) = 0 then StatusFilled else StatusRejected)"
proof -
  note F = match_fills_facts [OF assms(1-3)]
  note Q = fill_all_qty [OF assms(3) F(3,5), of now h]
  let ?x = "fill_all now h (match_fills h ob inc) (h inc)"
  have "0 \<le> o_RemainingQty ?x" using Q(1) by (simp add: qty_ok_def)
  moreover have "o_RemainingQty ?x = 0 \<Longrightarrow> o_Status ?x = StatusFilled"
    using Q(2,4) assms(5) by (cases "match_fills h ob inc = []") auto
  moreover have "o_RemainingQty ?x \<noteq> 0 \<Longrightarrow> o_Status ?x \<noteq> StatusFilled"
    using Q(2,4) assms(6) by (cases "match_fills h ob inc = []") (auto simp: IsActive_def split: if_splits)
  ultimately show ?thesis
    using assms(4) by (auto simp: engine_match_heap(1) [OF assms(1-3)] reject_rest_def)
qed

lemma market_order_filled_or_rejected_witness:
  "o_Status (fst (engine_match 7 ex_book 5 (ex_heap, NewMEngine)) 5) = StatusRejected"
proof -
  have inc: "o_OrderType (ex_heap 5) = Market" "0 < o_RemainingQty (ex_heap 5)" "IsActive (ex_heap 5)"
    "o_RemainingQty (ex_heap 5) = 300"
    by (simp_all add: IsActive_def ex_book_simps)
  have "match_fills ex_heap ex_book 5 = [(1, 100), (2, 50), (3, 70)]"
    by (simp add: match_fills_def eligible_def opposite_def accepts_def ex_book_def
        IsActive_def level_orders_def ex_book_simps)
  then have "o_RemainingQty (fst (engine_match 7 ex_book 5 (ex_heap, NewMEngine)) 5) = 80"
    using match_incoming_qty(2) [OF ex_state(1,2,5), of 7 NewMEngine] inc by simp
  then show ?thesis
    using market_order_filled_or_rejected [OF ex_state(1,2,5) inc(1-3), of 7 NewMEngine] by simp
qed

section \<open>Trade identifiers\<close>

text \<open>Trade identifiers never repeat: the trades of a match carry consecutive numbers after the
  engine's counter, so they differ from each other and from every trade numbered before, as long
  as the 64-bit counter does not overflow.\<close>

lemma trade_ids_fresh:
  assumes "0 \<le> e_tradeCounter e" "e_tradeCounter e + int (length (match_fills h ob inc)) < 2 ^ 63"
  shows "distinct (map t_TradeID (match_trades now ob inc (h, e))) \<and>
    (\<forall>t \<in> set (match_trades now ob inc (h, e)). \<forall>n. 0 \<le> n \<and> n \<le> e_tradeCounter e \<longrightarrow>
       t_TradeID t \<noteq> trade_id ob n)"
proof -
  let ?c = "e_tradeCounter e" let ?k = "length (match_fills h ob inc)"
  have "map t_TradeID (match_trades now ob inc (h, e)) = map (\<lambda>k. trade_id ob (?c + int k)) [1..<Suc ?k]"
    using assms trades_of_ids [of e "match_fills h ob inc"] by (simp add: match_trades_def in64_def del: upt_Suc)
  moreover from this have "t_TradeID ` set (match_trades now ob inc (h, e)) =
      (\<lambda>k. trade_id ob (?c + int k)) ` set [1..<Suc ?k]" by (metis list.set_map)
  moreover have "distinct (map (\<lambda>k. trade_id ob (?c + int k)) [1..<Suc ?k])"
    using assms(1) by (auto simp: distinct_map inj_on_def simp del: upt_Suc dest!: trade_id_inj [rotated 2])
  moreover have "trade_id ob (?c + int k) \<noteq> trade_id ob n" if "k \<in> set [1..<Suc ?k]" "0 \<le> n" "n \<le> ?c" for k n
    using that assms(1) trade_id_inj [of "?c + int k" n ob] by (auto simp del: upt_Suc)
  ultimately show ?thesis by (metis (no_types, lifting) imageE imageI)
qed

lemma ex_counter:
  "0 \<le> e_tradeCounter (NewMEngine\<lparr>e_tradeCounter := 41\<rparr>)"
  "e_tradeCounter (NewMEngine\<lparr>e_tradeCounter := 41\<rparr>) = 41"
  "e_tradeCounter (NewMEngine\<lparr>e_tradeCounter := 41\<rparr>) + int (length (match_fills ex_heap ex_book 4)) < 2 ^ 63"
  by (simp_all add: ex_fills)

lemma trade_ids_fresh_witness:
  "''TRD-RELIANCE-41'' \<notin>
     t_TradeID ` set (match_trades 7 ex_book 4 (ex_heap, NewMEngine\<lparr>e_tradeCounter := 41\<rparr>))"
proof -
  have "trade_id ex_book 41 = ''TRD-RELIANCE-41''"
    by (simp add: trade_id_def ex_book_def nat_digits.simps char_of_def bit_iff_odd)
  then show ?thesis
    using trade_ids_fresh [OF ex_counter(1,3), of 7] ex_counter(1,2) by fastforce
qed

end
