(* ===== verification/Engine_System.thy ===== *)
theory Engine_System
  imports Matching_Correct
begin

text \<open>
  One symbol as a transition system: order objects are created, changed until they reach the book,
  added to the book, cancelled, matched by the engine's loop one event at a time, and the trades are
  taken from the trade channel. The operations are those of \<^verbatim>\<open>OrderBook\<close> and of \<^verbatim>\<open>matchLoop\<close>; \<^verbatim>\<open>Add\<close> and \<^verbatim>\<open>Cancel\<close> proceed
  only when the event channel has room, as a blocking send does. Each operation is atomic. The
  orders that enter are those the risk checks admit: a positive quantity and a numeric price.
  Shown by rule induction: the invariants of all reachable states, that bought and sold quantities
  balance, and that a book without pending orders is not crossed; and that the loop drains.
\<close>

section \<open>States and steps\<close>

record Sys =
  s_heap :: heap
  s_book :: OrderBook
  s_engine :: MEngine
  s_next :: addr

definition event_cap :: nat where
  "event_cap = 1000"

definition sys_init :: "string \<Rightarrow> Exchange \<Rightarrow> heap \<Rightarrow> Sys" where
  "sys_init symbol exch h =
     \<lparr>s_heap = h, s_book = NewOrderBook symbol exch, s_engine = engine_Start NewMEngine, s_next = 0\<rparr>"

definition sys_book :: "instant \<Rightarrow> addr \<Rightarrow> Sys \<Rightarrow> Sys" where
  "sys_book now p s =
     (let ((h, ob), _) = ob_Add now p (s_heap s, s_book s) in s\<lparr>s_heap := h, s_book := ob\<rparr>)"

definition sys_cancel :: "instant \<Rightarrow> string \<Rightarrow> Sys \<Rightarrow> Sys" where
  "sys_cancel now oid s =
     (let ((h, ob), _) = ob_Cancel now oid (s_heap s, s_book s)
      in s\<lparr>s_heap := h, s_book := ob\<rparr>)"

definition sys_match :: "instant \<Rightarrow> Sys \<Rightarrow> Sys" where
  "sys_match now s =
     (let (h, ob, e) = matchLoop_step now (s_heap s, s_book s, s_engine s)
      in s\<lparr>s_heap := h, s_book := ob, s_engine := e\<rparr>)"

definition sys_deliver :: "Sys \<Rightarrow> Sys" where
  "sys_deliver s = s\<lparr>s_engine := (s_engine s)\<lparr>e_TradeCh := tl (e_TradeCh (s_engine s))\<rparr>\<rparr>"

definition admitted :: "Order \<Rightarrow> bool" where
  "admitted x \<longleftrightarrow> qty_ok x \<and> o_FilledQty x = 0 \<and> 0 < o_Quantity x \<and> o_Price x \<noteq> NaN"

definition has_room :: "Sys \<Rightarrow> bool" where
  "has_room s \<longleftrightarrow> length (ob_EventCh (s_book s)) < event_cap"

text \<open>
  A new order object; a change to an object that is not in the book, nor in its events, and has not
  traded; and a new object that is added to the book at once.
\<close>

definition sys_other :: "Order \<Rightarrow> Sys \<Rightarrow> Sys" where
  "sys_other x s = s\<lparr>s_heap := (s_heap s)(s_next s := x), s_next := s_next s + 1\<rparr>"

definition sys_touch :: "addr \<Rightarrow> Order \<Rightarrow> Sys \<Rightarrow> Sys" where
  "sys_touch p x s = s\<lparr>s_heap := (s_heap s)(p := x)\<rparr>"

definition sys_place :: "instant \<Rightarrow> Order \<Rightarrow> Sys \<Rightarrow> Sys" where
  "sys_place now x s = sys_book now (s_next s) (sys_other x s)"

text \<open>The objects a book and its events refer to, and the objects that are outside.\<close>

definition refs :: "OrderBook \<Rightarrow> addr set" where
  "refs ob = set (resting ob) \<union> ev_Order ` set (ob_EventCh ob)"

definition sys_idle :: "addr \<Rightarrow> Sys \<Rightarrow> bool" where
  "sys_idle p s \<longleftrightarrow> p < s_next s \<and> p \<notin> refs (s_book s) \<and> o_FilledQty (s_heap s p) = 0"

inductive step :: "Sys \<Rightarrow> Sys \<Rightarrow> bool" where
  other: "ord_ok x \<Longrightarrow> o_FilledQty x = 0 \<Longrightarrow> step s (sys_other x s)"
| touch: "sys_idle p s \<Longrightarrow> ord_ok x \<Longrightarrow> o_FilledQty x = 0 \<Longrightarrow> step s (sys_touch p x s)"
| book: "sys_idle p s \<Longrightarrow> admitted (s_heap s p) \<Longrightarrow> has_room s \<Longrightarrow> step s (sys_book now p s)"
| cancel: "has_room s \<Longrightarrow> step s (sys_cancel now oid s)"
| matched: "step s (sys_match now s)"
| deliver: "e_TradeCh (s_engine s) \<noteq> [] \<Longrightarrow> step s (sys_deliver s)"

inductive reachable :: "Sys \<Rightarrow> bool" where
  init: "reachable (sys_init symbol exch h)"
| step: "reachable s \<Longrightarrow> step s s' \<Longrightarrow> reachable s'"

inductive_cases stepE: "step s s'"

section \<open>Invariants\<close>

definition pending :: "addr \<Rightarrow> OrderBook \<Rightarrow> bool" where
  "pending p ob \<longleftrightarrow> (\<exists>ev \<in> set (ob_EventCh ob). ev_Type ev = EventNewOrder \<and> ev_Order ev = p)"

text \<open>Active orders cross only while one of them still waits for its match.\<close>

definition crossing :: "heap \<Rightarrow> OrderBook \<Rightarrow> addr \<Rightarrow> addr \<Rightarrow> bool" where
  "crossing h ob b a \<longleftrightarrow> b \<in> set (level_orders (ob_bids ob)) \<and> a \<in> set (level_orders (ob_asks ob)) \<and>
     IsActive (h b) \<and> IsActive (h a) \<and> fle (o_Price (h a)) (o_Price (h b))"

definition crossed_pending :: "heap \<Rightarrow> OrderBook \<Rightarrow> bool" where
  "crossed_pending h ob \<longleftrightarrow> (\<forall>b a. crossing h ob b a \<longrightarrow> pending b ob \<or> pending a ob)"

text \<open>Quantity filled so far on one side, over all orders ever placed.\<close>

definition side_filled :: "bool \<Rightarrow> heap \<Rightarrow> addr \<Rightarrow> int" where
  "side_filled buy h n = (\<Sum>p\<leftarrow>[0..<n]. if is_buy (h p) = buy then o_FilledQty (h p) else 0)"

definition heap_ok :: "heap \<Rightarrow> OrderBook \<Rightarrow> addr \<Rightarrow> bool" where
  "heap_ok h ob n \<longleftrightarrow> (\<forall>p < n. ord_ok (h p)) \<and> (\<forall>p \<in> set (resting ob). p < n) \<and>
     (\<forall>ev \<in> set (ob_EventCh ob). ev_Order ev < n)"

definition sys_inv :: "Sys \<Rightarrow> bool" where
  "sys_inv s \<longleftrightarrow> book_inv (s_heap s) (s_book s) \<and> heap_ok (s_heap s) (s_book s) (s_next s) \<and>
     crossed_pending (s_heap s) (s_book s) \<and>
     side_filled True (s_heap s) (s_next s) = side_filled False (s_heap s) (s_next s)"

lemma heap_ok_book: "heap_ok h ob n \<Longrightarrow> book_orders_ok h ob"
  by (auto simp: heap_ok_def book_orders_ok_def)

lemma sys_inv_init: "sys_inv (sys_init symbol exch h)"
  by (simp add: sys_inv_def sys_init_def book_inv_NewOrderBook heap_ok_def crossed_pending_def
      crossing_def side_filled_def) (simp add: NewOrderBook_def)

lemma side_filled_Suc:
  "side_filled buy h (Suc n) = side_filled buy h n + (if is_buy (h n) = buy then o_FilledQty (h n) else 0)"
  by (simp add: side_filled_def)

lemma side_filled_cong:
  "(\<And>p. p < n \<Longrightarrow> is_buy (h p) = is_buy (h' p) \<and> o_FilledQty (h p) = o_FilledQty (h' p)) \<Longrightarrow>
   side_filled buy h n = side_filled buy h' n"
  unfolding side_filled_def by (rule arg_cong [where f = sum_list]) auto

lemma side_filled_unfilled:
  assumes "o_FilledQty (h p) = 0" "o_FilledQty x = 0"
  shows "side_filled buy (h(p := x)) n = side_filled buy h n"
  unfolding side_filled_def by (rule arg_cong [where f = sum_list]) (use assms in auto)

text \<open>How a step keeps the crossing invariant: a new crossing pair must be pending.\<close>

lemma crossed_pending_step:
  assumes "crossed_pending h ob"
    and "\<And>b a. crossing h' ob' b a \<Longrightarrow> \<not> pending b ob' \<Longrightarrow> \<not> pending a ob' \<Longrightarrow>
      crossing h ob b a \<and> \<not> pending b ob \<and> \<not> pending a ob"
  shows "crossed_pending h' ob'"
  using assms unfolding crossed_pending_def by blast

lemma crossing_mono:
  assumes "crossing h' ob' b a"
    and "b \<in> set (level_orders (ob_bids ob'))\<Longrightarrow> b \<in> set (level_orders (ob_bids ob))"
    and "a \<in> set (level_orders (ob_asks ob')) \<Longrightarrow> a \<in> set (level_orders (ob_asks ob))"
    and "\<And>p. p \<in> {a, b} \<Longrightarrow> IsActive (h' p) \<Longrightarrow> IsActive (h p)"
    and "\<And>p. p \<in> {a, b} \<Longrightarrow> o_Price (h' p) = o_Price (h p)"
  shows "crossing h ob b a"
  using assms(1) assms(2-3) assms(4) [of a] assms(4) [of b] assms(5) [of a] assms(5) [of b]
  by (simp add: crossing_def)

section \<open>Placing\<close>

lemma sys_book_cases:
  obtains (exists) "ob_orders (s_book s) (o_OrderID (s_heap s p)) \<noteq> None" "sys_book now p s = s"
  | (fresh) h ob where "ob_orders (s_book s) (o_OrderID (s_heap s p)) = None"
      "ob_Add now p (s_heap s, s_book s) = ((h, ob), None)"
      "h = (s_heap s)(p := UpdateStatus now StatusOpen ''Order placed on book'' (s_heap s p))"
      "sys_book now p s = s\<lparr>s_heap := h, s_book := ob\<rparr>"
proof (cases "ob_orders (s_book s) (o_OrderID (s_heap s p)) = None")
  case True
  then show thesis
    using fresh ob_Add_fresh [where p = p and h = "s_heap s" and ob = "s_book s" and now = now]
    by (simp add: sys_book_def Let_def)
next
  case False
  then show thesis
    using exists ob_Add_exists [where p = p and h = "s_heap s" and ob = "s_book s" and now = now]
    by (simp add: sys_book_def Let_def)
qed

lemma Add_orders:
  assumes "ob_orders ob (o_OrderID (h p)) = None" "ob_Add now p (h, ob) = ((h', ob'), None)"
  shows "set (level_orders (ob_bids ob')) \<subseteq> insert p (set (level_orders (ob_bids ob)))"
    and "set (level_orders (ob_asks ob')) \<subseteq> insert p (set (level_orders (ob_asks ob)))"
    and "ob_EventCh ob' = ob_EventCh ob @ [\<lparr>ev_Type = EventNewOrder, ev_Order = p, ev_Timestamp = now\<rparr>]"
  using assms(2) unfolding ob_Add_fresh [where h = h and p = p, OF assms(1)]
  by (auto simp: Let_def bids.set_add asks.set_add split: if_splits)

lemma sys_inv_other:
  assumes inv: "sys_inv s" and x: "ord_ok x" "o_FilledQty x = 0"
  shows "sys_inv (sys_other x s)"
proof -
  let ?n = "s_next s" let ?h = "(s_heap s)(?n := x)"
  have out: "\<forall>p \<in> set (resting (s_book s)). p < ?n" using inv by (simp add: sys_inv_def heap_ok_def)
  have "book_inv ?h (s_book s)"
    by (rule book_inv_cong [of "s_heap s"]) (use inv out in \<open>auto simp: sys_inv_def\<close>)
  moreover have "crossing (s_heap s) (s_book s) b a" if "crossing ?h (s_book s) b a" for b a
  proof -
    from that out have "a \<noteq> ?n" "b \<noteq> ?n" by (auto simp: crossing_def)
    then show ?thesis by (intro crossing_mono [OF that]) auto
  qed
  then have "crossed_pending ?h (s_book s)"
    using inv crossed_pending_step [of "s_heap s" "s_book s"] unfolding sys_inv_def by blast
  moreover have "side_filled buy ?h (Suc ?n) = side_filled buy (s_heap s) ?n" for buy
    using x side_filled_cong [of ?n ?h "s_heap s" buy] by (simp add: side_filled_Suc)
  ultimately show ?thesis using inv x by (auto simp: sys_inv_def sys_other_def heap_ok_def less_Suc_eq)
qed

lemma admitted_ord_ok: "admitted x \<Longrightarrow> ord_ok x" "admitted x \<Longrightarrow> o_FilledQty x = 0"
  by (auto simp: admitted_def ord_ok_def qty_ok_def)

lemma sys_inv_touch:
  assumes inv: "sys_inv s" and p: "sys_idle p s" and x: "ord_ok x" "o_FilledQty x = 0"
  shows "sys_inv (sys_touch p x s)"
proof -
  let ?h = "(s_heap s)(p := x)"
  have out: "p \<notin> set (resting (s_book s))" using p by (simp add: sys_idle_def refs_def)
  have "book_inv ?h (s_book s)"
    by (rule book_inv_cong [of "s_heap s"]) (use inv out in \<open>auto simp: sys_inv_def\<close>)
  moreover have "crossing (s_heap s) (s_book s) b a" if "crossing ?h (s_book s) b a" for b a
  proof -
    from that out have "a \<noteq> p" "b \<noteq> p" by (auto simp: crossing_def)
    then show ?thesis by (intro crossing_mono [OF that]) auto
  qed
  then have "crossed_pending ?h (s_book s)"
    using inv crossed_pending_step [of "s_heap s" "s_book s"] unfolding sys_inv_def by blast
  moreover have "side_filled buy ?h (s_next s) = side_filled buy (s_heap s) (s_next s)" for buy
    by (rule side_filled_unfilled) (use p x in \<open>auto simp: sys_idle_def\<close>)
  ultimately show ?thesis using inv x by (auto simp: sys_inv_def sys_touch_def heap_ok_def)
qed

lemma sys_inv_book:
  assumes inv: "sys_inv s" and p: "sys_idle p s" and x: "admitted (s_heap s p)"
  shows "sys_inv (sys_book now p s)"
proof (cases rule: sys_book_cases [where s = s and p = p and now = now])
  case exists
  with inv show ?thesis by simp
next
  case (fresh h ob)
  note A = Add_orders [OF fresh(1,2)]
  have out: "p \<notin> set (resting (s_book s))" "p < s_next s" using p by (simp_all add: sys_idle_def refs_def)
  have book: "book_inv h ob"
    using book_inv_Add [of "s_heap s" "s_book s" p now] fresh(2) out x inv by (auto simp: admitted_def sys_inv_def)
  have new: "ord_ok (h p)" using x by (auto simp: fresh(3) admitted_def ord_ok_def qty_ok_def)
  have "pending p ob" "\<And>q. pending q (s_book s) \<Longrightarrow> pending q ob" by (auto simp: pending_def A(3))
  moreover have "crossing (s_heap s) (s_book s) b a" if "crossing h ob b a" "b \<noteq> p" "a \<noteq> p" for b a
    by (rule crossing_mono [OF that(1)]) (use that(2,3) A(1,2) in \<open>auto simp: fresh(3)\<close>)
  ultimately have cross: "crossed_pending h ob"
    using inv crossed_pending_step [of "s_heap s" "s_book s"] unfolding sys_inv_def by blast
  have balance: "side_filled buy h (s_next s) = side_filled buy (s_heap s) (s_next s)" for buy
    by (rule side_filled_cong) (simp add: fresh(3))
  have old: "\<forall>q \<in> set (resting (s_book s)). q < s_next s" using inv by (simp add: sys_inv_def heap_ok_def)
  have "q < s_next s" if "q \<in> set (resting ob)" for q
    using that A(1,2) old out(2) unfolding set_append by blast
  moreover have "\<forall>ev \<in> set (ob_EventCh ob). ev_Order ev < s_next s"
    using A(3) inv out(2) by (auto simp: sys_inv_def heap_ok_def)
  moreover have "\<forall>q < s_next s. ord_ok (h q)"
    using inv new by (auto simp: sys_inv_def heap_ok_def fresh(3))
  ultimately have "heap_ok h ob (s_next s)" by (simp add: heap_ok_def)
  with book cross balance inv show ?thesis by (simp add: fresh(4) sys_inv_def)
qed

section \<open>Cancelling\<close>

lemma Cancel_orders:
  assumes "book_inv h ob" "ob_Cancel now oid (h, ob) = ((h', ob'), err)"
  shows "set (level_orders (ob_bids ob')) \<subseteq> set (level_orders (ob_bids ob))"
    and "set (level_orders (ob_asks ob')) \<subseteq> set (level_orders (ob_asks ob))"
    and "set (ob_EventCh ob) \<subseteq> set (ob_EventCh ob')"
    and "ev \<in> set (ob_EventCh ob') \<Longrightarrow> ev \<in> set (ob_EventCh ob) \<or> ev_Order ev \<in> set (resting ob)"
    and "h' p = h p \<or> h' p = UpdateStatus now StatusCancelled ''Cancelled by user'' (h p)"
proof -
  have "set (level_orders (ob_bids ob')) \<subseteq> set (level_orders (ob_bids ob)) \<and>
    set (level_orders (ob_asks ob')) \<subseteq> set (level_orders (ob_asks ob)) \<and>
    set (ob_EventCh ob) \<subseteq> set (ob_EventCh ob') \<and>
    (ev \<in> set (ob_EventCh ob') \<longrightarrow> ev \<in> set (ob_EventCh ob) \<or> ev_Order ev \<in> set (resting ob)) \<and>
    (h' p = h p \<or> h' p = UpdateStatus now StatusCancelled ''Cancelled by user'' (h p))"
  proof (cases "\<exists>q. ob_orders ob oid = Some q \<and> IsActive (h q)")
    case False
    then have "fst (ob_Cancel now oid (h, ob)) = (h, ob)" by (auto simp: ob_Cancel_def split: option.splits)
    with assms(2) show ?thesis by simp
  next
    case True
    then obtain q where q: "ob_orders ob oid = Some q" "IsActive (h q)" by blast
    then have r: "q \<in> set (resting ob)" using book_invD(4) [OF assms(1)] by simp
    note R = book_inv_remove [OF assms(1) r]
    show ?thesis
      using assms(2) R r set_remove1_subset [of q "level_orders (ob_bids ob)"]
        set_remove1_subset [of q "level_orders (ob_asks ob)"]
      unfolding ob_Cancel_ok [where h = h and p = q, OF q] by (cases "is_buy (h q)") auto
  qed
  then show "set (level_orders (ob_bids ob')) \<subseteq> set (level_orders (ob_bids ob))"
    "set (level_orders (ob_asks ob')) \<subseteq> set (level_orders (ob_asks ob))"
    "set (ob_EventCh ob) \<subseteq> set (ob_EventCh ob')"
    "ev \<in> set (ob_EventCh ob') \<Longrightarrow> ev \<in> set (ob_EventCh ob) \<or> ev_Order ev \<in> set (resting ob)"
    "h' p = h p \<or> h' p = UpdateStatus now StatusCancelled ''Cancelled by user'' (h p)"
    by blast+
qed

lemma sys_inv_cancel:
  assumes inv: "sys_inv s"
  shows "sys_inv (sys_cancel now oid s)"
proof -
  obtain h ob err where st: "ob_Cancel now oid (s_heap s, s_book s) = ((h, ob), err)"
    by (metis prod.collapse)
  have book: "book_inv (s_heap s) (s_book s)" using inv by (simp add: sys_inv_def)
  note C = Cancel_orders [OF book st]
  have status: "IsActive (h p) \<Longrightarrow> IsActive (s_heap s p)" "o_Price (h p) = o_Price (s_heap s p)"
    "is_buy (h p) = is_buy (s_heap s p)" "o_FilledQty (h p) = o_FilledQty (s_heap s p)"
    "ord_ok (s_heap s p) \<Longrightarrow> ord_ok (h p)" for p
    using C(5) [of p] by (auto simp: IsActive_def ord_ok_def)
  have "book_inv h ob" using book_inv_Cancel [OF book, of now oid] st by simp
  moreover have "heap_ok h ob (s_next s)"
    using inv C(1,2,4) status(5) by (fastforce simp: sys_inv_def heap_ok_def)
  moreover have "crossed_pending h ob"
  proof (rule crossed_pending_step)
    show "crossed_pending (s_heap s) (s_book s)" using inv by (simp add: sys_inv_def)
    have "pending p (s_book s) \<Longrightarrow> pending p ob" for p using C(3) by (auto simp: pending_def)
    moreover have "crossing (s_heap s) (s_book s) b a" if "crossing h ob b a" for b a
      by (rule crossing_mono [OF that]) (use C(1,2) status(1,2) in auto)
    ultimately show "crossing (s_heap s) (s_book s) b a \<and> \<not> pending b (s_book s) \<and> \<not> pending a (s_book s)"
      if "crossing h ob b a" "\<not> pending b ob" "\<not> pending a ob" for b a
      using that by blast
  qed
  moreover have "side_filled buy h (s_next s) = side_filled buy (s_heap s) (s_next s)" for buy
    using status(3,4) by (intro side_filled_cong) auto
  ultimately show ?thesis using inv st by (simp add: sys_cancel_def sys_inv_def)
qed

section \<open>Matching\<close>

lemma side_filled_match:
  assumes inv: "book_inv h ob" "book_orders_ok h ob" "qty_ok (h inc)" "inc < n"
    and rest: "\<forall>p \<in> set (resting ob). p < n"
  shows "side_filled buy (fst (engine_match now ob inc (h, e))) n =
    side_filled buy h n + filled (match_fills h ob inc)"
proof -
  let ?h = "fst (engine_match now ob inc (h, e))" let ?fs = "match_fills h ob inc"
  let ?d = "\<lambda>p. if is_buy (h p) = buy then o_FilledQty (?h p) - o_FilledQty (h p) else 0"
  note F = match_fills_facts [OF inv(1-3)]
  have side: "is_buy (?h p) = is_buy (h p)" for p
    using engine_match_key [OF inv(1-3), of p now e] by (simp add: same_key_def)
  have other: "is_buy (h r) \<noteq> is_buy (h inc)" "r < n" if "(r, q) \<in> set ?fs" for r q
    using F(6) [OF that] rest side_ok_orders [OF book_invD(1) [OF inv(1)], of r]
      side_ok_orders [OF book_invD(2) [OF inv(1)], of r]
    by (auto simp: opposite_def split: if_splits)
  have same: "?h p = h p" if "p \<noteq> inc" "p \<notin> fst ` set ?fs" for p
    using that engine_match_heap(3) [OF inv(1-3)] by blast
  have "(\<Sum>p\<leftarrow>[0..<n]. ?d p) = filled ?fs"
  proof (cases "is_buy (h inc) = buy")
    case True
    have "(\<Sum>p\<leftarrow>[0..<n]. ?d p) = filled [(inc, filled ?fs)]"
    proof (rule fills_total)
      show "?d r = q" if "(r, q) \<in> set [(inc, filled ?fs)]" for r q
        using that True match_incoming_qty(1) [OF inv(1-3)] by simp
      show "?d r = 0" if "r \<notin> fst ` set [(inc, filled ?fs)]" for r
      proof (cases "r \<in> fst ` set ?fs")
        case r: True
        then have "is_buy (h r) \<noteq> is_buy (h inc)" using other(1) by auto
        with True show ?thesis by auto
      qed (use that same [of r] in simp)
    qed (use inv(4) in auto)
    then show ?thesis by simp
  next
    case False
    show ?thesis
    proof (rule fills_total [OF F(1)])
      show "?d r = q" if "(r, q) \<in> set ?fs" for r q
        using False other(1) [OF that] match_resting_qty(2) [OF inv(1-3) that] by auto
      show "?d r = 0" if "r \<notin> fst ` set ?fs" for r
        using False same [OF _ that] by (cases "r = inc") auto
    qed (use other in auto)
  qed
  moreover have "side_filled buy ?h n - side_filled buy h n = (\<Sum>p\<leftarrow>[0..<n]. ?d p)"
    unfolding side_filled_def sum_list_subtractf [symmetric]
    by (rule arg_cong [where f = sum_list]) (simp add: side)
  ultimately show ?thesis by simp
qed

lemma match_active:
  assumes "book_inv h ob" "book_orders_ok h ob" "qty_ok (h inc)" "p \<noteq> inc"
    and "IsActive (fst (engine_match now ob inc (h, e)) p)"
  shows "IsActive (h p)"
  using assms(1-3)
proof (cases rule: engine_match_cases [where p = p and e = e and now = now])
  case (traded q)
  then show ?thesis using match_fills_facts(7) [OF assms(1-3)] by blast
qed (use assms(4,5) in auto)

text \<open>After its match an order crosses no active order of the other side.\<close>

lemma match_uncrosses:
  assumes inv: "book_inv h ob" "book_orders_ok h ob" "ord_ok (h inc)"
    and r: "r \<in> set (level_orders (opposite (h inc) ob))" "accepts (h inc) (o_Price (h r))"
    and active: "IsActive (fst (engine_match now ob inc (h, e)) r)"
  shows "\<not> IsActive (fst (engine_match now ob inc (h, e)) inc)"
proof -
  let ?h = "fst (engine_match now ob inc (h, e))"
  have "o_RemainingQty (?h inc) = 0"
    by (rule match_exhausts [OF inv(1,2) _ r active]) (use inv(3) in \<open>simp add: ord_ok_def\<close>)
  moreover have "ord_ok (?h inc)" using ord_ok_match [OF inv] inv(3) by blast
  ultimately show ?thesis by (auto simp: ord_ok_def)
qed

lemma crossing_incoming:
  assumes "book_inv h ob" "crossing h' ob b a" "inc \<in> {a, b}" "\<And>p. same_key (h p) (h' p)"
  shows "\<exists>r \<in> {a, b}. r \<in> set (level_orders (opposite (h inc) ob)) \<and> accepts (h inc) (o_Price (h r)) \<and>
    IsActive (h' r)"
proof -
  from assms(2) have "b \<in> set (level_orders (ob_bids ob))" "a \<in> set (level_orders (ob_asks ob))"
    by (simp_all add: crossing_def)
  moreover from this have "is_buy (h b)" "\<not> is_buy (h a)"
    using side_ok_orders [OF book_invD(1) [OF assms(1)], of b]
      side_ok_orders [OF book_invD(2) [OF assms(1)], of a] by auto
  moreover have "IsActive (h' a)" "IsActive (h' b)" "fle (o_Price (h a)) (o_Price (h b))"
    using assms(2) assms(4) [of a] assms(4) [of b] by (simp_all add: crossing_def same_key_def)
  moreover from this(3) have "\<not> flt (o_Price (h b)) (o_Price (h a))" by (auto simp: fle_iff flt_iff)
  ultimately show ?thesis
    using assms(3) by (auto simp: opposite_def accepts_def above_def below_def)
qed

lemma sys_inv_match:
  assumes inv: "sys_inv s"
  shows "sys_inv (sys_match now s)"
proof (cases "ob_EventCh (s_book s)")
  case Nil
  then have "sys_match now s = s" by (simp add: sys_match_def matchLoop_step_def)
  with inv show ?thesis by simp
next
  case (Cons ev evs)
  let ?h = "s_heap s" let ?ob = "s_book s\<lparr>ob_EventCh := evs\<rparr>"
  have pend: "pending p (s_book s) \<longleftrightarrow> pending p ?ob \<or> ev_Type ev = EventNewOrder \<and> ev_Order ev = p" for p
    by (auto simp: pending_def Cons)
  have book: "book_inv ?h ?ob" using inv by (simp add: sys_inv_def book_inv_def)
  have ok: "heap_ok ?h ?ob (s_next s)" and ev: "ev_Order ev < s_next s"
    using inv by (simp_all add: sys_inv_def heap_ok_def Cons)
  have cross: "crossing h ?ob b a \<longleftrightarrow> crossing h (s_book s) b a" for h b a by (simp add: crossing_def)
  show ?thesis
  proof (cases "ev_Type ev = EventNewOrder")
    case False
    then have "sys_match now s = s\<lparr>s_book := ?ob\<rparr>" by (simp add: sys_match_def matchLoop_step_def Cons)
    moreover have "crossed_pending ?h ?ob"
      using inv False by (simp add: sys_inv_def crossed_pending_def cross pend)
    ultimately show ?thesis using inv book ok by (simp add: sys_inv_def)
  next
    case True
    let ?inc = "ev_Order ev"
    obtain h e where st: "engine_match now ?ob ?inc (?h, s_engine s) = (h, e)" by fastforce
    then have h: "h = fst (engine_match now ?ob ?inc (?h, s_engine s))" by simp
    have inc: "ord_ok (?h ?inc)" "qty_ok (?h ?inc)" using ok ev by (auto simp: heap_ok_def ord_ok_def)
    note B = book heap_ok_book [OF ok] inc(2)
    have key: "same_key (?h p) (h p)" for p unfolding h by (rule engine_match_key [OF B])
    have "book_inv h ?ob" unfolding h by (rule book_inv_match [OF B])
    moreover have "heap_ok h ?ob (s_next s)"
      using ok ord_ok_match [OF B(1,2) inc(1)] by (auto simp: heap_ok_def h)
    moreover have "side_filled buy h (s_next s) = side_filled buy ?h (s_next s) + filled (match_fills ?h ?ob ?inc)" for buy
      using ok ev unfolding h by (intro side_filled_match [OF B]) (simp_all add: heap_ok_def)
    moreover have "crossed_pending h ?ob"
    proof (rule crossed_pending_step)
      show "crossed_pending ?h (s_book s)" using inv by (simp add: sys_inv_def)
      fix b a assume c: "crossing h ?ob b a" and np: "\<not> pending b ?ob" "\<not> pending a ?ob"
      have out: "?inc \<notin> {a, b}"
      proof
        assume "?inc \<in> {a, b}"
        from crossing_incoming [OF book c this key] match_uncrosses [OF B(1,2) inc(1), of _ now "s_engine s", folded h]
        have "\<not> IsActive (h ?inc)" by blast
        with c \<open>?inc \<in> {a, b}\<close> show False by (auto simp: crossing_def)
      qed
      have "crossing ?h (s_book s) b a"
      proof (rule crossing_mono [OF c])
        show "IsActive (h p) \<Longrightarrow> IsActive (?h p)" if "p \<in> {a, b}" for p
          using match_active [OF B, of p now "s_engine s", folded h] that out by blast
        show "o_Price (h p) = o_Price (?h p)" for p using key [of p] by (simp add: same_key_def)
      qed simp_all
      then show "crossing ?h (s_book s) b a \<and> \<not> pending b (s_book s) \<and> \<not> pending a (s_book s)"
        using np out by (simp add: pend)
    qed
    moreover have "sys_match now s = s\<lparr>s_heap := h, s_book := ?ob, s_engine := e\<rparr>"
      using True st by (simp add: sys_match_def matchLoop_step_def Cons)
    ultimately show ?thesis using inv by (simp add: sys_inv_def)
  qed
qed

lemma sys_inv_step: "step s s' \<Longrightarrow> sys_inv s \<Longrightarrow> sys_inv s'"
  by (auto elim!: stepE intro: sys_inv_other sys_inv_touch sys_inv_book sys_inv_cancel sys_inv_match)
    (simp add: sys_deliver_def sys_inv_def)

lemma reachable_inv: "reachable s \<Longrightarrow> sys_inv s"
  by (induction rule: reachable.induct) (auto intro: sys_inv_init sys_inv_step)

text \<open>Creating an object and adding it to the book, one step after the other.\<close>

lemma sys_idle_new:
  assumes "sys_inv s" "o_FilledQty x = 0"
  shows "sys_idle (s_next s) (sys_other x s)"
  using assms by (auto simp: sys_idle_def sys_other_def refs_def sys_inv_def heap_ok_def)

lemma reachable_place:
  assumes "reachable s" "admitted x" "has_room s"
  shows "reachable (sys_place now x s)"
proof -
  have "reachable (sys_other x s)"
    by (rule reachable.step [OF assms(1) step.other]) (use admitted_ord_ok [OF assms(2)] in auto)
  moreover have "sys_idle (s_next s) (sys_other x s)"
    by (rule sys_idle_new [OF reachable_inv [OF assms(1)] admitted_ord_ok(2) [OF assms(2)]])
  ultimately show ?thesis unfolding sys_place_def
    by (rule reachable.step [OF _ step.book]) (use assms in \<open>simp_all add: sys_other_def has_room_def\<close>)
qed

section \<open>Properties of all reachable states\<close>

text \<open>An execution: a resting sell, then a buy above it, placed and matched.\<close>

definition ex_sys0 :: Sys where
  "ex_sys0 = sys_init ''RELIANCE'' NSE (\<lambda>_. NewOrder 0 [] [])"

definition ex_new_order :: "string \<Rightarrow> OrderSide \<Rightarrow> rat \<Rightarrow> int \<Rightarrow> Order" where
  "ex_new_order oid side price qty = (ex_limit oid ''C1'' side price qty)\<lparr>o_Status := StatusPending\<rparr>"

definition ex_sys1 :: Sys where
  "ex_sys1 = sys_match 3 (sys_place 2 (ex_new_order ''S1'' Sell 2500 100) ex_sys0)"

definition ex_sys2 :: Sys where
  "ex_sys2 = sys_place 4 (ex_new_order ''B1'' Buy 2505 120) ex_sys1"

definition ex_sys3 :: Sys where
  "ex_sys3 = sys_match 5 ex_sys2"

lemma ex_new_order_simps [simp]:
  "o_OrderID (ex_new_order i s p q) = i" "o_Side (ex_new_order i s p q) = s"
  "o_ClientID (ex_new_order i s p q) = ''C1''"
  "o_Price (ex_new_order i s p q) = Fin p" "o_Quantity (ex_new_order i s p q) = q"
  "o_RemainingQty (ex_new_order i s p q) = q" "o_FilledQty (ex_new_order i s p q) = 0"
  "o_OrderType (ex_new_order i s p q) = Limit"
  by (simp_all add: ex_new_order_def ex_limit_def NewOrder_def)

lemma Buy_Sell [simp]: "Buy \<noteq> Sell" "Sell \<noteq> Buy" "Limit \<noteq> Market" "Market \<noteq> Limit"
  by (simp_all add: go_constants)

lemmas sys_eval = sys_init_def sys_place_def sys_other_def sys_book_def sys_match_def sys_cancel_def NewOrderBook_def
  NewMEngine_def engine_Start_def ob_Add_def matchLoop_step_def engine_match_def matchLimitOrder_def
  matchMarketOrder_def AskLevels_def BidLevels_def send_event_def new_level_def append_order_def
  Let_def IsActive_def feq_def above_def below_def never_def

lemma ex_admitted:
  "admitted (ex_new_order ''S1'' Sell 2500 100)" "admitted (ex_new_order ''B1'' Buy 2505 120)"
  by (simp_all add: admitted_def ex_new_order_def ex_limit_def NewOrder_def qty_ok_def in64_def)

lemma ex_sys1:
  "ob_EventCh (s_book ex_sys1) = []" "level_orders (ob_asks (s_book ex_sys1)) = [0]"
  by (simp_all add: ex_sys1_def ex_sys0_def sys_eval)

lemma ex_sys2_events: "length (ob_EventCh (s_book ex_sys2)) = 1" "s_next ex_sys2 = 2"
  by (simp_all add: ex_sys2_def ex_sys1_def ex_sys0_def sys_eval)

lemma ex_reachable: "reachable ex_sys1" "reachable ex_sys2" "reachable ex_sys3"
proof -
  have room: "has_room ex_sys0" "has_room ex_sys1"
    by (simp_all add: has_room_def event_cap_def ex_sys1) (simp add: ex_sys0_def sys_eval)
  have "reachable ex_sys0" unfolding ex_sys0_def by (rule reachable.init)
  then show "reachable ex_sys1" unfolding ex_sys1_def
    using reachable_place [OF _ ex_admitted(1) room(1)] step.matched by (blast intro: reachable.step)
  then show "reachable ex_sys2" unfolding ex_sys2_def
    using reachable_place [OF _ ex_admitted(2) room(2)] by blast
  then show "reachable ex_sys3" unfolding ex_sys3_def using step.matched by (blast intro: reachable.step)
qed

text \<open>C20: In every reachable state of a symbol, whatever the interleaving of placements, cancellations
  and matches: the book is well formed, and every order ever placed has non-negative filled and
  remaining quantities that add up to its quantity, with something remaining while it is active.\<close>

theorem reachable_states_sound:
  assumes "reachable s"
  shows "book_inv (s_heap s) (s_book s) \<and> (\<forall>p < s_next s. ord_ok (s_heap s p))"
  using reachable_inv [OF assms] by (simp add: sys_inv_def heap_ok_def)

theorem reachable_states_sound_witness:
  "book_inv (s_heap ex_sys3) (s_book ex_sys3) \<and> ord_ok (s_heap ex_sys3 1)"
proof -
  have "s_next ex_sys3 = 2" by (simp add: ex_sys3_def sys_match_def ex_sys2_events split: prod.split)
  with reachable_states_sound [OF ex_reachable(3)] show ?thesis by simp
qed

text \<open>C3: A book whose new orders have all been processed is not crossed: no active buy order rests at
  a price at or above that of an active sell order.\<close>

theorem quiescent_book_not_crossed:
  assumes "reachable s" "\<forall>ev \<in> set (ob_EventCh (s_book s)). ev_Type ev \<noteq> EventNewOrder"
    and "b \<in> set (level_orders (ob_bids (s_book s)))" "a \<in> set (level_orders (ob_asks (s_book s)))"
    and "IsActive (s_heap s b)" "IsActive (s_heap s a)"
  shows "\<not> fle (o_Price (s_heap s a)) (o_Price (s_heap s b))"
  using reachable_inv [OF assms(1)] assms(2-)
  unfolding sys_inv_def crossed_pending_def crossing_def pending_def by blast

definition ex_sys4 :: Sys where
  "ex_sys4 = sys_match 5 (sys_match 4 (sys_place 3 (ex_new_order ''S2'' Sell 2510 50)
     (sys_place 2 (ex_new_order ''B1'' Buy 2505 120) ex_sys0)))"

lemma ex_sys4_room: "has_room ex_sys0" "has_room (sys_place 2 (ex_new_order ''B1'' Buy 2505 120) ex_sys0)"
  by (simp_all add: has_room_def event_cap_def ex_sys0_def sys_eval)

lemma ex_sys4_facts:
  "ob_EventCh (s_book ex_sys4) = []"
  "0 \<in> set (level_orders (ob_bids (s_book ex_sys4)))" "1 \<in> set (level_orders (ob_asks (s_book ex_sys4)))"
  "IsActive (s_heap ex_sys4 0)" "IsActive (s_heap ex_sys4 1)"
  by (simp_all add: ex_sys4_def ex_sys0_def sys_eval)

lemma ex_reachable4: "reachable ex_sys4"
proof -
  have "admitted (ex_new_order ''S2'' Sell 2510 50)"
    by (simp add: admitted_def ex_new_order_def ex_limit_def NewOrder_def qty_ok_def in64_def)
  moreover have "reachable ex_sys0" unfolding ex_sys0_def by (rule reachable.init)
  ultimately show ?thesis
    unfolding ex_sys4_def
    by (intro reachable.step [OF _ step.matched] reachable_place ex_admitted ex_sys4_room)
qed

theorem quiescent_book_not_crossed_witness:
  "\<not> fle (o_Price (s_heap ex_sys4 1)) (o_Price (s_heap ex_sys4 0))"
  by (rule quiescent_book_not_crossed [OF ex_reachable4 _ ex_sys4_facts(2-5)]) (simp add: ex_sys4_facts(1))

text \<open>C4: Everything bought was sold: in every reachable state the filled quantities of all buy orders
  ever placed and of all sell orders ever placed have the same total.\<close>

theorem bought_equals_sold:
  assumes "reachable s"
  shows "side_filled True (s_heap s) (s_next s) = side_filled False (s_heap s) (s_next s)"
  using reachable_inv [OF assms] by (simp add: sys_inv_def)

theorem bought_equals_sold_witness:
  "side_filled True (s_heap ex_sys3) (s_next ex_sys3) = side_filled False (s_heap ex_sys3) (s_next ex_sys3)"
  by (rule bought_equals_sold [OF ex_reachable(3)])

section \<open>Draining\<close>

lemma sys_match_events: "ob_EventCh (s_book (sys_match now s)) = tl (ob_EventCh (s_book s))"
  by (cases "ob_EventCh (s_book s)") (auto simp: sys_match_def matchLoop_step_def Let_def case_prod_unfold)

lemma sys_match_funpow_events:
  "ob_EventCh (s_book ((sys_match now ^^ n) s)) = drop n (ob_EventCh (s_book s))"
  by (induction n) (auto simp: sys_match_events tl_drop drop_Suc)

lemma reachable_funpow: "reachable s \<Longrightarrow> reachable ((sys_match now ^^ n) s)"
  by (induction n) (auto intro: reachable.step step.matched)

text \<open>C22: The matching loop catches up: from any reachable state, as many iterations as there are queued
  events empty the queue, and the book is then not crossed.\<close>

theorem match_loop_catches_up:
  assumes "reachable s" "s' = (sys_match now ^^ length (ob_EventCh (s_book s))) s"
  shows "ob_EventCh (s_book s') = [] \<and> (\<forall>b a. \<not> crossing (s_heap s') (s_book s') b a)"
proof -
  have events: "ob_EventCh (s_book s') = []" by (simp add: assms(2) sys_match_funpow_events)
  moreover have "reachable s'" unfolding assms(2) by (rule reachable_funpow [OF assms(1)])
  then have "crossed_pending (s_heap s') (s_book s')" using reachable_inv by (simp add: sys_inv_def)
  ultimately show ?thesis by (simp add: crossed_pending_def pending_def)
qed

theorem match_loop_catches_up_witness:
  "ob_EventCh (s_book ex_sys3) = [] \<and> (\<forall>b a. \<not> crossing (s_heap ex_sys3) (s_book ex_sys3) b a)"
  using match_loop_catches_up [OF ex_reachable(2), of ex_sys3 5] by (simp add: ex_sys2_events ex_sys3_def)

section \<open>Behaviours outside the intended contract\<close>

text \<open>
  Three executions of the code as written. An order that is cancelled before the engine has seen
  its placement still trades, because \<^verbatim>\<open>match\<close> does not look at the status of the incoming order.
  A market order carries price zero and rests in the book until its own event is processed; an
  order placed before it and matched in between trades with it at price zero. Matching leaves
  the level totals and filled orders in place, so depth and statistics report quantity that is
  no longer there.
\<close>

lemma cancelled_order_trades:
  "o_Status (s_heap (sys_cancel 5 ''B1'' ex_sys2) 1) = StatusCancelled"
  "o_Status (s_heap (sys_match 6 (sys_cancel 5 ''B1'' ex_sys2)) 1) = StatusPartiallyFilled"
  "o_FilledQty (s_heap (sys_match 6 (sys_cancel 5 ''B1'' ex_sys2)) 1) = 100"
  by code_simp+

definition ex_market :: Sys where
  "ex_market = sys_match 4
     (sys_place 3 (ex_new_order ''M1'' Sell 0 100\<lparr>o_OrderType := Market\<rparr>)
       (sys_place 2 (ex_new_order ''B1'' Buy 2505 120) ex_sys0))"

lemma market_order_trades_at_zero:
  "map t_Price (e_TradeCh (s_engine ex_market)) = [Fin 0]"
  "map t_Quantity (e_TradeCh (s_engine ex_market)) = [100]"
  by code_simp+

lemma depth_stale_after_match:
  "o_Status (s_heap ex_sys3 0) = StatusFilled"
  "map (\<lambda>l. (lv_Price l, lv_Total l)) (snd (MarketDepth 5 (s_book ex_sys3))) = [(Fin 2500, 100)]"
  by code_simp+

end
