(* ===== verification/Risk.thy ===== *)
theory Risk
  imports Models
begin

text \<open>
  The pre-trade risk engine of \<^verbatim>\<open>internal/risk/engine.go\<close>: the chain of validations in the order the
  code runs them, each failure a value of \<open>risk_error\<close> with the text the code formats, and the
  margin ledger of the registered accounts. Constant expressions of the source
  (\<^verbatim>\<open>1 + priceBandPercent\<close>) are exact and rounded once, as Go evaluates them.
\<close>

section \<open>State and errors\<close>

record Account =
  ac_ClientID :: string
  ac_Balance :: f64
  ac_UsedFunds :: f64

record RiskEngine =
  re_accounts :: "string \<rightharpoonup> Account"

datatype risk_error =
    SymbolEmpty
  | QuantityNotPositive int
  | LimitPriceNotPositive f64
  | TriggerPriceRequired
  | ClientIDEmpty
  | AboveUpperBand f64 f64 f64
  | BelowLowerBand f64 f64 f64
  | FreezeQuantityExceeded int
  | ClientNotFound string
  | UnknownProductType string
  | InsufficientMargin MarginInfo

definition priceBandPercent :: rat where "priceBandPercent = 1 / 5"
definition freezeQuantity :: int where "freezeQuantity = 500000"

text \<open>The rupee sign, as its three UTF-8 bytes.\<close>

definition rupee :: string where
  "rupee = [char_of (226 :: nat), char_of (130 :: nat), char_of (185 :: nat)]"

fun risk_error_string :: "risk_error \<Rightarrow> string" where
  "risk_error_string SymbolEmpty = ''symbol cannot be empty''"
| "risk_error_string (QuantityNotPositive q) = ''quantity must be positive, got '' @ show_int q"
| "risk_error_string (LimitPriceNotPositive p) = ''limit price must be positive, got '' @ show_fixed2 p"
| "risk_error_string TriggerPriceRequired = ''SL orders require a trigger price''"
| "risk_error_string ClientIDEmpty = ''client ID cannot be empty''"
| "risk_error_string (AboveUpperBand p band ltp) =
     ''price '' @ show_fixed2 p @ '' exceeds upper circuit band '' @ show_fixed2 band @
     '' (LTP: '' @ show_fixed2 ltp @ '', +20%)''"
| "risk_error_string (BelowLowerBand p band ltp) =
     ''price '' @ show_fixed2 p @ '' below lower circuit band '' @ show_fixed2 band @
     '' (LTP: '' @ show_fixed2 ltp @ '', -20%)''"
| "risk_error_string (FreezeQuantityExceeded q) =
     ''order quantity '' @ show_int q @ '' exceeds freeze quantity limit '' @ show_int freezeQuantity"
| "risk_error_string (ClientNotFound c) = ''client '' @ c @ '' not found''"
| "risk_error_string (UnknownProductType p) = ''unknown product type: '' @ p"
| "risk_error_string (InsufficientMargin m) =
     ''insufficient margin: required '' @ rupee @ show_fixed2 (mi_Required m) @
     '', available '' @ rupee @ show_fixed2 (mi_Free m) @
     '' (balance: '' @ rupee @ show_fixed2 (mi_Available m) @
     '', used: '' @ rupee @ show_fixed2 (mi_Used m) @ '')''"

section \<open>Operations\<close>

definition marginRates :: "ProductType \<rightharpoonup> f64" where
  "marginRates = [CNC \<mapsto> flit 1, MIS \<mapsto> flit (1 / 5), NRML \<mapsto> flit (3 / 20)]"

definition FreeFunds :: "Account \<Rightarrow> f64" where
  "FreeFunds a = fsub (ac_Balance a) (ac_UsedFunds a)"

definition NewRiskEngine :: RiskEngine where
  "NewRiskEngine = \<lparr>re_accounts = Map.empty\<rparr>"

definition RegisterAccount :: "string \<Rightarrow> f64 \<Rightarrow> RiskEngine \<Rightarrow> RiskEngine" where
  "RegisterAccount clientID balance e =
     e\<lparr>re_accounts := (re_accounts e)
         (clientID \<mapsto> \<lparr>ac_ClientID = clientID, ac_Balance = balance, ac_UsedFunds = Fin 0\<rparr>)\<rparr>"

definition GetAccount :: "string \<Rightarrow> RiskEngine \<Rightarrow> Account option" where
  "GetAccount clientID e = re_accounts e clientID"

definition validateBasics :: "Order \<Rightarrow> risk_error option" where
  "validateBasics order =
     (if o_Symbol order = [] then Some SymbolEmpty
      else if o_Quantity order \<le> 0 then Some (QuantityNotPositive (o_Quantity order))
      else if o_OrderType order = Limit \<and> fle (o_Price order) (Fin 0)
           then Some (LimitPriceNotPositive (o_Price order))
      else if o_OrderType order = StopLoss \<and> fle (o_TriggerPrice order) (Fin 0)
           then Some TriggerPriceRequired
      else if o_ClientID order = [] then Some ClientIDEmpty
      else None)"

definition validatePriceBand :: "Order \<Rightarrow> f64 \<Rightarrow> risk_error option" where
  "validatePriceBand order ltp =
     (if fle ltp (Fin 0) then None
      else
        let upperBand = fmul ltp (flit (1 + priceBandPercent));
            lowerBand = fmul ltp (flit (1 - priceBandPercent))
        in if flt upperBand (o_Price order) then Some (AboveUpperBand (o_Price order) upperBand ltp)
           else if flt (o_Price order) lowerBand then Some (BelowLowerBand (o_Price order) lowerBand ltp)
           else None)"

definition validateFreezeQty :: "Order \<Rightarrow> risk_error option" where
  "validateFreezeQty order =
     (if freezeQuantity < o_Quantity order then Some (FreezeQuantityExceeded (o_Quantity order)) else None)"

text \<open>The entry points of the single checks, as the service calls them.\<close>

definition ValidateBasics :: "Order \<Rightarrow> risk_error option" where
  "ValidateBasics order = validateBasics order"

definition CheckPriceBand :: "Order \<Rightarrow> f64 \<Rightarrow> risk_error option" where
  "CheckPriceBand order ltp = validatePriceBand order ltp"

definition CheckFreezeQty :: "Order \<Rightarrow> risk_error option" where
  "CheckFreezeQty order = validateFreezeQty order"

text \<open>The price an order is valued at, and the margin it needs at a rate.\<close>

definition margin_price :: "Order \<Rightarrow> f64 \<Rightarrow> f64" where
  "margin_price order ltp = (if o_OrderType order = Market then ltp else o_Price order)"

definition required_margin :: "f64 \<Rightarrow> Order \<Rightarrow> f64 \<Rightarrow> f64" where
  "required_margin rate order ltp =
     round2 (fmul (fmul (margin_price order ltp) (float64 (o_Quantity order))) rate)"

definition margin_info :: "Account \<Rightarrow> f64 \<Rightarrow> MarginInfo" where
  "margin_info acc required =
     \<lparr>mi_Required = required, mi_Available = ac_Balance acc, mi_Used = ac_UsedFunds acc,
      mi_Free = FreeFunds acc\<rparr>"

definition validateMargin :: "RiskEngine \<Rightarrow> Order \<Rightarrow> f64 \<Rightarrow> risk_error option" where
  "validateMargin e order ltp =
     (case re_accounts e (o_ClientID order) of
        None \<Rightarrow> Some (ClientNotFound (o_ClientID order))
      | Some acc \<Rightarrow>
          (case marginRates (o_ProductType order) of
             None \<Rightarrow> Some (UnknownProductType (o_ProductType order))
           | Some rate \<Rightarrow>
               let info = margin_info acc (required_margin rate order ltp)
               in if \<not> Sufficient info then Some (InsufficientMargin info) else None))"

definition Validate :: "RiskEngine \<Rightarrow> Order \<Rightarrow> f64 \<Rightarrow> risk_error option" where
  "Validate e order ltp =
     (case validateBasics order of
        Some err \<Rightarrow> Some err
      | None \<Rightarrow>
          (case (if o_OrderType order = Limit then validatePriceBand order ltp else None) of
             Some err \<Rightarrow> Some err
           | None \<Rightarrow>
               (case validateFreezeQty order of
                  Some err \<Rightarrow> Some err
                | None \<Rightarrow> validateMargin e order ltp)))"

definition BlockMargin :: "string \<Rightarrow> f64 \<Rightarrow> RiskEngine \<Rightarrow> RiskEngine \<times> risk_error option" where
  "BlockMargin clientID amount e =
     (case re_accounts e clientID of
        None \<Rightarrow> (e, Some (ClientNotFound clientID))
      | Some acc \<Rightarrow>
          (e\<lparr>re_accounts := (re_accounts e)
               (clientID \<mapsto> acc\<lparr>ac_UsedFunds := fadd (ac_UsedFunds acc) amount\<rparr>)\<rparr>, None))"

definition ReleaseMargin :: "string \<Rightarrow> f64 \<Rightarrow> RiskEngine \<Rightarrow> RiskEngine \<times> risk_error option" where
  "ReleaseMargin clientID amount e =
     (case re_accounts e clientID of
        None \<Rightarrow> (e, Some (ClientNotFound clientID))
      | Some acc \<Rightarrow>
          let acc1 = acc\<lparr>ac_UsedFunds := fsub (ac_UsedFunds acc) amount\<rparr>;
              acc2 = (if flt (ac_UsedFunds acc1) (Fin 0) then acc1\<lparr>ac_UsedFunds := Fin 0\<rparr> else acc1)
          in (e\<lparr>re_accounts := (re_accounts e)(clientID \<mapsto> acc2)\<rparr>, None))"

text \<open>A missing rate reads as zero from the Go map.\<close>

definition GetMarginInfo :: "RiskEngine \<Rightarrow> Order \<Rightarrow> f64 \<Rightarrow> MarginInfo" where
  "GetMarginInfo e order ltp =
     (case re_accounts e (o_ClientID order) of
        None \<Rightarrow> \<lparr>mi_Required = Fin 0, mi_Available = Fin 0, mi_Used = Fin 0, mi_Free = Fin 0\<rparr>
      | Some acc \<Rightarrow>
          let rate = (case marginRates (o_ProductType order) of None \<Rightarrow> Fin 0 | Some r \<Rightarrow> r)
          in margin_info acc (required_margin rate order ltp))"

section \<open>The margin ledger\<close>

text \<open>
  What the callers of a margin ledger rely on: blocking adds to the client's used funds,
  releasing subtracts and stops at zero, an unknown client is an error that changes nothing.
\<close>

locale margin_ledger =
  fixes used :: "'s \<Rightarrow> string \<rightharpoonup> f64"
    and block :: "string \<Rightarrow> f64 \<Rightarrow> 's \<Rightarrow> 's \<times> 'e option"
    and release :: "string \<Rightarrow> f64 \<Rightarrow> 's \<Rightarrow> 's \<times> 'e option"
  assumes block_known: "used s c = Some u \<Longrightarrow>
      snd (block c a s) = None \<and> used (fst (block c a s)) = (used s)(c \<mapsto> fadd u a)"
    and release_known: "used s c = Some u \<Longrightarrow>
      snd (release c a s) = None \<and>
      used (fst (release c a s)) = (used s)(c \<mapsto> (if flt (fsub u a) (Fin 0) then Fin 0 else fsub u a))"
    and block_unknown: "used s c = None \<Longrightarrow> fst (block c a s) = s \<and> snd (block c a s) \<noteq> None"
    and release_unknown: "used s c = None \<Longrightarrow> fst (release c a s) = s \<and> snd (release c a s) \<noteq> None"
begin

definition run_op :: "bool \<times> string \<times> f64 \<Rightarrow> 's \<Rightarrow> 's" where
  "run_op op s = (case op of (b, c, a) \<Rightarrow> fst ((if b then block else release) c a s))"

lemma dom_run_op: "dom (used (run_op op s)) = dom (used s)"
proof -
  obtain b c a where op: "op = (b, c, a)" by (cases op) auto
  show ?thesis
  proof (cases "used s c")
    case None
    then show ?thesis using block_unknown release_unknown by (auto simp: op run_op_def)
  next
    case (Some u)
    from block_known [OF this] release_known [OF this] Some show ?thesis by (auto simp: op run_op_def)
  qed
qed

lemma run_op_other:
  assumes "fst (snd op) \<noteq> d"
  shows "used (run_op op s) d = used s d"
proof -
  obtain b c a where op: "op = (b, c, a)" by (cases op) auto
  show ?thesis
  proof (cases "used s c")
    case None
    then show ?thesis using block_unknown release_unknown by (auto simp: op run_op_def)
  next
    case (Some u)
    from block_known [OF this] release_known [OF this] assms show ?thesis by (auto simp: op run_op_def)
  qed
qed

lemma run_ops_other:
  "\<forall>op \<in> set ops. fst (snd op) \<noteq> d \<Longrightarrow> used (fold run_op ops s) d = used s d"
  by (induction ops arbitrary: s) (auto simp: run_op_other)

text \<open>Other clients' operations in between do not matter to a block and its release.\<close>

lemma block_release:
  assumes "used s c = Some (Fin u)" "0 \<le> u" "round64 u = Fin u" "round64 (u + a) = Fin (u + a)"
    and "\<forall>op \<in> set ops. fst (snd op) \<noteq> c"
  shows "used (fst (release c (Fin a) (fold run_op ops (fst (block c (Fin a) s))))) c = Some (Fin u)"
proof -
  have "used (fst (block c (Fin a) s)) c = Some (Fin (u + a))"
    using block_known [OF assms(1), of "Fin a"] assms(4) by simp
  with run_ops_other [OF assms(5)]
  have "used (fold run_op ops (fst (block c (Fin a) s))) c = Some (Fin (u + a))" by simp
  from release_known [OF this, of "Fin a"] assms(2,3) show ?thesis by (simp add: fsub_def)
qed

lemma release_nonneg:
  assumes "used s c = Some u" "fsub u a \<noteq> NaN"
  shows "\<exists>v. used (fst (release c a s)) c = Some v \<and> fle (Fin 0) v"
  using release_known [OF assms(1), of a] assms(2) by (auto simp: fle_iff flt_iff)

end

definition used_funds :: "RiskEngine \<Rightarrow> string \<rightharpoonup> f64" where
  "used_funds e = map_option ac_UsedFunds \<circ> re_accounts e"

interpretation risk: margin_ledger used_funds BlockMargin ReleaseMargin
  by unfold_locales (auto simp: used_funds_def BlockMargin_def ReleaseMargin_def Let_def fun_eq_iff)

section \<open>Properties\<close>

lemma band_constants:
  "flit (1 + priceBandPercent) = Fin (5404319552844595 / 4503599627370496)"
  "flit (1 - priceBandPercent) = Fin (3602879701896397 / 4503599627370496)"
  by code_simp+

lemma band_bounds:
  fixes l u c :: rat
  assumes "0 < l" "two_to (- 1022) \<le> l * u" "l * u \<le> 2 ^ 60" "0 < u" "0 < c" "\<bar>u - c\<bar> \<le> c / 2 ^ 53"
  shows "\<exists>y. fmul (Fin l) (Fin u) = Fin y \<and> l * c * (1 - 1 / 2 ^ 51) \<le> y \<and> y \<le> l * c * (1 + 1 / 2 ^ 51)"
proof -
  have pos: "0 < l * u" using assms by simp
  from round64_Fin_error [of "l * u"] pos assms(2,3)
  obtain y where y: "round64 (l * u) = Fin y" "\<bar>y - l * u\<bar> \<le> l * u / 2 ^ 53" by auto
  have "l * (c * (1 - 1 / 2 ^ 53)) \<le> l * u" "l * u \<le> l * (c * (1 + 1 / 2 ^ 53))"
    using rel_error_bounds [OF assms(6)] assms(1) by (simp_all only: mult_left_mono less_imp_le)
  moreover have "0 < l * c" using assms by simp
  moreover have "l * u * (1 - 1 / 2 ^ 53) \<le> y" "y \<le> l * u * (1 + 1 / 2 ^ 53)"
    using rel_error_bounds [OF y(2)] .
  ultimately have "l * c * (1 - 1 / 2 ^ 51) \<le> y" "y \<le> l * c * (1 + 1 / 2 ^ 51)" by auto
  with y(1) show ?thesis by simp
qed

lemma Validate_NoneD:
  assumes "Validate e x ltp = None"
  shows "validateBasics x = None" "o_OrderType x = Limit \<Longrightarrow> validatePriceBand x ltp = None"
    and "validateFreezeQty x = None" "validateMargin e x ltp = None"
  using assms by (auto simp: Validate_def split: option.splits if_splits)

lemma validateMargin_NoneD:
  assumes "validateMargin e x ltp = None"
  shows "\<exists>acc rate. re_accounts e (o_ClientID x) = Some acc \<and> marginRates (o_ProductType x) = Some rate \<and>
    fle (required_margin rate x ltp) (FreeFunds acc)"
  using assms
  by (auto simp: validateMargin_def Sufficient_def margin_info_def Let_def split: option.splits if_splits)

definition ex_risk :: RiskEngine where
  "ex_risk = RegisterAccount ''C1'' (Fin 100000) NewRiskEngine"

definition ex_risk_order :: Order where
  "ex_risk_order = (NewOrder 5 ''C1'' ''INFY'')\<lparr>o_Side := Buy, o_OrderType := Limit, o_Quantity := 100,
     o_RemainingQty := 100, o_Price := Fin 1500\<rparr>"

lemma ex_risk_valid: "Validate ex_risk ex_risk_order (Fin 1450) = None"
  by code_simp

text \<open>C27: A limit order that passes the risk checks is for 1 to 500000 shares at a positive price that
  deviates from the last traded price by at most 20 percent (up to a relative float rounding
  of \<open>2 ^ -51\<close> on the band), for a known client and product, and the client's free funds cover its margin.\<close>

theorem validated_limit_order_within_limits:
  assumes "Validate e x (Fin l) = None" "o_OrderType x = Limit" "o_Price x = Fin p"
    and "1 / 100 \<le> l" "l \<le> 10 ^ 9"
  shows "0 < o_Quantity x \<and> o_Quantity x \<le> 500000 \<and> 0 < p \<and>
    l * (4 / 5) * (1 - 1 / 2 ^ 51) \<le> p \<and> p \<le> l * (6 / 5) * (1 + 1 / 2 ^ 51) \<and>
    (\<exists>acc rate. re_accounts e (o_ClientID x) = Some acc \<and> marginRates (o_ProductType x) = Some rate \<and>
       fle (required_margin rate x (Fin l)) (FreeFunds acc))"
proof -
  note V = Validate_NoneD [OF assms(1)]
  have small: "two_to (- 1022) \<le> 1 / 1000"
    using two_to_mono [of "- 1022" "- 10"] by (simp add: power_int_minus)
  have l: "0 < l" "two_to (- 1022) \<le> l * (5404319552844595 / 4503599627370496)"
    "two_to (- 1022) \<le> l * (3602879701896397 / 4503599627370496)"
    using assms(4) small by (auto elim!: order_trans)
  obtain hi where hi: "fmul (Fin l) (flit (1 + priceBandPercent)) = Fin hi" "hi \<le> l * (6 / 5) * (1 + 1 / 2 ^ 51)"
    using band_bounds [OF l(1,2), of "6 / 5"] assms(5) by (auto simp: band_constants)
  obtain lo where lo: "fmul (Fin l) (flit (1 - priceBandPercent)) = Fin lo" "l * (4 / 5) * (1 - 1 / 2 ^ 51) \<le> lo"
    using band_bounds [OF l(1,3), of "4 / 5"] assms(5) by (auto simp: band_constants)
  have "lo \<le> p" "p \<le> hi"
    using V(2) [OF assms(2)] l(1) assms(3)
    by (auto simp: validatePriceBand_def hi(1) lo(1) Let_def fle_iff split: if_splits)
  moreover have "0 < o_Quantity x" "0 < p"
    using V(1) assms(2,3) by (auto simp: validateBasics_def fle_iff split: if_splits)
  moreover have "o_Quantity x \<le> 500000"
    using V(3) by (auto simp: validateFreezeQty_def freezeQuantity_def split: if_splits)
  ultimately show ?thesis using hi(2) lo(2) validateMargin_NoneD [OF V(4)] by auto
qed

theorem validated_limit_order_within_limits_witness:
  "0 < o_Quantity ex_risk_order \<and> 1450 * (4 / 5) * (1 - 1 / 2 ^ 51) \<le> (1500 :: rat) \<and>
   (1500 :: rat) \<le> 1450 * (6 / 5) * (1 + 1 / 2 ^ 51) \<and>
   (\<exists>acc. re_accounts ex_risk ''C1'' = Some acc)"
proof -
  have "o_OrderType ex_risk_order = Limit" "o_Price ex_risk_order = Fin 1500" "o_ClientID ex_risk_order = ''C1''"
    by (simp_all add: ex_risk_order_def NewOrder_def)
  with validated_limit_order_within_limits [OF ex_risk_valid, of 1500] show ?thesis by auto
qed

text \<open>C23: No overdraft: after an order has passed the risk checks and its margin is blocked, the client's
  used funds do not exceed the balance, provided the free funds were computed without rounding.\<close>

theorem blocking_validated_margin_no_overdraft:
  assumes "Validate e x ltp = None" "re_accounts e (o_ClientID x) = Some acc"
    and "marginRates (o_ProductType x) = Some rate" "required_margin rate x ltp = Fin r"
    and "ac_Balance acc = Fin b" "ac_UsedFunds acc = Fin u"
    and "round64 b = Fin b" "round64 (b - u) = Fin (b - u)"
  shows "snd (BlockMargin (o_ClientID x) (Fin r) e) = None \<and>
    (\<exists>acc'. re_accounts (fst (BlockMargin (o_ClientID x) (Fin r) e)) (o_ClientID x) = Some acc' \<and>
       ac_Balance acc' = Fin b \<and> ac_UsedFunds acc' = round64 (u + r) \<and> ac_UsedFunds acc' \<le> Fin b)"
proof -
  have "fle (Fin r) (FreeFunds acc)"
    using validateMargin_NoneD [OF Validate_NoneD(4) [OF assms(1)]] assms(2-4) by auto
  then have "u + r \<le> b" using assms(5,6,8) by (simp add: FreeFunds_def fsub_def fle_iff)
  then have "round64 (u + r) \<le> Fin b" using round64_mono [of "u + r" b] assms(7) by simp
  then show ?thesis using assms(2,5,6) by (simp add: BlockMargin_def)
qed

theorem blocking_validated_margin_no_overdraft_witness:
  "\<exists>acc'. re_accounts (fst (BlockMargin ''C1'' (Fin 30000) ex_risk)) ''C1'' = Some acc' \<and>
     ac_UsedFunds acc' \<le> Fin 100000"
proof -
  have 1: "re_accounts ex_risk (o_ClientID ex_risk_order) =
      Some \<lparr>ac_ClientID = ''C1'', ac_Balance = Fin 100000, ac_UsedFunds = Fin 0\<rparr>"
    and 2: "marginRates (o_ProductType ex_risk_order) = Some (flit (1 / 5))"
    by (simp_all add: ex_risk_def RegisterAccount_def NewRiskEngine_def ex_risk_order_def NewOrder_def
        marginRates_def go_constants)
  have 3: "required_margin (flit (1 / 5)) ex_risk_order (Fin 1450) = Fin 30000" by code_simp
  have "o_ClientID ex_risk_order = ''C1''" by (simp add: ex_risk_order_def NewOrder_def)
  with blocking_validated_margin_no_overdraft [OF ex_risk_valid 1 2 3, of 100000 0] show ?thesis
    by (auto simp: f64_simps)
qed

text \<open>A sequence of ledger operations: \<open>True\<close> blocks, \<open>False\<close> releases.\<close>

definition margin_op :: "bool \<times> string \<times> f64 \<Rightarrow> RiskEngine \<Rightarrow> RiskEngine" where
  "margin_op op e = (case op of (b, c, a) \<Rightarrow> fst (if b then BlockMargin c a e else ReleaseMargin c a e))"

lemma margin_op_run: "margin_op = risk.run_op"
  by (auto simp: fun_eq_iff margin_op_def risk.run_op_def)

text \<open>C28: Releasing what was blocked restores the client's used funds exactly, whatever blocks and
  releases of other clients happen in between, when the sum is representable; and a release
  never leaves negative used funds.\<close>

theorem release_restores_blocked:
  assumes "used_funds e c = Some (Fin u)" "0 \<le> u" "round64 u = Fin u" "round64 (u + a) = Fin (u + a)"
    and "\<forall>op \<in> set ops. fst (snd op) \<noteq> c"
  shows "used_funds (fst (ReleaseMargin c (Fin a) (fold margin_op ops (fst (BlockMargin c (Fin a) e))))) c =
      Some (Fin u) \<and>
    (\<forall>z. \<exists>v. used_funds (fst (ReleaseMargin c (Fin z) e)) c = Some v \<and> fle (Fin 0) v)"
  using risk.block_release [OF assms] risk.release_nonneg [OF assms(1)]
  by (simp add: margin_op_run fsub_def)

theorem release_restores_blocked_witness:
  "used_funds (fst (ReleaseMargin ''C1'' (Fin 30000) (fold margin_op [(True, ''C2'', Fin 5), (False, ''C3'', Fin 7)]
     (fst (BlockMargin ''C1'' (Fin 30000) ex_risk))))) ''C1'' = Some (Fin 0)"
proof -
  have "used_funds ex_risk ''C1'' = Some (Fin 0)"
    by (simp add: used_funds_def ex_risk_def RegisterAccount_def)
  from release_restores_blocked [OF this, of 30000 "[(True, ''C2'', Fin 5), (False, ''C3'', Fin 7)]"]
  show ?thesis by (simp add: f64_simps)
qed

end
