(* ===== verification/Position.thy ===== *)
theory Position
  imports Models
begin

text \<open>
  The position tracker of \<^verbatim>\<open>internal/position/tracker.go\<close>. The manager's map from keys to positions is
  a HOL map; a loop over the map takes the order in which Go happens to visit the keys as an
  argument. Updates are sent to a bounded channel without blocking. Lemmas: the net quantity of
  every key is what its client bought minus what it sold, positions sum to zero, a price tick
  marks exactly the open positions of its symbol in whatever order they are visited.
\<close>

section \<open>State\<close>

record Position =
  pos_ClientID :: string
  pos_Symbol :: string
  pos_Exchange :: Exchange
  pos_ProductType :: ProductType
  pos_Quantity :: int
  pos_BuyQty :: int
  pos_SellQty :: int
  pos_BuyAvg :: f64
  pos_SellAvg :: f64
  pos_RealizedPnL :: f64
  pos_UnrealizedPnL :: f64
  pos_LastPrice :: f64
  pos_TotalCharges :: f64
  pos_UpdatedAt :: instant

record UpdateEvent =
  ue_Position :: Position
  ue_Trigger :: string

record PManager =
  pm_positions :: "string \<rightharpoonup> Position"
  pm_eventCh :: "UpdateEvent list"

definition pos_event_cap :: nat where
  "pos_event_cap = 10000"

record DaySummary =
  ds_ClientID :: string
  ds_TotalRealized :: f64
  ds_TotalUnrealized :: f64
  ds_TotalCharges :: f64
  ds_NetPnL :: f64
  ds_Positions :: int

section \<open>Operations\<close>

definition NetPnL :: "Position \<Rightarrow> f64" where
  "NetPnL p = round2 (fsub (fadd (pos_RealizedPnL p) (pos_UnrealizedPnL p)) (pos_TotalCharges p))"

definition PositionKey :: "string \<Rightarrow> string \<Rightarrow> ProductType \<Rightarrow> string" where
  "PositionKey clientID symbol product = clientID @ '':'' @ symbol @ '':'' @ product"

definition NewPManager :: PManager where
  "NewPManager = \<lparr>pm_positions = Map.empty, pm_eventCh = []\<rparr>"

definition emit :: "Position \<Rightarrow> string \<Rightarrow> PManager \<Rightarrow> PManager" where
  "emit pos trigger m =
     m\<lparr>pm_eventCh := try_send pos_event_cap \<lparr>ue_Position = pos, ue_Trigger = trigger\<rparr> (pm_eventCh m)\<rparr>"

definition empty_position :: "instant \<Rightarrow> string \<Rightarrow> string \<Rightarrow> Exchange \<Rightarrow> ProductType \<Rightarrow> Position" where
  "empty_position now clientID symbol exchange product =
     \<lparr>pos_ClientID = clientID, pos_Symbol = symbol, pos_Exchange = exchange,
      pos_ProductType = product, pos_Quantity = 0, pos_BuyQty = 0, pos_SellQty = 0,
      pos_BuyAvg = Fin 0, pos_SellAvg = Fin 0, pos_RealizedPnL = Fin 0, pos_UnrealizedPnL = Fin 0,
      pos_LastPrice = Fin 0, pos_TotalCharges = Fin 0, pos_UpdatedAt = now\<rparr>"

definition getOrCreate ::
  "instant \<Rightarrow> string \<Rightarrow> string \<Rightarrow> Exchange \<Rightarrow> ProductType \<Rightarrow> PManager \<Rightarrow> PManager \<times> Position" where
  "getOrCreate now clientID symbol exchange product m =
     (let key = PositionKey clientID symbol product in
      case pm_positions m key of
        Some pos \<Rightarrow> (m, pos)
      | None \<Rightarrow>
          let pos = empty_position now clientID symbol exchange product
          in (m\<lparr>pm_positions := (pm_positions m)(key \<mapsto> pos)\<rparr>, pos))"

text \<open>\<^verbatim>\<open>applyBuy\<close>: first the part that covers a short, then the part that adds to the long side.\<close>

definition cover_short :: "int \<Rightarrow> f64 \<Rightarrow> Position \<Rightarrow> Position \<times> int" where
  "cover_short qty price pos =
     (let coverQty = (if neg64 (pos_Quantity pos) < qty then neg64 (pos_Quantity pos) else qty);
          realized = fmul (fsub (pos_SellAvg pos) price) (float64 coverQty)
      in (pos\<lparr>pos_RealizedPnL := round2 (fadd (pos_RealizedPnL pos) realized),
              pos_Quantity := add64 (pos_Quantity pos) coverQty\<rparr>,
          sub64 qty coverQty))"

definition add_long :: "int \<Rightarrow> f64 \<Rightarrow> Position \<Rightarrow> Position" where
  "add_long qty price pos =
     (let totalCost = fadd (fmul (pos_BuyAvg pos) (float64 (pos_BuyQty pos))) (fmul price (float64 qty));
          pos1 = pos\<lparr>pos_BuyQty := add64 (pos_BuyQty pos) qty,
                     pos_Quantity := add64 (pos_Quantity pos) qty\<rparr>
      in if 0 < pos_BuyQty pos1
         then pos1\<lparr>pos_BuyAvg := round2 (fdiv totalCost (float64 (pos_BuyQty pos1)))\<rparr> else pos1)"

definition applyBuy :: "instant \<Rightarrow> int \<Rightarrow> f64 \<Rightarrow> Position \<Rightarrow> Position" where
  "applyBuy now qty price pos =
     (let (pos1, qty1) = (if pos_Quantity pos < 0 then cover_short qty price pos else (pos, qty));
          pos2 = (if 0 < qty1 then add_long qty1 price pos1 else pos1)
      in pos2\<lparr>pos_UpdatedAt := now\<rparr>)"

definition sell_long :: "int \<Rightarrow> f64 \<Rightarrow> Position \<Rightarrow> Position \<times> int" where
  "sell_long qty price pos =
     (let sellFromLong = (if pos_Quantity pos < qty then pos_Quantity pos else qty);
          realized = fmul (fsub price (pos_BuyAvg pos)) (float64 sellFromLong)
      in (pos\<lparr>pos_RealizedPnL := round2 (fadd (pos_RealizedPnL pos) realized),
              pos_Quantity := sub64 (pos_Quantity pos) sellFromLong,
              pos_SellQty := add64 (pos_SellQty pos) sellFromLong\<rparr>,
          sub64 qty sellFromLong))"

definition go_short :: "int \<Rightarrow> f64 \<Rightarrow> Position \<Rightarrow> Position" where
  "go_short qty price pos =
     (let totalProceeds = fadd (fmul (pos_SellAvg pos) (float64 (pos_SellQty pos))) (fmul price (float64 qty));
          pos1 = pos\<lparr>pos_SellQty := add64 (pos_SellQty pos) qty,
                     pos_Quantity := sub64 (pos_Quantity pos) qty\<rparr>
      in if 0 < pos_SellQty pos1
         then pos1\<lparr>pos_SellAvg := round2 (fdiv totalProceeds (float64 (pos_SellQty pos1)))\<rparr> else pos1)"

definition applyShortSell :: "instant \<Rightarrow> int \<Rightarrow> f64 \<Rightarrow> ProductType \<Rightarrow> Position \<Rightarrow> Position" where
  "applyShortSell now qty price product pos =
     (let (pos1, qty1) = (if 0 < pos_Quantity pos then sell_long qty price pos else (pos, qty));
          pos2 = (if 0 < qty1 then go_short qty1 price pos1 else pos1)
      in pos2\<lparr>pos_UpdatedAt := now\<rparr>)"

definition put_position :: "string \<Rightarrow> Position \<Rightarrow> PManager \<Rightarrow> PManager" where
  "put_position key pos m = m\<lparr>pm_positions := (pm_positions m)(key \<mapsto> pos)\<rparr>"

definition ApplyTrade :: "instant \<Rightarrow> Trade \<Rightarrow> Order \<Rightarrow> Order \<Rightarrow> PManager \<Rightarrow> PManager" where
  "ApplyTrade now trade buyOrder sellOrder m0 =
     (let (m1, buyPos) = getOrCreate now (t_BuyerID trade) (t_Symbol trade) (t_Exchange trade)
                           (o_ProductType buyOrder) m0;
          buyPos1 = applyBuy now (t_Quantity trade) (t_Price trade) buyPos;
          m2 = put_position (PositionKey (t_BuyerID trade) (t_Symbol trade) (o_ProductType buyOrder)) buyPos1 m1;
          m3 = emit buyPos1 ''trade'' m2;
          (m4, sellPos) = getOrCreate now (t_SellerID trade) (t_Symbol trade) (t_Exchange trade)
                            (o_ProductType sellOrder) m3;
          sellPos1 = applyShortSell now (t_Quantity trade) (t_Price trade) (o_ProductType buyOrder) sellPos;
          m5 = put_position (PositionKey (t_SellerID trade) (t_Symbol trade) (o_ProductType sellOrder)) sellPos1 m4
      in emit sellPos1 ''trade'' m5)"

definition mark_position :: "instant \<Rightarrow> f64 \<Rightarrow> Position \<Rightarrow> Position" where
  "mark_position now ltp pos =
     (let pos1 = pos\<lparr>pos_LastPrice := ltp\<rparr>;
          pos2 = (if 0 < pos_Quantity pos1
                  then pos1\<lparr>pos_UnrealizedPnL :=
                         round2 (fmul (fsub ltp (pos_BuyAvg pos1)) (float64 (pos_Quantity pos1)))\<rparr>
                  else if pos_Quantity pos1 < 0
                  then pos1\<lparr>pos_UnrealizedPnL :=
                         round2 (fmul (fsub (pos_SellAvg pos1) ltp) (float64 (neg64 (pos_Quantity pos1))))\<rparr>
                  else pos1)
      in pos2\<lparr>pos_UpdatedAt := now\<rparr>)"

definition tick_position :: "instant \<Rightarrow> string \<Rightarrow> f64 \<Rightarrow> string \<Rightarrow> PManager \<Rightarrow> PManager" where
  "tick_position now symbol ltp key m =
     (case pm_positions m key of
        None \<Rightarrow> m
      | Some pos \<Rightarrow>
          if pos_Symbol pos \<noteq> symbol \<or> pos_Quantity pos = 0 then m
          else let pos1 = mark_position now ltp pos
               in emit pos1 ''price_tick'' (put_position key pos1 m))"

definition UpdateLTP :: "instant \<Rightarrow> string list \<Rightarrow> string \<Rightarrow> f64 \<Rightarrow> PManager \<Rightarrow> PManager" where
  "UpdateLTP now keys symbol ltp m = fold (tick_position now symbol ltp) keys m"

definition GetPosition :: "string \<Rightarrow> string \<Rightarrow> ProductType \<Rightarrow> PManager \<Rightarrow> Position option" where
  "GetPosition clientID symbol product m = pm_positions m (PositionKey clientID symbol product)"

definition GetAllPositions :: "string list \<Rightarrow> string \<Rightarrow> PManager \<Rightarrow> Position list" where
  "GetAllPositions keys clientID m =
     filter (\<lambda>pos. pos_ClientID pos = clientID) (List.map_filter (pm_positions m) keys)"

definition GetDaySummary :: "string list \<Rightarrow> string \<Rightarrow> PManager \<Rightarrow> DaySummary" where
  "GetDaySummary keys clientID m =
     (let s = fold (\<lambda>pos s. s\<lparr>ds_TotalRealized := fadd (ds_TotalRealized s) (pos_RealizedPnL pos),
                              ds_TotalUnrealized := fadd (ds_TotalUnrealized s) (pos_UnrealizedPnL pos),
                              ds_TotalCharges := fadd (ds_TotalCharges s) (pos_TotalCharges pos),
                              ds_Positions := ds_Positions s + 1\<rparr>)
                (GetAllPositions keys clientID m)
                \<lparr>ds_ClientID = clientID, ds_TotalRealized = Fin 0, ds_TotalUnrealized = Fin 0,
                 ds_TotalCharges = Fin 0, ds_NetPnL = Fin 0, ds_Positions = 0\<rparr>
      in s\<lparr>ds_NetPnL := round2 (fsub (fadd (ds_TotalRealized s) (ds_TotalUnrealized s)) (ds_TotalCharges s))\<rparr>)"

definition ToModel :: "Position \<Rightarrow> ModelPosition" where
  "ToModel p =
     \<lparr>mp_ClientID = pos_ClientID p, mp_Symbol = pos_Symbol p, mp_Exchange = pos_Exchange p,
      mp_ProductType = pos_ProductType p, mp_Quantity = pos_Quantity p, mp_BuyQty = pos_BuyQty p,
      mp_SellQty = pos_SellQty p, mp_BuyAvg = pos_BuyAvg p, mp_SellAvg = pos_SellAvg p,
      mp_RealizedPnL = pos_RealizedPnL p, mp_UnrealizedPnL = pos_UnrealizedPnL p,
      mp_LastPrice = pos_LastPrice p, mp_UpdatedAt = pos_UpdatedAt p\<rparr>"

section \<open>Net quantities\<close>

text \<open>The abstract ledger: a net quantity per key, zero where there is no position.\<close>

definition net :: "PManager \<Rightarrow> string \<Rightarrow> int" where
  "net m k = (case pm_positions m k of None \<Rightarrow> 0 | Some pos \<Rightarrow> pos_Quantity pos)"

lemma applyBuy_quantity:
  assumes "0 < q" "\<bar>pos_Quantity pos\<bar> + q < 2 ^ 63"
  shows "pos_Quantity (applyBuy now q price pos) = pos_Quantity pos + q"
  using assms
  by (auto simp: applyBuy_def cover_short_def add_long_def Let_def i64_simps in64_def)

lemma applyShortSell_quantity:
  assumes "0 < q" "\<bar>pos_Quantity pos\<bar> + q < 2 ^ 63"
  shows "pos_Quantity (applyShortSell now q price product pos) = pos_Quantity pos - q"
  using assms
  by (auto simp: applyShortSell_def sell_long_def go_short_def Let_def i64_simps in64_def)

definition buy_key :: "Trade \<times> Order \<times> Order \<Rightarrow> string" where
  "buy_key x = (case x of (t, b, s) \<Rightarrow> PositionKey (t_BuyerID t) (t_Symbol t) (o_ProductType b))"

definition sell_key :: "Trade \<times> Order \<times> Order \<Rightarrow> string" where
  "sell_key x = (case x of (t, b, s) \<Rightarrow> PositionKey (t_SellerID t) (t_Symbol t) (o_ProductType s))"

abbreviation trade_qty :: "Trade \<times> Order \<times> Order \<Rightarrow> int" where
  "trade_qty x \<equiv> t_Quantity (fst x)"

definition apply_trade :: "instant \<Rightarrow> Trade \<times> Order \<times> Order \<Rightarrow> PManager \<Rightarrow> PManager" where
  "apply_trade now x m = (case x of (t, b, s) \<Rightarrow> ApplyTrade now t b s m)"

lemma getOrCreate_net:
  assumes "getOrCreate now c sy ex pr m = (m', pos)"
  shows "net m' = net m" "pos_Quantity pos = net m (PositionKey c sy pr)"
    and "pm_positions m' (PositionKey c sy pr) = Some pos"
    and "dom (pm_positions m') = insert (PositionKey c sy pr) (dom (pm_positions m))"
proof -
  have "net m' = net m \<and> pos_Quantity pos = net m (PositionKey c sy pr) \<and>
    pm_positions m' (PositionKey c sy pr) = Some pos \<and>
    dom (pm_positions m') = insert (PositionKey c sy pr) (dom (pm_positions m))"
  proof (cases "pm_positions m (PositionKey c sy pr)")
    case None
    with assms show ?thesis
      by (auto simp: getOrCreate_def net_def fun_eq_iff empty_position_def Let_def)
  next
    case (Some pos')
    with assms show ?thesis by (auto simp: getOrCreate_def net_def)
  qed
  then show "net m' = net m" "pos_Quantity pos = net m (PositionKey c sy pr)"
    "pm_positions m' (PositionKey c sy pr) = Some pos"
    "dom (pm_positions m') = insert (PositionKey c sy pr) (dom (pm_positions m))" by blast+
qed

lemma net_put [simp]: "net (put_position k pos m) = (net m)(k := pos_Quantity pos)"
  by (auto simp: net_def put_position_def)

lemma net_emit [simp]: "net (emit pos tr m) = net m"
  by (simp add: fun_eq_iff net_def emit_def)

lemma positions_emit [simp]: "pm_positions (emit pos tr m) = pm_positions m"
  by (simp add: emit_def)

lemma apply_trade_net:
  assumes "0 < trade_qty x" "\<And>k. \<bar>net m k\<bar> + 2 * trade_qty x < 2 ^ 63"
  shows "net (apply_trade now x m) k =
    net m k + (if k = buy_key x then trade_qty x else 0) - (if k = sell_key x then trade_qty x else 0)"
proof -
  obtain t b s where x: "x = (t, b, s)" by (cases x) auto
  let ?q = "t_Quantity t"
  obtain m1 bp where 1: "getOrCreate now (t_BuyerID t) (t_Symbol t) (t_Exchange t) (o_ProductType b) m = (m1, bp)"
    by fastforce
  let ?bp = "applyBuy now ?q (t_Price t) bp"
  let ?m3 = "emit ?bp ''trade'' (put_position (buy_key x) ?bp m1)"
  obtain m4 sp where 2: "getOrCreate now (t_SellerID t) (t_Symbol t) (t_Exchange t) (o_ProductType s) ?m3 = (m4, sp)"
    by fastforce
  note A = getOrCreate_net [OF 1] and B = getOrCreate_net [OF 2]
  have bp: "pos_Quantity ?bp = net m (buy_key x) + ?q"
    using assms(1) assms(2) [of "buy_key x"] A(2) by (subst applyBuy_quantity) (simp_all add: x buy_key_def)
  have net3: "net ?m3 = (net m)(buy_key x := net m (buy_key x) + ?q)" by (simp add: bp A(1))
  have "pos_Quantity sp = net ?m3 (sell_key x)" using B(2) by (simp add: x sell_key_def)
  moreover have "\<bar>net ?m3 (sell_key x)\<bar> + ?q < 2 ^ 63"
    using assms(1) assms(2) [of "sell_key x"] unfolding net3 by (auto simp: x)
  ultimately have "pos_Quantity (applyShortSell now ?q (t_Price t) (o_ProductType b) sp) = net ?m3 (sell_key x) - ?q"
    using assms(1) by (subst applyShortSell_quantity) (simp_all add: x)
  moreover have "net (apply_trade now x m) =
      (net ?m3)(sell_key x := pos_Quantity (applyShortSell now ?q (t_Price t) (o_ProductType b) sp))"
    using 1 2 B(1) by (simp add: x apply_trade_def ApplyTrade_def buy_key_def sell_key_def Let_def)
  ultimately have "net (apply_trade now x m) = (net ?m3)(sell_key x := net ?m3 (sell_key x) - ?q)" by simp
  then show ?thesis unfolding net3 by (simp add: x)
qed

lemma apply_trade_dom:
  "dom (pm_positions (apply_trade now x m)) = {buy_key x, sell_key x} \<union> dom (pm_positions m)"
proof -
  obtain t b s where x: "x = (t, b, s)" by (cases x) auto
  obtain m1 bp where 1: "getOrCreate now (t_BuyerID t) (t_Symbol t) (t_Exchange t) (o_ProductType b) m = (m1, bp)"
    by fastforce
  let ?bp = "applyBuy now (t_Quantity t) (t_Price t) bp"
  let ?m3 = "emit ?bp ''trade'' (put_position (buy_key x) ?bp m1)"
  obtain m4 sp where 2: "getOrCreate now (t_SellerID t) (t_Symbol t) (t_Exchange t) (o_ProductType s) ?m3 = (m4, sp)"
    by fastforce
  have "pm_positions (apply_trade now x m) =
      (pm_positions m4)(sell_key x \<mapsto> applyShortSell now (t_Quantity t) (t_Price t) (o_ProductType b) sp)"
    using 1 2 by (simp add: x apply_trade_def ApplyTrade_def buy_key_def sell_key_def put_position_def Let_def)
  moreover have "dom (pm_positions m4) = {sell_key x, buy_key x} \<union> dom (pm_positions m1)"
    using getOrCreate_net(4) [OF 2] by (simp add: x sell_key_def put_position_def insert_commute)
  moreover have "dom (pm_positions m1) = insert (buy_key x) (dom (pm_positions m))"
    using getOrCreate_net(4) [OF 1] by (simp add: x buy_key_def)
  ultimately show ?thesis by auto
qed

text \<open>Trades applied one after the other, each at its own instant.\<close>

definition apply_trades :: "(instant \<times> Trade \<times> Order \<times> Order) list \<Rightarrow> PManager \<Rightarrow> PManager" where
  "apply_trades xs m = fold (\<lambda>(now, x). apply_trade now x) xs m"

definition bought :: "string \<Rightarrow> (Trade \<times> Order \<times> Order) list \<Rightarrow> int" where
  "bought k xs = (\<Sum>x\<leftarrow>xs. if buy_key x = k then trade_qty x else 0)"

definition sold :: "string \<Rightarrow> (Trade \<times> Order \<times> Order) list \<Rightarrow> int" where
  "sold k xs = (\<Sum>x\<leftarrow>xs. if sell_key x = k then trade_qty x else 0)"

lemma bought_sold_simps [simp]:
  "bought k [] = 0" "sold k [] = 0"
  "bought k (x # xs) = (if buy_key x = k then trade_qty x else 0) + bought k xs"
  "sold k (x # xs) = (if sell_key x = k then trade_qty x else 0) + sold k xs"
  by (simp_all add: bought_def sold_def)

lemma apply_trades_simps [simp]:
  "apply_trades [] m = m"
  "apply_trades ((now, x) # xs) m = apply_trades xs (apply_trade now x m)"
  by (simp_all add: apply_trades_def)

lemma apply_trades_net:
  assumes "\<forall>x \<in> set xs. 0 < trade_qty (snd x)"
    and "\<And>k. \<bar>net m k\<bar> + 2 * (\<Sum>x\<leftarrow>xs. trade_qty (snd x)) < 2 ^ 63"
  shows "net (apply_trades xs m) k = net m k + bought k (map snd xs) - sold k (map snd xs)"
  using assms
proof (induction xs arbitrary: m)
  case (Cons y xs)
  obtain now x where y: "y = (now, x)" by (rule prod.exhaust)
  let ?rest = "\<Sum>x\<leftarrow>xs. trade_qty (snd x)"
  have rest: "0 \<le> ?rest" using Cons.prems(1) by (intro sum_list_nonneg) auto
  have q: "0 < trade_qty x" using Cons.prems(1) by (simp add: y)
  have bound: "\<bar>net m k\<bar> + 2 * (trade_qty x + ?rest) < 2 ^ 63" for k using Cons.prems(2) [of k] by (simp add: y)
  have step: "net (apply_trade now x m) k =
      net m k + (if k = buy_key x then trade_qty x else 0) - (if k = sell_key x then trade_qty x else 0)" for k
  proof (rule apply_trade_net [OF q])
    show "\<bar>net m k\<bar> + 2 * trade_qty x < 2 ^ 63" for k using bound [of k] rest by simp
  qed
  have "\<bar>net (apply_trade now x m) k\<bar> + 2 * ?rest < 2 ^ 63" for k
    using bound [of k] q rest unfolding step by auto
  with Cons.IH [of "apply_trade now x m"] Cons.prems(1) show ?case by (auto simp: y step)
qed simp

lemma apply_trades_dom:
  "dom (pm_positions (apply_trades xs m)) =
     (\<Union>x \<in> set xs. {buy_key (snd x), sell_key (snd x)}) \<union> dom (pm_positions m)"
proof (induction xs arbitrary: m)
  case (Cons y xs)
  obtain now x where "y = (now, x)" by (rule prod.exhaust)
  with Cons [of "apply_trade now x m"] show ?case by (simp only: apply_trades_simps apply_trade_dom) auto
qed simp

lemma sum_bought:
  assumes "finite K" "\<forall>x \<in> set xs. buy_key x \<in> K \<and> sell_key x \<in> K"
  shows "(\<Sum>k\<in>K. bought k xs) = (\<Sum>x\<leftarrow>xs. trade_qty x)" "(\<Sum>k\<in>K. sold k xs) = (\<Sum>x\<leftarrow>xs. trade_qty x)"
  using assms by (induction xs) (auto simp: sum.distrib sum.delta)

section \<open>Properties\<close>

definition ex_trade :: "string \<Rightarrow> string \<Rightarrow> int \<Rightarrow> rat \<Rightarrow> Trade" where
  "ex_trade buyer seller q pr =
     \<lparr>t_TradeID = ''T'', t_BuyOrderID = ''B'', t_SellOrderID = ''S'', t_Symbol = ''INFY'',
      t_Exchange = NSE, t_Quantity = q, t_Price = Fin pr, t_Timestamp = 0,
      t_BuyerID = buyer, t_SellerID = seller\<rparr>"

definition ex_trades :: "(instant \<times> Trade \<times> Order \<times> Order) list" where
  "ex_trades =
     [(1, ex_trade ''A'' ''B'' 100 1500, NewOrder 0 ''A'' ''INFY'', NewOrder 0 ''B'' ''INFY''),
      (2, ex_trade ''C'' ''A'' 150 1510, NewOrder 0 ''C'' ''INFY'', NewOrder 0 ''A'' ''INFY'')]"

lemma ex_trades_ok:
  "\<forall>x \<in> set ex_trades. 0 < trade_qty (snd x)" "2 * (\<Sum>x\<leftarrow>ex_trades. trade_qty (snd x)) < 2 ^ 63"
  by (simp_all add: ex_trades_def ex_trade_def)

text \<open>C21: After any sequence of trades, with covers and reversals between long and short in any order,
  the net quantity of every position is what was bought minus what was sold under its key, and
  the positions over all keys sum to zero (total volume below \<open>2 ^ 62\<close>).\<close>

theorem positions_are_bought_minus_sold:
  assumes "\<forall>x \<in> set xs. 0 < trade_qty (snd x)" "2 * (\<Sum>x\<leftarrow>xs. trade_qty (snd x)) < 2 ^ 63"
  shows "net (apply_trades xs NewPManager) k = bought k (map snd xs) - sold k (map snd xs) \<and>
    (\<Sum>k \<in> dom (pm_positions (apply_trades xs NewPManager)). net (apply_trades xs NewPManager) k) = 0"
proof -
  let ?m = "apply_trades xs NewPManager" let ?K = "dom (pm_positions ?m)"
  have net: "net ?m k = bought k (map snd xs) - sold k (map snd xs)" for k
    using apply_trades_net [of xs NewPManager k] assms by (simp add: net_def NewPManager_def)
  have "finite ?K" by (simp add: apply_trades_dom NewPManager_def)
  moreover have "\<forall>x \<in> set (map snd xs). buy_key x \<in> ?K \<and> sell_key x \<in> ?K" by (auto simp: apply_trades_dom)
  ultimately have "(\<Sum>k\<in>?K. bought k (map snd xs)) = (\<Sum>k\<in>?K. sold k (map snd xs))"
    using sum_bought by metis
  with net show ?thesis by (simp add: sum_subtractf)
qed

theorem positions_are_bought_minus_sold_witness:
  "net (apply_trades ex_trades NewPManager) ''A:INFY:MIS'' = - 50"
  using positions_are_bought_minus_sold [OF ex_trades_ok, of "''A:INFY:MIS''"]
  by (simp add: ex_trades_def ex_trade_def buy_key_def sell_key_def PositionKey_def NewOrder_def go_constants)

lemma round2_int: "\<bar>n\<bar> \<le> 2 ^ 46 \<Longrightarrow> round2 (Fin (of_int n)) = Fin (of_int n)"
proof -
  assume n: "\<bar>n\<bar> \<le> 2 ^ 46"
  have "fmul (Fin (of_int n)) (Fin 100) = round64 (of_int (n * 100))" by simp
  also have "\<dots> = Fin (of_int (n * 100))" using n by (intro round64_of_int) simp
  finally have "round2 (Fin (of_int n)) = fdiv (math_Round (Fin (of_int (n * 100)))) (Fin 100)"
    by (simp only: round2_def)
  also have "math_Round (Fin (of_int (n * 100))) = Fin (of_int (n * 100))" by (simp only: math_Round_of_int)
  also have "fdiv \<dots> (Fin 100) = round64 (of_int n)" by simp
  also have "\<dots> = Fin (of_int n)" using n by (intro round64_of_int) simp
  finally show ?thesis .
qed

text \<open>Arithmetic on whole rupee amounts below \<open>2 ^ 46\<close> is exact.\<close>

lemma rupee_arith:
  assumes "\<bar>a\<bar> \<le> 1000000000000" "\<bar>b\<bar> \<le> 1000000000000" "0 < q" "\<bar>a * q\<bar> \<le> 1000000000000" "\<bar>b * q\<bar> \<le> 1000000000000"
  shows "fsub (Fin (of_int a)) (Fin (of_int b)) = Fin (of_int (a - b))"
    and "fmul (Fin (of_int a)) (Fin (of_int q)) = Fin (of_int (a * q))"
    and "fmul (Fin (of_int (a - b))) (Fin (of_int q)) = Fin (of_int ((a - b) * q))"
    and "fdiv (Fin (of_int (a * q))) (Fin (of_int q)) = Fin (of_int a)"
proof -
  have "(of_int a + - of_int b :: rat) = of_int (a - b)" by simp
  moreover have "\<bar>a - b\<bar> \<le> 2 ^ 53" using assms(1,2) by (auto simp: abs_le_iff)
  ultimately show "fsub (Fin (of_int a)) (Fin (of_int b)) = Fin (of_int (a - b))"
    by (simp only: fsub_def fneg.simps fadd.simps round64_of_int)
  have "\<bar>a * q\<bar> \<le> 2 ^ 53" using assms(4) by (auto simp: abs_le_iff)
  then show "fmul (Fin (of_int a)) (Fin (of_int q)) = Fin (of_int (a * q))"
    by (simp only: fmul.simps round64_of_int flip: of_int_mult)
  have "(a - b) * q = a * q - b * q" by (simp add: algebra_simps)
  then have "\<bar>(a - b) * q\<bar> \<le> 2 ^ 53" using assms(4,5) by (auto simp: abs_le_iff)
  then show "fmul (Fin (of_int (a - b))) (Fin (of_int q)) = Fin (of_int ((a - b) * q))"
    by (simp only: fmul.simps round64_of_int flip: of_int_mult)
  have "of_int (a * q) / of_int q = (of_int a :: rat)" using assms(3) by simp
  moreover have "\<bar>a\<bar> \<le> 2 ^ 53" using assms(1) by (auto simp: abs_le_iff)
  ultimately show "fdiv (Fin (of_int (a * q))) (Fin (of_int q)) = Fin (of_int a)"
    using assms(3) by (simp only: fdiv.simps round64_of_int of_int_eq_0_iff if_False less_irrefl) auto
qed

lemma fadd_zero_left:
  assumes "\<bar>n\<bar> \<le> 2 ^ 53"
  shows "fadd (Fin 0) (Fin (of_int n)) = Fin (of_int n)"
  using round64_of_int [OF assms] by simp

lemma whole_rupee_fill:
  assumes "\<bar>a\<bar> \<le> 1000000000000" "0 < q" "q \<le> 1000000000000" "\<bar>a * q\<bar> \<le> 1000000000000"
  shows "round2 (fdiv (fadd (fmul (Fin 0) (float64 0)) (fmul (Fin (of_int a)) (float64 q))) (float64 q)) = Fin (of_int a)"
proof -
  have q: "float64 q = Fin (of_int q)" using assms(2,3) by (intro float64_small) simp
  have "fmul (Fin 0) (float64 0) = Fin 0" by (simp add: float64_def)
  moreover have "fmul (Fin (of_int a)) (float64 q) = Fin (of_int (a * q))"
    unfolding q using assms by (intro rupee_arith(2) [of _ 0]) auto
  moreover have "fadd (Fin 0) (Fin (of_int (a * q))) = Fin (of_int (a * q))"
    using assms(4) by (intro fadd_zero_left) (auto simp: abs_le_iff)
  moreover have "fdiv (Fin (of_int (a * q))) (float64 q) = Fin (of_int a)"
    unfolding q using assms by (intro rupee_arith(4) [of _ 0]) auto
  moreover have "\<bar>a\<bar> \<le> 2 ^ 46" using assms(1) by (auto simp: abs_le_iff)
  ultimately show ?thesis by (simp only: round2_int)
qed

lemma whole_rupee_profit:
  assumes "\<bar>a\<bar> \<le> 1000000000000" "\<bar>b\<bar> \<le> 1000000000000" "0 < q" "q \<le> 1000000000000" "\<bar>a * q\<bar> \<le> 1000000000000" "\<bar>b * q\<bar> \<le> 1000000000000"
  shows "round2 (fadd (Fin 0) (fmul (fsub (Fin (of_int b)) (Fin (of_int a))) (float64 q))) = Fin (of_int ((b - a) * q))"
proof -
  have q: "float64 q = Fin (of_int q)" using assms(3,4) by (intro float64_small) simp
  have "(b - a) * q = b * q - a * q" by (simp add: algebra_simps)
  then have n: "\<bar>(b - a) * q\<bar> \<le> 2 ^ 46" using assms(5,6) by (auto simp: abs_le_iff)
  have "fmul (fsub (Fin (of_int b)) (Fin (of_int a))) (float64 q) = Fin (of_int ((b - a) * q))"
    unfolding q using assms by (simp only: rupee_arith(1,3))
  moreover have "fadd (Fin 0) (Fin (of_int ((b - a) * q))) = Fin (of_int ((b - a) * q))"
    using n by (intro fadd_zero_left) (auto simp: abs_le_iff)
  ultimately show ?thesis using n by (simp only: round2_int)
qed

text \<open>Closing a position realizes the price difference: opening \<open>q\<close> shares long at \<open>a\<close> and selling
  them at \<open>b\<close>, or opening short at \<open>b\<close> and covering at \<open>a\<close>, leaves a flat position with a
  realized profit of exactly \<open>(b - a) * q\<close>, for whole rupee prices and amounts up to \<open>10 ^ 12\<close>.\<close>

lemma closing_realizes_difference:
  assumes "\<bar>a\<bar> \<le> 1000000000000" "\<bar>b\<bar> \<le> 1000000000000" "0 < q" "q \<le> 1000000000000" "\<bar>a * q\<bar> \<le> 1000000000000" "\<bar>b * q\<bar> \<le> 1000000000000"
    and "flat = empty_position now c sy ex pr"
  shows "(let p = applyShortSell t2 q (Fin (of_int b)) pr' (applyBuy t1 q (Fin (of_int a)) flat)
      in pos_Quantity p = 0 \<and> pos_RealizedPnL p = Fin (of_int ((b - a) * q))) \<and>
    (let p = applyBuy t2 q (Fin (of_int a)) (applyShortSell t1 q (Fin (of_int b)) pr' flat)
      in pos_Quantity p = 0 \<and> pos_RealizedPnL p = Fin (of_int ((b - a) * q)))"
proof -
  have q: "in64 q" "in64 (- q)" using assms(3,4) by (auto simp: in64_def)
  note i = add64_id sub64_id neg64_id in64_def
  have long: "pos_Quantity (applyBuy t1 q (Fin (of_int a)) flat) = q"
    "pos_BuyAvg (applyBuy t1 q (Fin (of_int a)) flat) = Fin (of_int a)"
    "pos_RealizedPnL (applyBuy t1 q (Fin (of_int a)) flat) = Fin 0"
    using assms(3,7) q whole_rupee_fill [OF assms(1,3,4,5)]
    by (simp_all add: applyBuy_def add_long_def empty_position_def Let_def i)
  have short: "pos_Quantity (applyShortSell t1 q (Fin (of_int b)) pr' flat) = - q"
    "pos_SellAvg (applyShortSell t1 q (Fin (of_int b)) pr' flat) = Fin (of_int b)"
    "pos_RealizedPnL (applyShortSell t1 q (Fin (of_int b)) pr' flat) = Fin 0"
    using assms(3,7) q whole_rupee_fill [OF assms(2,3,4,6)]
    by (simp_all add: applyShortSell_def go_short_def empty_position_def Let_def i)
  have "pos_Quantity (applyShortSell t2 q pr2 pr' p) = 0 \<and> pos_RealizedPnL (applyShortSell t2 q pr2 pr' p) =
      round2 (fadd (pos_RealizedPnL p) (fmul (fsub pr2 (pos_BuyAvg p)) (float64 q)))"
    if "pos_Quantity p = q" for p pr2
    using that assms(3) q by (simp add: applyShortSell_def sell_long_def Let_def i)
  moreover have "pos_Quantity (applyBuy t2 q pr2 p) = 0 \<and> pos_RealizedPnL (applyBuy t2 q pr2 p) =
      round2 (fadd (pos_RealizedPnL p) (fmul (fsub (pos_SellAvg p) pr2) (float64 q)))"
    if "pos_Quantity p = - q" for p pr2
    using that assms(3) q by (simp add: applyBuy_def cover_short_def Let_def i)
  ultimately show ?thesis
    using long short whole_rupee_profit [OF assms(1-6)] by (simp add: Let_def)
qed

lemma closing_realizes_difference_witness:
  "pos_RealizedPnL (applyShortSell 2 100 (Fin 1510) MIS
     (applyBuy 1 100 (Fin 1500) (empty_position 0 ''A'' ''INFY'' NSE MIS))) = Fin 1000"
  using closing_realizes_difference [of 1500 1510 100 _ 0 "''A''" "''INFY''" NSE MIS 2 MIS 1] by (simp add: Let_def)

text \<open>Position keys identify client, symbol and product as long as client and symbol contain no
  colon, so no two clients can share a position.\<close>

lemma position_keys_unique:
  assumes "CHR '':'' \<notin> set c" "CHR '':'' \<notin> set c'" "CHR '':'' \<notin> set s" "CHR '':'' \<notin> set s'"
    and "PositionKey c s p = PositionKey c' s' p'"
  shows "c = c' \<and> s = s' \<and> p = p'"
proof -
  have "c @ CHR '':'' # (s @ CHR '':'' # p) = c' @ CHR '':'' # (s' @ CHR '':'' # p')"
    using assms(5) by (simp add: PositionKey_def)
  from first_separator_inj [OF this assms(1,2)] first_separator_inj [of s "CHR '':''" p s' p'] assms(3,4)
  show ?thesis by simp
qed

lemma position_keys_unique_witness: "PositionKey ''A'' ''INFY'' MIS \<noteq> PositionKey ''A'' ''TCS'' MIS"
  using position_keys_unique [of "''A''" "''A''" "''INFY''" "''TCS''" MIS MIS] by auto

section \<open>Price ticks\<close>

definition tick :: "instant \<Rightarrow> string \<Rightarrow> f64 \<Rightarrow> Position \<Rightarrow> Position" where
  "tick now symbol ltp pos =
     (if pos_Symbol pos \<noteq> symbol \<or> pos_Quantity pos = 0 then pos else mark_position now ltp pos)"

lemma tick_position_map:
  "pm_positions (tick_position now symbol ltp k m) =
     (pm_positions m)(k := map_option (tick now symbol ltp) (pm_positions m k))"
  by (auto simp: tick_position_def tick_def put_position_def Let_def fun_eq_iff split: option.splits)

lemma UpdateLTP_map:
  "distinct ks \<Longrightarrow> pm_positions (UpdateLTP now ks symbol ltp m) k =
     (if k \<in> set ks then map_option (tick now symbol ltp) (pm_positions m k) else pm_positions m k)"
proof (induction ks arbitrary: m)
  case (Cons j ks)
  then show ?case
    using Cons.IH [of "tick_position now symbol ltp j m"] by (auto simp: UpdateLTP_def tick_position_map)
qed (simp add: UpdateLTP_def)

text \<open>A price tick re-marks exactly the open positions of its symbol, each once and in any order
  Go's map iteration visits them; quantities, average prices and realized profit never change.\<close>

lemma price_tick_marks_open_positions:
  assumes "distinct ks" "set ks = dom (pm_positions m)"
  shows "pm_positions (UpdateLTP now ks symbol ltp m) k =
      (case pm_positions m k of None \<Rightarrow> None
       | Some pos \<Rightarrow> Some (if pos_Symbol pos = symbol \<and> pos_Quantity pos \<noteq> 0
           then mark_position now ltp pos else pos)) \<and>
    net (UpdateLTP now ks symbol ltp m) k = net m k \<and>
    (\<forall>pos. pos_RealizedPnL (mark_position now ltp pos) = pos_RealizedPnL pos \<and>
       pos_BuyAvg (mark_position now ltp pos) = pos_BuyAvg pos \<and>
       pos_SellAvg (mark_position now ltp pos) = pos_SellAvg pos)"
proof -
  have mark: "pos_Quantity (mark_position now ltp pos) = pos_Quantity pos"
    "pos_RealizedPnL (mark_position now ltp pos) = pos_RealizedPnL pos"
    "pos_BuyAvg (mark_position now ltp pos) = pos_BuyAvg pos"
    "pos_SellAvg (mark_position now ltp pos) = pos_SellAvg pos" for pos
    by (simp_all add: mark_position_def Let_def)
  have "k \<notin> set ks \<Longrightarrow> pm_positions m k = None" using assms(2) by auto
  with mark show ?thesis
    by (auto simp: UpdateLTP_map [OF assms(1)] net_def tick_def split: option.split)
qed

lemma price_tick_marks_open_positions_witness:
  "net (UpdateLTP 3 [''A:INFY:MIS'', ''B:INFY:MIS'', ''C:INFY:MIS''] ''INFY'' (Fin 1520)
     (apply_trades ex_trades NewPManager)) ''B:INFY:MIS'' =
   net (apply_trades ex_trades NewPManager) ''B:INFY:MIS''"
proof -
  have "set [''A:INFY:MIS'', ''B:INFY:MIS'', ''C:INFY:MIS''] = dom (pm_positions (apply_trades ex_trades NewPManager))"
    unfolding apply_trades_dom
    by (auto simp: ex_trades_def NewPManager_def ex_trade_def buy_key_def sell_key_def
        PositionKey_def NewOrder_def go_constants)
  from price_tick_marks_open_positions [OF _ this] show ?thesis by simp
qed

section \<open>Behaviours outside the intended contract\<close>

text \<open>
  Selling from a long position counts into \<^verbatim>\<open>SellQty\<close> without entering \<^verbatim>\<open>SellAvg\<close>, so a reversal from
  long to short dilutes the average sell price: long 100 at 100, then 150 sold at 110 leaves a
  short of 50 shares with an average sell price of 36.67. Keys collide for names with colons.
\<close>

lemma reversal_dilutes_sell_average:
  "let p = applyShortSell 2 150 (Fin 110) MIS (applyBuy 1 100 (Fin 100) (empty_position 0 ''A'' ''INFY'' NSE MIS))
   in pos_Quantity p = - 50 \<and> pos_SellAvg p = flit (3667 / 100)"
  by code_simp

lemma position_keys_collide: "PositionKey ''A:B'' ''C'' MIS = PositionKey ''A'' ''B:C'' MIS"
  by (simp add: PositionKey_def)

end
