(* ===== verification/Gtt_Manager.thy ===== *)
theory Gtt_Manager
  imports Models
begin

text \<open>
  Good-till-triggered orders, \<^verbatim>\<open>internal/gtt/gtt.go\<close>. The manager owns a map from identifiers to GTT
  orders; events refer to an order by its identifier, since the code sends the pointer. The
  two interfaces the manager calls are arguments of \<open>scan\<close>: \<open>place\<close> is \<^verbatim>\<open>OrderPlacer.PlaceOrder\<close>, which
  transforms the state \<open>'w\<close> behind it and may update the order it is given, and \<open>getLTP\<close> is
  \<^verbatim>\<open>LTPProvider.GetLTP\<close> on that state. The order of Go's map iteration is the argument \<open>keys\<close>. A
  send on the event channel waits for room; the queue grows in the model.
\<close>

section \<open>State\<close>

type_synonym TriggerCondition = string

definition LTPAbove :: TriggerCondition where "LTPAbove = ''LTP_ABOVE''"
definition LTPBelow :: TriggerCondition where "LTPBelow = ''LTP_BELOW''"

datatype GTTStatus = GTTActive | GTTTriggered | GTTExecuted | GTTCancelled | GTTExpired

fun gtt_status_string :: "GTTStatus \<Rightarrow> string" where
  "gtt_status_string GTTActive = ''ACTIVE''"
| "gtt_status_string GTTTriggered = ''TRIGGERED''"
| "gtt_status_string GTTExecuted = ''EXECUTED''"
| "gtt_status_string GTTCancelled = ''CANCELLED''"
| "gtt_status_string GTTExpired = ''EXPIRED''"

record GTTOrder =
  g_ID :: string
  g_ClientID :: string
  g_Symbol :: string
  g_Exchange :: Exchange
  g_Condition :: TriggerCondition
  g_TriggerPrice :: f64
  g_Side :: OrderSide
  g_OrderType :: OrderType
  g_ProductType :: ProductType
  g_Quantity :: int
  g_LimitPrice :: f64
  g_PairedGTTID :: string
  g_Status :: GTTStatus
  g_StatusMsg :: string
  g_FiredOrderID :: string
  g_CreatedAt :: instant
  g_UpdatedAt :: instant
  g_ExpiresAt :: "instant option"

record GTTEvent =
  ge_GTT :: string
  ge_Event :: string

record GManager =
  gm_orders :: "string \<rightharpoonup> GTTOrder"
  gm_counter :: int
  gm_eventCh :: "GTTEvent list"

datatype gtt_error =
    TriggerPriceNotPositive
  | GttQuantityNotPositive
  | SymbolRequired
  | GttNotFound string
  | GttNotActive string GTTStatus

fun gtt_error_string :: "gtt_error \<Rightarrow> string" where
  "gtt_error_string TriggerPriceNotPositive = ''trigger_price must be positive''"
| "gtt_error_string GttQuantityNotPositive = ''quantity must be positive''"
| "gtt_error_string SymbolRequired = ''symbol required''"
| "gtt_error_string (GttNotFound i) = ''GTT '' @ i @ '' not found''"
| "gtt_error_string (GttNotActive i s) =
     ''GTT '' @ i @ '' is not active (status: '' @ gtt_status_string s @ '')''"

section \<open>Operations\<close>

definition NewGManager :: GManager where
  "NewGManager = \<lparr>gm_orders = Map.empty, gm_counter = 0, gm_eventCh = []\<rparr>"

definition IsExpired :: "instant \<Rightarrow> GTTOrder \<Rightarrow> bool" where
  "IsExpired now g = (case g_ExpiresAt g of None \<Rightarrow> False | Some t \<Rightarrow> t < now)"

definition CheckCondition :: "f64 \<Rightarrow> GTTOrder \<Rightarrow> bool" where
  "CheckCondition ltp g =
     (if g_Condition g = LTPAbove then fle (g_TriggerPrice g) ltp
      else if g_Condition g = LTPBelow then fle ltp (g_TriggerPrice g)
      else False)"

definition put_gtt :: "string \<Rightarrow> GTTOrder \<Rightarrow> GManager \<Rightarrow> GManager" where
  "put_gtt k g m = m\<lparr>gm_orders := (gm_orders m)(k \<mapsto> g)\<rparr>"

definition gtt_event :: "string \<Rightarrow> string \<Rightarrow> GManager \<Rightarrow> GManager" where
  "gtt_event k ev m = m\<lparr>gm_eventCh := gm_eventCh m @ [\<lparr>ge_GTT = k, ge_Event = ev\<rparr>]\<rparr>"

definition gtt_id :: "string \<Rightarrow> int \<Rightarrow> string" where
  "gtt_id clientID n = ''GTT-'' @ clientID @ ''-'' @ show_int n"

definition gtt_Add :: "instant \<Rightarrow> GTTOrder \<Rightarrow> GManager \<Rightarrow> (GManager \<times> GTTOrder) \<times> gtt_error option" where
  "gtt_Add now g m =
     (if fle (g_TriggerPrice g) (Fin 0) then ((m, g), Some TriggerPriceNotPositive)
      else if g_Quantity g \<le> 0 then ((m, g), Some GttQuantityNotPositive)
      else if g_Symbol g = [] then ((m, g), Some SymbolRequired)
      else
        let m1 = m\<lparr>gm_counter := add64 (gm_counter m) 1\<rparr>;
            g1 = g\<lparr>g_ID := gtt_id (g_ClientID g) (gm_counter m1), g_Status := GTTActive,
                   g_CreatedAt := now, g_UpdatedAt := now\<rparr>
        in ((put_gtt (g_ID g1) g1 m1, g1), None))"

definition gtt_Cancel :: "instant \<Rightarrow> string \<Rightarrow> GManager \<Rightarrow> GManager \<times> gtt_error option" where
  "gtt_Cancel now gttID m =
     (case gm_orders m gttID of
        None \<Rightarrow> (m, Some (GttNotFound gttID))
      | Some g \<Rightarrow>
          if g_Status g \<noteq> GTTActive then (m, Some (GttNotActive gttID (g_Status g)))
          else (gtt_event gttID ''cancelled''
                  (put_gtt gttID (g\<lparr>g_Status := GTTCancelled, g_UpdatedAt := now\<rparr>) m), None))"

definition GetByClient :: "string list \<Rightarrow> string \<Rightarrow> GManager \<Rightarrow> GTTOrder list" where
  "GetByClient keys clientID m =
     filter (\<lambda>g. g_ClientID g = clientID) (List.map_filter (gm_orders m) keys)"

definition buildOrder :: "instant \<Rightarrow> GTTOrder \<Rightarrow> f64 \<Rightarrow> Order" where
  "buildOrder now g ltp =
     (let order = (NewOrder now (g_ClientID g) (g_Symbol g))
            \<lparr>o_Exchange := g_Exchange g, o_Side := g_Side g, o_ProductType := g_ProductType g,
             o_Validity := DAY, o_Quantity := g_Quantity g, o_Tag := ''GTT:'' @ g_ID g\<rparr>
      in if flt (Fin 0) (g_LimitPrice g)
         then order\<lparr>o_OrderType := Limit, o_Price := g_LimitPrice g\<rparr>
         else order\<lparr>o_OrderType := Market, o_Price := ltp\<rparr>)"

text \<open>Cancelling the other half of a one-cancels-other pair.\<close>

definition cancel_pair :: "instant \<Rightarrow> GTTOrder \<Rightarrow> GManager \<Rightarrow> GManager" where
  "cancel_pair now g m =
     (if g_PairedGTTID g \<noteq> [] then
        (case gm_orders m (g_PairedGTTID g) of
           None \<Rightarrow> m
         | Some paired \<Rightarrow>
             if g_Status paired = GTTActive
             then gtt_event (g_PairedGTTID g) ''cancelled''
                    (put_gtt (g_PairedGTTID g)
                       (paired\<lparr>g_Status := GTTCancelled,
                               g_StatusMsg := ''Cancelled by OCO pair '' @ g_ID g,
                               g_UpdatedAt := now\<rparr>) m)
             else m)
      else m)"

definition scan_one :: "(Order \<Rightarrow> 'w \<Rightarrow> ('w \<times> Order) \<times> 'e option) \<Rightarrow> ('w \<Rightarrow> string \<Rightarrow> f64) \<Rightarrow> instant \<Rightarrow>
    string \<Rightarrow> GManager \<times> 'w \<Rightarrow> GManager \<times> 'w" where
  "scan_one place getLTP now k st =
     (let (m, w) = st in
      case gm_orders m k of
        None \<Rightarrow> (m, w)
      | Some g \<Rightarrow>
          if g_Status g \<noteq> GTTActive then (m, w)
          else if IsExpired now g
          then (gtt_event k ''expired'' (put_gtt k (g\<lparr>g_Status := GTTExpired, g_UpdatedAt := now\<rparr>) m), w)
          else
            let ltp = getLTP w (g_Symbol g) in
            if fle ltp (Fin 0) then (m, w)
            else if \<not> CheckCondition ltp g then (m, w)
            else
              let g1 = g\<lparr>g_Status := GTTTriggered, g_UpdatedAt := now\<rparr>;
                  m1 = put_gtt k g1 m;
                  ((w1, order), err) = place (buildOrder now g1 ltp) w
              in case err of
                   Some _ \<Rightarrow> (put_gtt k (g1\<lparr>g_Status := GTTActive\<rparr>) m1, w1)
                 | None \<Rightarrow>
                     let g2 = g1\<lparr>g_FiredOrderID := o_OrderID order\<rparr>
                     in (cancel_pair now g2 (gtt_event k ''triggered'' (put_gtt k g2 m1)), w1))"

definition scan :: "(Order \<Rightarrow> 'w \<Rightarrow> ('w \<times> Order) \<times> 'e option) \<Rightarrow> ('w \<Rightarrow> string \<Rightarrow> f64) \<Rightarrow> instant \<Rightarrow>
    string list \<Rightarrow> GManager \<times> 'w \<Rightarrow> GManager \<times> 'w" where
  "scan place getLTP now keys st = fold (scan_one place getLTP now) keys st"

section \<open>Runs\<close>

text \<open>
  The operations of the manager as steps: registrations, cancellations and the visits of a scan,
  one order at a time, so that a run covers every interleaving.
\<close>

inductive gtt_run :: "(Order \<Rightarrow> 'w \<Rightarrow> ('w \<times> Order) \<times> 'e option) \<Rightarrow> ('w \<Rightarrow> string \<Rightarrow> f64) \<Rightarrow>
    GManager \<times> 'w \<Rightarrow> GManager \<times> 'w \<Rightarrow> bool" for place getLTP where
  start: "gtt_run place getLTP st st"
| add: "gtt_run place getLTP st (m, w) \<Longrightarrow> gm_counter m + 1 < 2 ^ 63 \<Longrightarrow>
    gtt_run place getLTP st (fst (fst (gtt_Add now g m)), w)"
| cancel: "gtt_run place getLTP st (m, w) \<Longrightarrow> gtt_run place getLTP st (fst (gtt_Cancel now k m), w)"
| visit: "gtt_run place getLTP st s \<Longrightarrow> gtt_run place getLTP st (scan_one place getLTP now k s)"
| world: "gtt_run place getLTP st (m, w) \<Longrightarrow> gtt_run place getLTP st (m, w')"

abbreviation triggered_events :: "string \<Rightarrow> GManager \<Rightarrow> nat" where
  "triggered_events k m \<equiv> count_list (gm_eventCh m) \<lparr>ge_GTT = k, ge_Event = ''triggered''\<rparr>"

text \<open>
  The invariant: identifiers are those the counter has issued, every registered order knows its
  own, and an order has been announced as triggered exactly once if it is triggered and never
  otherwise.
\<close>

definition gtt_inv :: "GManager \<Rightarrow> bool" where
  "gtt_inv m \<longleftrightarrow> 0 \<le> gm_counter m \<and>
     (\<forall>k g. gm_orders m k = Some g \<longrightarrow>
        g_ID g = k \<and> (\<exists>n. 0 < n \<and> n \<le> gm_counter m \<and> k = gtt_id (g_ClientID g) n)) \<and>
     (\<forall>k. triggered_events k m =
        (case gm_orders m k of None \<Rightarrow> 0 | Some g \<Rightarrow> if g_Status g = GTTTriggered then 1 else 0))"

lemma gtt_id_inj: "0 \<le> m \<Longrightarrow> 0 \<le> n \<Longrightarrow> gtt_id c m = gtt_id c' n \<Longrightarrow> c = c' \<and> m = n"
proof -
  assume n: "0 \<le> m" "0 \<le> n" and eq: "gtt_id c m = gtt_id c' n"
  have dash: "CHR ''-'' \<notin> set (nat_digits m)" "CHR ''-'' \<notin> set (nat_digits n)"
    using n show_int_no_char [of m "CHR ''-''"] show_int_no_char [of n "CHR ''-''"] by auto
  from eq n have "c @ CHR ''-'' # nat_digits m = c' @ CHR ''-'' # nat_digits n" by (simp add: gtt_id_def)
  with dash have "c = c' \<and> nat_digits m = nat_digits n" by (intro last_separator_inj)
  with n show ?thesis by (auto intro: nat_digits_inj)
qed

lemma gtt_simps [simp]:
  "gm_orders (put_gtt k g m) = (gm_orders m)(k \<mapsto> g)" "gm_counter (put_gtt k g m) = gm_counter m"
  "gm_eventCh (put_gtt k g m) = gm_eventCh m"
  "gm_orders (gtt_event k ev m) = gm_orders m" "gm_counter (gtt_event k ev m) = gm_counter m"
  "gm_eventCh (gtt_event k ev m) = gm_eventCh m @ [\<lparr>ge_GTT = k, ge_Event = ev\<rparr>]"
  by (simp_all add: put_gtt_def gtt_event_def)

lemma gtt_inv_New: "gtt_inv NewGManager"
  by (simp add: gtt_inv_def NewGManager_def)

text \<open>The identifier of a new order is fresh.\<close>

lemma gtt_fresh:
  assumes "gtt_inv m" "gm_counter m < n"
  shows "gm_orders m (gtt_id c n) = None"
proof (rule ccontr)
  assume "gm_orders m (gtt_id c n) \<noteq> None"
  then obtain g where g: "gm_orders m (gtt_id c n) = Some g" by blast
  with assms(1) obtain i where i: "0 < i" "i \<le> gm_counter m" "gtt_id c n = gtt_id (g_ClientID g) i"
    unfolding gtt_inv_def by blast
  moreover have "0 \<le> n" using assms by (simp add: gtt_inv_def)
  ultimately have "n = i" using gtt_id_inj [of n i] by simp
  with i(2) assms(2) show False by simp
qed

text \<open>Replacing an order by one with the same identity keeps the invariant when the events keep up.\<close>

lemma gtt_inv_update:
  assumes "gtt_inv m" "gm_orders m k = Some g" "g_ID g' = g_ID g" "g_ClientID g' = g_ClientID g"
    and "m' = (put_gtt k g' m)\<lparr>gm_eventCh := gm_eventCh m @ es\<rparr>"
    and "count_list es \<lparr>ge_GTT = k, ge_Event = ''triggered''\<rparr> + (if g_Status g = GTTTriggered then 1 else 0) =
      (if g_Status g' = GTTTriggered then 1 else 0)"
    and "\<And>j. j \<noteq> k \<Longrightarrow> count_list es \<lparr>ge_GTT = j, ge_Event = ''triggered''\<rparr> = 0"
  shows "gtt_inv m'"
proof -
  have "triggered_events j m' = (case gm_orders m' j of None \<Rightarrow> 0 | Some g \<Rightarrow> if g_Status g = GTTTriggered then 1 else 0)" for j
  proof (cases "j = k")
    case True
    have "triggered_events k m = (if g_Status g = GTTTriggered then 1 else 0)"
      using assms(1,2) by (simp add: gtt_inv_def)
    with True assms(6) show ?thesis by (simp add: assms(5))
  next
    case False
    have "triggered_events j m = (case gm_orders m j of None \<Rightarrow> 0 | Some g \<Rightarrow> if g_Status g = GTTTriggered then 1 else 0)"
      using assms(1) by (simp add: gtt_inv_def)
    with False assms(7) show ?thesis by (simp add: assms(5))
  qed
  with assms(1-4) show ?thesis by (auto simp: gtt_inv_def assms(5))
qed

lemma gtt_inv_Add:
  assumes "gtt_inv m" "gm_counter m + 1 < 2 ^ 63"
  shows "gtt_inv (fst (fst (gtt_Add now g m)))"
proof (cases "snd (gtt_Add now g m)")
  case (Some e)
  then have "fst (fst (gtt_Add now g m)) = m" by (auto simp: gtt_Add_def Let_def split: if_splits)
  with assms(1) show ?thesis by simp
next
  case None
  let ?n = "gm_counter m + 1" let ?k = "gtt_id (g_ClientID g) ?n"
  have n: "0 \<le> gm_counter m" using assms(1) by (simp add: gtt_inv_def)
  with assms(2) have "add64 (gm_counter m) 1 = ?n" by (intro add64_id) (simp add: in64_def)
  with None have m': "fst (fst (gtt_Add now g m)) =
      put_gtt ?k (g\<lparr>g_ID := ?k, g_Status := GTTActive, g_CreatedAt := now, g_UpdatedAt := now\<rparr>)
        (m\<lparr>gm_counter := ?n\<rparr>)"
    by (auto simp: gtt_Add_def Let_def split: if_splits)
  have "gm_orders m ?k = None" using assms(1) by (rule gtt_fresh) simp
  with assms(1) have zero: "triggered_events ?k m = 0" by (simp add: gtt_inv_def)
  have "\<exists>i. 0 < i \<and> i \<le> ?n \<and> k = gtt_id (g_ClientID h) i" "g_ID h = k" if "gm_orders m k = Some h" for k h
    using assms(1) that unfolding gtt_inv_def by force+
  moreover have "triggered_events k m =
      (case gm_orders m k of None \<Rightarrow> 0 | Some g \<Rightarrow> if g_Status g = GTTTriggered then 1 else 0)" for k
    using assms(1) by (simp add: gtt_inv_def)
  moreover have "triggered_events j (fst (fst (gtt_Add now g m))) = triggered_events j m" for j by (simp add: m')
  moreover have "\<exists>i. 0 < i \<and> i \<le> ?n \<and> ?k = gtt_id (g_ClientID g) i" using n by (intro exI [of _ ?n]) simp
  ultimately show ?thesis using n zero by (auto simp: gtt_inv_def m')
qed

lemma gtt_inv_Cancel:
  assumes "gtt_inv m"
  shows "gtt_inv (fst (gtt_Cancel now k m))"
proof (cases "\<exists>g. gm_orders m k = Some g \<and> g_Status g = GTTActive")
  case True
  then obtain g where g: "gm_orders m k = Some g" "g_Status g = GTTActive" by blast
  show ?thesis
    by (rule gtt_inv_update [OF assms g(1), where es = "[\<lparr>ge_GTT = k, ge_Event = ''cancelled''\<rparr>]"])
      (use g in \<open>auto simp: gtt_Cancel_def gtt_event_def put_gtt_def\<close>)
next
  case False
  then have "fst (gtt_Cancel now k m) = m" by (auto simp: gtt_Cancel_def split: option.splits)
  with assms show ?thesis by simp
qed

lemma cancel_pair_cases:
  obtains "cancel_pair now g m = m"
    "\<And>paired. gm_orders m (g_PairedGTTID g) = Some paired \<Longrightarrow> g_PairedGTTID g \<noteq> [] \<Longrightarrow> g_Status paired \<noteq> GTTActive"
  | paired where "gm_orders m (g_PairedGTTID g) = Some paired" "g_Status paired = GTTActive"
    "cancel_pair now g m = gtt_event (g_PairedGTTID g) ''cancelled'' (put_gtt (g_PairedGTTID g)
       (paired\<lparr>g_Status := GTTCancelled, g_StatusMsg := ''Cancelled by OCO pair '' @ g_ID g, g_UpdatedAt := now\<rparr>) m)"
proof (cases "\<exists>paired. g_PairedGTTID g \<noteq> [] \<and> gm_orders m (g_PairedGTTID g) = Some paired \<and> g_Status paired = GTTActive")
  case True
  then obtain paired where "g_PairedGTTID g \<noteq> []" "gm_orders m (g_PairedGTTID g) = Some paired" "g_Status paired = GTTActive"
    by blast
  then show thesis by (intro that(2)) (simp_all add: cancel_pair_def)
next
  case False
  then show thesis by (intro that(1)) (auto simp: cancel_pair_def split: option.split)
qed

lemma gtt_inv_cancel_pair:
  assumes "gtt_inv m"
  shows "gtt_inv (cancel_pair now g m)"
proof (cases rule: cancel_pair_cases [of now g m])
  case 1
  with assms show ?thesis by simp
next
  case (2 paired)
  show ?thesis
    by (rule gtt_inv_update [OF assms 2(1), where es = "[\<lparr>ge_GTT = g_PairedGTTID g, ge_Event = ''cancelled''\<rparr>]"])
      (use 2 in \<open>auto simp: gtt_event_def put_gtt_def\<close>)
qed

text \<open>The outcomes of visiting one order.\<close>

definition fires :: "('w \<Rightarrow> string \<Rightarrow> f64) \<Rightarrow> instant \<Rightarrow> GTTOrder \<Rightarrow> 'w \<Rightarrow> bool" where
  "fires getLTP now g w \<longleftrightarrow> \<not> IsExpired now g \<and> \<not> fle (getLTP w (g_Symbol g)) (Fin 0) \<and>
     CheckCondition (getLTP w (g_Symbol g)) g"

lemma scan_one_cases:
  obtains (skip) "scan_one place getLTP now k (m, w) = (m, w)"
      "\<And>g. gm_orders m k = Some g \<Longrightarrow> g_Status g = GTTActive \<Longrightarrow> \<not> IsExpired now g \<and> \<not> fires getLTP now g w"
  | (expire) g where "gm_orders m k = Some g" "g_Status g = GTTActive" "IsExpired now g"
      "scan_one place getLTP now k (m, w) =
        (gtt_event k ''expired'' (put_gtt k (g\<lparr>g_Status := GTTExpired, g_UpdatedAt := now\<rparr>) m), w)"
  | (fail) g w1 order e where "gm_orders m k = Some g" "g_Status g = GTTActive" "fires getLTP now g w"
      "place (buildOrder now (g\<lparr>g_Status := GTTTriggered, g_UpdatedAt := now\<rparr>) (getLTP w (g_Symbol g))) w =
        ((w1, order), Some e)"
      "scan_one place getLTP now k (m, w) = (put_gtt k (g\<lparr>g_UpdatedAt := now\<rparr>) m, w1)"
  | (fire) g w1 order where "gm_orders m k = Some g" "g_Status g = GTTActive" "fires getLTP now g w"
      "place (buildOrder now (g\<lparr>g_Status := GTTTriggered, g_UpdatedAt := now\<rparr>) (getLTP w (g_Symbol g))) w =
        ((w1, order), None)"
      "scan_one place getLTP now k (m, w) =
        (let g2 = g\<lparr>g_Status := GTTTriggered, g_UpdatedAt := now, g_FiredOrderID := o_OrderID order\<rparr>
         in cancel_pair now g2 (gtt_event k ''triggered'' (put_gtt k g2 m)), w1)"
proof (cases "\<exists>g. gm_orders m k = Some g \<and> g_Status g = GTTActive \<and> \<not> IsExpired now g \<and> fires getLTP now g w")
  case True
  then obtain g where g: "gm_orders m k = Some g" "g_Status g = GTTActive" "\<not> IsExpired now g" "fires getLTP now g w"
    by blast
  let ?o = "buildOrder now (g\<lparr>g_Status := GTTTriggered, g_UpdatedAt := now\<rparr>) (getLTP w (g_Symbol g))"
  obtain w1 order err where p: "place ?o w = ((w1, order), err)" by (metis prod.collapse)
  have put: "put_gtt k x (put_gtt k y m) = put_gtt k x m" for x y by (simp add: put_gtt_def)
  have act: "g\<lparr>g_UpdatedAt := now, g_Status := GTTActive\<rparr> = g\<lparr>g_UpdatedAt := now\<rparr>"
    using g(2) by (metis GTTOrder.surjective GTTOrder.update_convs(13) GTTOrder.update_convs(17))
  show thesis
  proof (cases err)
    case None
    with g p show thesis by (intro fire) (auto simp: scan_one_def fires_def Let_def put)
  next
    case (Some e)
    with g p show thesis by (intro fail) (auto simp: scan_one_def fires_def Let_def put act)
  qed
next
  case False
  show thesis
  proof (cases "\<exists>g. gm_orders m k = Some g \<and> g_Status g = GTTActive \<and> IsExpired now g")
    case True
    then show thesis by (auto simp: scan_one_def intro: expire)
  next
    case nexp: False
    with False show thesis
      by (intro skip) (auto simp: scan_one_def fires_def Let_def split: option.splits)
  qed
qed

lemma gtt_inv_visit:
  assumes "gtt_inv m"
  shows "gtt_inv (fst (scan_one place getLTP now k (m, w)))"
proof (cases rule: scan_one_cases [of place getLTP now k m w])
  case skip
  with assms show ?thesis by simp
next
  case (expire g)
  show ?thesis
    by (rule gtt_inv_update [OF assms expire(1), where es = "[\<lparr>ge_GTT = k, ge_Event = ''expired''\<rparr>]"])
      (use expire in \<open>auto simp: gtt_event_def put_gtt_def\<close>)
next
  case (fail g w1 order e)
  show ?thesis
    by (rule gtt_inv_update [OF assms fail(1), where es = "[]" and g' = "g\<lparr>g_UpdatedAt := now\<rparr>"])
      (use fail in \<open>auto simp: put_gtt_def\<close>)
next
  case (fire g w1 order)
  let ?g = "g\<lparr>g_Status := GTTTriggered, g_UpdatedAt := now, g_FiredOrderID := o_OrderID order\<rparr>"
  have "gtt_inv (gtt_event k ''triggered'' (put_gtt k ?g m))"
    by (rule gtt_inv_update [OF assms fire(1), where es = "[\<lparr>ge_GTT = k, ge_Event = ''triggered''\<rparr>]"])
      (use fire in \<open>auto simp: gtt_event_def put_gtt_def\<close>)
  then show ?thesis unfolding fire(5) Let_def fst_conv by (rule gtt_inv_cancel_pair)
qed

lemma gtt_run_inv:
  "gtt_run place getLTP st st' \<Longrightarrow> gtt_inv (fst st) \<Longrightarrow> gtt_inv (fst st')"
proof (induction rule: gtt_run.induct)
  case (visit st s now k)
  then show ?case using gtt_inv_visit by (metis prod.collapse)
qed (auto simp: gtt_inv_Add gtt_inv_Cancel)

section \<open>Final states\<close>

lemma gtt_final_Add:
  assumes "gtt_inv m" "gm_counter m + 1 < 2 ^ 63" "gm_orders m k = Some g"
  shows "gm_orders (fst (fst (gtt_Add now g' m))) k = Some g"
proof -
  have n: "0 \<le> gm_counter m" using assms(1) by (simp add: gtt_inv_def)
  then have c: "add64 (gm_counter m) 1 = gm_counter m + 1" using assms(2) by (intro add64_id) (simp add: in64_def)
  have "gm_orders m (gtt_id (g_ClientID g') (gm_counter m + 1)) = None" using assms(1) by (rule gtt_fresh) simp
  then have "k \<noteq> gtt_id (g_ClientID g') (gm_counter m + 1)" using assms(3) by auto
  with assms(3) show ?thesis by (auto simp: gtt_Add_def Let_def c)
qed

lemma gtt_final_Cancel:
  "gm_orders m k = Some g \<Longrightarrow> g_Status g \<noteq> GTTActive \<Longrightarrow> gm_orders (fst (gtt_Cancel now j m)) k = Some g"
  by (auto simp: gtt_Cancel_def split: option.splits)

lemma gtt_final_visit:
  assumes "gm_orders m k = Some g" "g_Status g \<noteq> GTTActive"
  shows "gm_orders (fst (scan_one place getLTP now j (m, w))) k = Some g"
proof (cases rule: scan_one_cases [of place getLTP now j m w])
  case (fire g' w1 order)
  let ?g = "g'\<lparr>g_Status := GTTTriggered, g_UpdatedAt := now, g_FiredOrderID := o_OrderID order\<rparr>"
  let ?m = "gtt_event j ''triggered'' (put_gtt j ?g m)"
  have k: "gm_orders ?m k = Some g" using fire(1,2) assms by auto
  have "gm_orders (cancel_pair now ?g ?m) k = Some g"
  proof (cases rule: cancel_pair_cases [of now ?g ?m])
    case 1
    with k show ?thesis by simp
  next
    case (2 paired)
    with k assms(2) have "g_PairedGTTID ?g \<noteq> k" by auto
    with 2(3) k show ?thesis by simp
  qed
  then show ?thesis unfolding fire(5) Let_def by simp
qed (use assms in auto)

lemma gtt_run_final:
  assumes "gtt_run place getLTP st st'" "gtt_inv (fst st)" "gm_orders (fst st) k = Some g" "g_Status g \<noteq> GTTActive"
  shows "gm_orders (fst st') k = Some g"
  using assms
proof (induction rule: gtt_run.induct)
  case (add st m w now g')
  then show ?case using gtt_run_inv [OF add.hyps(1)] by (auto intro: gtt_final_Add)
next
  case (cancel st m w now j)
  then show ?case by (simp add: gtt_final_Cancel)
next
  case (visit st s now j)
  then show ?case using gtt_final_visit by (metis prod.collapse)
qed auto

section \<open>One cancels other\<close>

text \<open>Two orders that name each other, neither alive once the other has fired.\<close>

definition pair_ok :: "string \<Rightarrow> string \<Rightarrow> GManager \<Rightarrow> bool" where
  "pair_ok a b m \<longleftrightarrow> a \<noteq> b \<and> a \<noteq> [] \<and> b \<noteq> [] \<and>
     (\<exists>ga gb. gm_orders m a = Some ga \<and> gm_orders m b = Some gb \<and>
        g_PairedGTTID ga = b \<and> g_PairedGTTID gb = a \<and>
        (g_Status ga = GTTTriggered \<longrightarrow> g_Status gb \<notin> {GTTActive, GTTTriggered}) \<and>
        (g_Status gb = GTTTriggered \<longrightarrow> g_Status ga \<notin> {GTTActive, GTTTriggered}))"

lemma pair_ok_sym: "pair_ok a b m \<longleftrightarrow> pair_ok b a m"
  by (auto simp: pair_ok_def)

text \<open>A change of one order that neither fires it nor revives it.\<close>

lemma pair_ok_put:
  assumes "pair_ok a b m" "gm_orders m k = Some g" "g_Status g = GTTActive"
    and "g_PairedGTTID g' = g_PairedGTTID g" "g_Status g' \<noteq> GTTTriggered"
  shows "pair_ok a b (put_gtt k g' m)"
  using assms by (auto simp: pair_ok_def)

lemma pair_ok_event [simp]: "pair_ok a b (gtt_event k ev m) = pair_ok a b m"
  by (simp add: pair_ok_def)

lemma pair_ok_cancel_pair:
  assumes "pair_ok a b m"
  shows "pair_ok a b (cancel_pair now g m)"
proof (cases rule: cancel_pair_cases [of now g m])
  case (2 paired)
  from pair_ok_put [OF assms 2(1,2)] show ?thesis by (simp add: 2(3))
qed (use assms in simp)

text \<open>Firing one half: the other half is active and gets cancelled, or was no longer alive.\<close>

lemma pair_ok_fire:
  assumes "pair_ok a b m" "gm_orders m a = Some g" "g_Status g = GTTActive"
    and "g_PairedGTTID g' = g_PairedGTTID g" "g_Status g' = GTTTriggered"
  shows "pair_ok a b (cancel_pair now g' (gtt_event a ev (put_gtt a g' m)))"
proof -
  from assms(1,2) obtain gb where gb: "a \<noteq> b" "a \<noteq> []" "b \<noteq> []" "gm_orders m b = Some gb"
    "g_PairedGTTID g = b" "g_PairedGTTID gb = a" and nt: "g_Status gb \<noteq> GTTTriggered"
    using assms(3) by (auto simp: pair_ok_def)
  let ?m = "gtt_event a ev (put_gtt a g' m)"
  show ?thesis
  proof (cases rule: cancel_pair_cases [of now g' ?m])
    case 1
    have "g_Status gb \<noteq> GTTActive" using 1(2) [of gb] gb assms(4) by simp
    with gb nt assms(4,5) show ?thesis unfolding 1(1) by (auto simp: pair_ok_def)
  next
    case (2 paired)
    with gb assms(4,5) show ?thesis unfolding 2(3) by (auto simp: pair_ok_def)
  qed
qed

lemma pair_ok_visit:
  assumes "pair_ok a b m"
  shows "pair_ok a b (fst (scan_one place getLTP now k (m, w)))"
proof (cases rule: scan_one_cases [of place getLTP now k m w])
  case skip
  with assms show ?thesis by simp
next
  case (expire g)
  from pair_ok_put [OF assms expire(1,2)] show ?thesis by (simp add: expire(4))
next
  case (fail g w1 order e)
  from pair_ok_put [OF assms fail(1,2)] fail(2) show ?thesis by (simp add: fail(5))
next
  case (fire g w1 order)
  let ?g = "g\<lparr>g_Status := GTTTriggered, g_UpdatedAt := now, g_FiredOrderID := o_OrderID order\<rparr>"
  have "pair_ok a b (cancel_pair now ?g (gtt_event k ''triggered'' (put_gtt k ?g m)))"
  proof -
    consider "k = a" | "k = b" | "k \<noteq> a" "k \<noteq> b" by blast
    then show ?thesis
    proof cases
      case 1
      with pair_ok_fire [OF assms, of g ?g] fire(1,2) show ?thesis by simp
    next
      case 2
      with pair_ok_fire [of b a m g ?g] assms fire(1,2) show ?thesis by (simp add: pair_ok_sym)
    next
      case 3
      with assms have "pair_ok a b (gtt_event k ''triggered'' (put_gtt k ?g m))" by (simp add: pair_ok_def)
      then show ?thesis by (rule pair_ok_cancel_pair)
    qed
  qed
  then show ?thesis by (simp add: fire(5) Let_def)
qed

lemma pair_ok_Cancel:
  assumes "pair_ok a b m"
  shows "pair_ok a b (fst (gtt_Cancel now k m))"
proof (cases "\<exists>g. gm_orders m k = Some g \<and> g_Status g = GTTActive")
  case True
  then obtain g where g: "gm_orders m k = Some g" "g_Status g = GTTActive" by blast
  from pair_ok_put [OF assms g] g show ?thesis by (simp add: gtt_Cancel_def)
next
  case False
  then have "fst (gtt_Cancel now k m) = m" by (auto simp: gtt_Cancel_def split: option.splits)
  with assms show ?thesis by simp
qed

lemma pair_ok_Add:
  assumes "gtt_inv m" "gm_counter m + 1 < 2 ^ 63" "pair_ok a b m"
  shows "pair_ok a b (fst (fst (gtt_Add now g m)))"
  using assms(3) gtt_final_Add [OF assms(1,2)] unfolding pair_ok_def by metis

lemma gtt_run_pair:
  assumes "gtt_run place getLTP st st'" "gtt_inv (fst st)" "pair_ok a b (fst st)"
  shows "pair_ok a b (fst st')"
  using assms
proof (induction rule: gtt_run.induct)
  case (add st m w now g')
  then show ?case using gtt_run_inv [OF add.hyps(1)] by (simp add: pair_ok_Add)
next
  case (cancel st m w now j)
  then show ?case by (simp add: pair_ok_Cancel)
next
  case (visit st s now j)
  then show ?case using pair_ok_visit by (metis prod.collapse)
qed auto

section \<open>Properties\<close>

text \<open>An instance: two orders of one client that name each other, and a placer that accepts everything.\<close>

definition ex_gtt :: "TriggerCondition \<Rightarrow> rat \<Rightarrow> string \<Rightarrow> GTTOrder" where
  "ex_gtt cond price pair =
     \<lparr>g_ID = [], g_ClientID = ''C1'', g_Symbol = ''INFY'', g_Exchange = NSE, g_Condition = cond,
      g_TriggerPrice = Fin price, g_Side = Sell, g_OrderType = Limit, g_ProductType = CNC,
      g_Quantity = 10, g_LimitPrice = Fin 0, g_PairedGTTID = pair, g_Status = GTTActive,
      g_StatusMsg = [], g_FiredOrderID = [], g_CreatedAt = 0, g_UpdatedAt = 0, g_ExpiresAt = None\<rparr>"

definition ex_place :: "Order \<Rightarrow> Order list \<Rightarrow> (Order list \<times> Order) \<times> unit option" where
  "ex_place x w = ((w @ [x], x), None)"

definition ex_ltp :: "Order list \<Rightarrow> string \<Rightarrow> f64" where
  "ex_ltp w symbol = Fin 1600"

definition ex_gm :: GManager where
  "ex_gm = fst (fst (gtt_Add 2 (ex_gtt LTPBelow 1400 ''GTT-C1-1'')
     (fst (fst (gtt_Add 1 (ex_gtt LTPAbove 1550 ''GTT-C1-2'') NewGManager)))))"

lemma ex_gm_run: "gtt_run ex_place ex_ltp (NewGManager, []) (ex_gm, [])"
  unfolding ex_gm_def
  by (intro gtt_run.add gtt_run.start) (simp_all add: NewGManager_def gtt_Add_def ex_gtt_def Let_def add64_id in64_def)

lemma ex_gm_pair: "pair_ok ''GTT-C1-1'' ''GTT-C1-2'' ex_gm"
proof -
  have "map_option (\<lambda>g. (g_PairedGTTID g, g_Status g)) (gm_orders ex_gm ''GTT-C1-1'') = Some (''GTT-C1-2'', GTTActive)"
    "map_option (\<lambda>g. (g_PairedGTTID g, g_Status g)) (gm_orders ex_gm ''GTT-C1-2'') = Some (''GTT-C1-1'', GTTActive)"
    by code_simp+
  then show ?thesis by (auto simp: pair_ok_def)
qed

text \<open>C17: A GTT order fires at most once: in any interleaving of registrations, cancellations and scan
  visits, with any placer and any prices, an order that has left the active state never changes
  again, and it was announced as triggered exactly once if it fired and never otherwise.\<close>

theorem gtt_fires_at_most_once:
  assumes "gtt_run place getLTP (NewGManager, w0) (m, w)" "gtt_run place getLTP (m, w) (m', w')"
    and "gm_orders m k = Some g" "g_Status g \<noteq> GTTActive"
  shows "gm_orders m' k = Some g \<and>
    count_list (gm_eventCh m') \<lparr>ge_GTT = k, ge_Event = ''triggered''\<rparr> = (if g_Status g = GTTTriggered then 1 else 0)"
proof -
  have inv: "gtt_inv m" using gtt_run_inv [OF assms(1)] gtt_inv_New by simp
  have "gm_orders m' k = Some g" using gtt_run_final [OF assms(2)] inv assms(3,4) by simp
  moreover have "gtt_inv m'" using gtt_run_inv [OF assms(2)] inv by simp
  ultimately show ?thesis by (simp add: gtt_inv_def)
qed

definition ex_gm2 :: GManager where
  "ex_gm2 = fst (scan_one ex_place ex_ltp 5 ''GTT-C1-1'' (ex_gm, []))"

theorem gtt_fires_at_most_once_witness:
  "\<exists>g. gm_orders (fst (scan_one ex_place ex_ltp 6 ''GTT-C1-1'' (ex_gm2, []))) ''GTT-C1-1'' = Some g \<and>
     g_Status g = GTTTriggered"
proof -
  have "gtt_run ex_place ex_ltp (NewGManager, []) (scan_one ex_place ex_ltp 5 ''GTT-C1-1'' (ex_gm, []))"
    by (rule gtt_run.visit [OF ex_gm_run])
  then have 1: "gtt_run ex_place ex_ltp (NewGManager, []) (ex_gm2, [])"
    unfolding ex_gm2_def using gtt_run.world by (metis prod.collapse)
  obtain m' w' where st: "scan_one ex_place ex_ltp 6 ''GTT-C1-1'' (ex_gm2, []) = (m', w')" by (rule prod.exhaust)
  then have 2: "gtt_run ex_place ex_ltp (ex_gm2, []) (m', w')"
    using gtt_run.visit [OF gtt_run.start] by metis
  have "map_option g_Status (gm_orders ex_gm2 ''GTT-C1-1'') = Some GTTTriggered" by code_simp
  then obtain g where "gm_orders ex_gm2 ''GTT-C1-1'' = Some g" "g_Status g = GTTTriggered" by auto
  with gtt_fires_at_most_once [OF 1 2, of "''GTT-C1-1''" g] st show ?thesis by simp
qed

text \<open>C24: One cancels other: once two active orders name each other, no run ever fires both, in whatever
  order scans visit them.\<close>

theorem oco_pair_never_both_fire:
  assumes "gtt_run place getLTP (NewGManager, w0) (m, w)" "gtt_run place getLTP (m, w) (m', w')"
    and "gm_orders m a = Some ga" "gm_orders m b = Some gb" "a \<noteq> b" "a \<noteq> []" "b \<noteq> []"
    and "g_PairedGTTID ga = b" "g_PairedGTTID gb = a" "g_Status ga = GTTActive" "g_Status gb = GTTActive"
  shows "\<exists>ga' gb'. gm_orders m' a = Some ga' \<and> gm_orders m' b = Some gb' \<and>
    \<not> (g_Status ga' = GTTTriggered \<and> g_Status gb' = GTTTriggered)"
proof -
  have inv: "gtt_inv m" using gtt_run_inv [OF assms(1)] gtt_inv_New by simp
  have "pair_ok a b m" using assms(3-) by (simp add: pair_ok_def)
  then have "pair_ok a b m'" using gtt_run_pair [OF assms(2)] inv by simp
  then show ?thesis by (auto simp: pair_ok_def)
qed

theorem oco_pair_never_both_fire_witness:
  "\<exists>ga' gb'. gm_orders ex_gm2 ''GTT-C1-1'' = Some ga' \<and> gm_orders ex_gm2 ''GTT-C1-2'' = Some gb' \<and>
     \<not> (g_Status ga' = GTTTriggered \<and> g_Status gb' = GTTTriggered)"
proof -
  obtain w' where st: "scan_one ex_place ex_ltp 5 ''GTT-C1-1'' (ex_gm, []) = (ex_gm2, w')"
    unfolding ex_gm2_def by (metis prod.collapse)
  then have run: "gtt_run ex_place ex_ltp (ex_gm, []) (ex_gm2, w')"
    using gtt_run.visit [OF gtt_run.start] by metis
  have "map_option (\<lambda>g. (g_PairedGTTID g, g_Status g)) (gm_orders ex_gm ''GTT-C1-1'') = Some (''GTT-C1-2'', GTTActive)"
    "map_option (\<lambda>g. (g_PairedGTTID g, g_Status g)) (gm_orders ex_gm ''GTT-C1-2'') = Some (''GTT-C1-1'', GTTActive)"
    by code_simp+
  then obtain ga gb where
    "gm_orders ex_gm ''GTT-C1-1'' = Some ga" "gm_orders ex_gm ''GTT-C1-2'' = Some gb"
    "g_PairedGTTID ga = ''GTT-C1-2''" "g_PairedGTTID gb = ''GTT-C1-1''"
    "g_Status ga = GTTActive" "g_Status gb = GTTActive" by auto
  with oco_pair_never_both_fire [OF ex_gm_run run, of "''GTT-C1-1''" ga "''GTT-C1-2''" gb]
  show ?thesis by simp
qed

text \<open>C29: Visiting an active order triggers it exactly when it has not expired, the price is known and
  meets its condition, and the placer accepts the order built from it; a refused order leaves it
  active for the next scan, and nothing is placed unless the condition holds.\<close>

theorem scan_fires_exactly_when_due:
  assumes "gm_orders m k = Some g" "g_Status g = GTTActive"
    and "scan_one place getLTP now k (m, w) = (m', w')" "ltp = getLTP w (g_Symbol g)"
    and "order = buildOrder now (g\<lparr>g_Status := GTTTriggered, g_UpdatedAt := now\<rparr>) ltp"
  shows "(\<exists>g'. gm_orders m' k = Some g' \<and>
      (g_Status g' = GTTTriggered \<longleftrightarrow> \<not> IsExpired now g \<and> \<not> fle ltp (Fin 0) \<and> CheckCondition ltp g \<and>
         snd (place order w) = None) \<and>
      (g_Status g' = GTTExpired \<longleftrightarrow> IsExpired now g) \<and>
      g_Status g' \<in> {GTTActive, GTTTriggered, GTTExpired}) \<and>
    (w' = w \<or> (CheckCondition ltp g \<and> w' = fst (fst (place order w)))) \<and>
    o_ClientID order = g_ClientID g \<and> o_Side order = g_Side g \<and> o_Quantity order = g_Quantity g"
proof -
  have order: "o_ClientID order = g_ClientID g" "o_Side order = g_Side g" "o_Quantity order = g_Quantity g"
    by (simp_all add: assms(5) buildOrder_def NewOrder_def Let_def)
  show ?thesis
  proof (cases rule: scan_one_cases [of place getLTP now k m w])
    case skip
    with assms order show ?thesis by (auto simp: fires_def)
  next
    case (expire g0)
    with assms order show ?thesis by auto
  next
    case (fail g0 w1 x e)
    with assms order show ?thesis by (auto simp: fires_def)
  next
    case (fire g0 w1 x)
    let ?g = "g\<lparr>g_Status := GTTTriggered, g_UpdatedAt := now, g_FiredOrderID := o_OrderID x\<rparr>"
    have "gm_orders (cancel_pair now ?g (gtt_event k ''triggered'' (put_gtt k ?g m))) k = Some ?g"
      by (cases rule: cancel_pair_cases [of now ?g "gtt_event k ''triggered'' (put_gtt k ?g m)"])
        (auto split: if_splits)
    moreover have "g0 = g" using fire(1) assms(1) by simp
    with fire(4,5) assms(3-5) have "snd (place order w) = None" "w' = fst (fst (place order w))"
      "m' = cancel_pair now ?g (gtt_event k ''triggered'' (put_gtt k ?g m))" by (simp_all add: Let_def)
    moreover have "\<not> IsExpired now g" "\<not> fle ltp (Fin 0)" "CheckCondition ltp g"
      using fire(3) \<open>g0 = g\<close> by (simp_all add: fires_def assms(4))
    ultimately show ?thesis using order by simp
  qed
qed

theorem scan_fires_exactly_when_due_witness:
  "\<exists>g. gm_orders ex_gm2 ''GTT-C1-1'' = Some g \<and> g_Status g \<in> {GTTActive, GTTTriggered, GTTExpired}"
proof -
  have "map_option g_Status (gm_orders ex_gm ''GTT-C1-1'') = Some GTTActive" by code_simp
  then obtain g where g: "gm_orders ex_gm ''GTT-C1-1'' = Some g" "g_Status g = GTTActive" by auto
  have "scan_one ex_place ex_ltp 5 ''GTT-C1-1'' (ex_gm, []) =
      (ex_gm2, snd (scan_one ex_place ex_ltp 5 ''GTT-C1-1'' (ex_gm, [])))" by (simp add: ex_gm2_def)
  from scan_fires_exactly_when_due [OF g this refl refl] show ?thesis by blast
qed

section \<open>The contract with the order placer\<close>

text \<open>
  What the manager asks of the component behind \<^verbatim>\<open>OrderPlacer\<close>, and what it gives in return: the orders it
  places are new and have 64-bit quantities. The placer has a state that is ready for \<open>n\<close> orders;
  placing one leaves it ready for the others, so a scan over \<open>n\<close> trigger orders can be served.
\<close>

definition quantities :: "GManager \<Rightarrow> bool" where
  "quantities m \<longleftrightarrow> (\<forall>k g. gm_orders m k = Some g \<longrightarrow> in64 (g_Quantity g))"

lemma quantities_put: "quantities m \<Longrightarrow> in64 (g_Quantity g) \<Longrightarrow> quantities (put_gtt k g m)"
  by (simp add: quantities_def)

lemma quantities_event [simp]: "quantities (gtt_event k ev m) = quantities m"
  by (simp add: quantities_def)

lemma quantities_cancel_pair: "quantities m \<Longrightarrow> quantities (cancel_pair now g m)"
  by (auto simp: cancel_pair_def intro!: quantities_put split: option.split) (simp add: quantities_def)

lemma scan_one_result:
  assumes "quantities m" "scan_one place getLTP now k (m, w) = (m', w')"
  shows "quantities m' \<and> (w' = w \<or> (\<exists>g ltp. in64 (g_Quantity g) \<and> w' = fst (fst (place (buildOrder now g ltp) w))))"
proof (cases "gm_orders m k")
  case None
  with assms show ?thesis by (simp add: scan_one_def)
next
  case (Some g)
  then have g: "in64 (g_Quantity g)" using assms(1) by (simp add: quantities_def)
  let ?g1 = "g\<lparr>g_Status := GTTTriggered, g_UpdatedAt := now\<rparr>"
  obtain w1 order err where pl: "place (buildOrder now ?g1 (getLTP w (g_Symbol g))) w = ((w1, order), err)"
    by (metis prod.collapse)
  have fired: "w1 = fst (fst (place (buildOrder now ?g1 (getLTP w (g_Symbol g))) w))" "in64 (g_Quantity ?g1)"
    using pl g by simp_all
  have q: "quantities (put_gtt k g' m)" "quantities (put_gtt k g'' (put_gtt k g' m))"
    if "g_Quantity g' = g_Quantity g" "g_Quantity g'' = g_Quantity g" for g' g''
    using that g assms(1) by (simp_all add: quantities_put)
  have "quantities m'" using assms Some pl
    by (auto simp: scan_one_def Let_def intro!: q quantities_cancel_pair split: if_splits option.splits)
  moreover have "w' = w \<or> w' = w1" using assms(2) Some pl
    by (auto simp: scan_one_def Let_def split: if_splits option.splits)
  ultimately show ?thesis using fired by blast
qed

lemma buildOrder_simps:
  "o_Quantity (buildOrder now g ltp) = g_Quantity g" "o_FilledQty (buildOrder now g ltp) = 0"
  by (simp_all add: buildOrder_def NewOrder_def Let_def)

locale order_placer =
  fixes place :: "Order \<Rightarrow> 'w \<Rightarrow> ('w \<times> Order) \<times> 'e option"
    and ready :: "nat \<Rightarrow> 'w \<Rightarrow> bool"
  assumes place_ready: "ready (Suc n) w \<Longrightarrow> in64 (o_Quantity x) \<Longrightarrow> o_FilledQty x = 0 \<Longrightarrow>
      ready n (fst (fst (place x w)))"
    and ready_less: "ready (Suc n) w \<Longrightarrow> ready n w"
begin

lemma scan_one_ready:
  assumes "quantities m" "ready (Suc n) w"
  shows "quantities (fst (scan_one place getLTP now k (m, w))) \<and> ready n (snd (scan_one place getLTP now k (m, w)))"
proof -
  obtain m' w' where sc: "scan_one place getLTP now k (m, w) = (m', w')" by fastforce
  from scan_one_result [OF assms(1) this] show ?thesis
    using place_ready [OF assms(2)] ready_less [OF assms(2)] by (auto simp: sc buildOrder_simps)
qed

lemma scan_ready:
  assumes "quantities m" "ready (n + length keys) w"
  shows "quantities (fst (scan place getLTP now keys (m, w))) \<and> ready n (snd (scan place getLTP now keys (m, w)))"
  using assms
proof (induction keys arbitrary: m w)
  case (Cons k keys)
  from Cons.prems have "ready (Suc (n + length keys)) w" by simp
  from scan_one_ready [OF Cons.prems(1) this, of getLTP now k] Cons.IH show ?case
    by (metis fold_simps(2) prod.collapse scan_def)
qed (simp add: scan_def)

end

end
