(* ===== verification/Decimal.thy ===== *)
theory Decimal
  imports Float64
begin

text \<open>
  Reading decimal numbers back: \<^verbatim>\<open>strconv.ParseFloat\<close> and Lua's \<^verbatim>\<open>tonumber\<close> on the texts the program
  writes (an optional sign, digits, and an optional fraction; no exponent), rounded once to the
  nearest float. Shown: printing with two decimals and reading back yields the value rounded to
  hundredths.
\<close>

definition is_digit :: "char \<Rightarrow> bool" where
  "is_digit c \<longleftrightarrow> 48 \<le> (of_char c :: nat) \<and> (of_char c :: nat) < 58"

definition digit_val :: "char \<Rightarrow> int" where
  "digit_val c = int (of_char c) - 48"

definition digits_val :: "string \<Rightarrow> int" where
  "digits_val ds = foldl (\<lambda>n c. 10 * n + digit_val c) 0 ds"

definition parse_unsigned :: "string \<Rightarrow> rat option" where
  "parse_unsigned s =
     (let whole = takeWhile is_digit s; rest = dropWhile is_digit s in
      case rest of
        [] \<Rightarrow> if whole = [] then None else Some (of_int (digits_val whole))
      | c # ds \<Rightarrow>
          if c = CHR ''.'' \<and> list_all is_digit ds \<and> (whole \<noteq> [] \<or> ds \<noteq> [])
          then Some (of_int (digits_val whole) + of_int (digits_val ds) / 10 ^ length ds)
          else None)"

definition parse_float :: "string \<Rightarrow> f64 option" where
  "parse_float s =
     (if s = ''NaN'' then Some NaN
      else if s = ''+Inf'' then Some PInf
      else if s = ''-Inf'' then Some NInf
      else case s of
        [] \<Rightarrow> None
      | c # cs \<Rightarrow>
          if c = CHR ''-'' then map_option (\<lambda>x. round64 (- x)) (parse_unsigned cs)
          else if c = CHR ''+'' then map_option round64 (parse_unsigned cs)
          else map_option round64 (parse_unsigned s))"

section \<open>Lemmas\<close>

lemma digits_val_snoc [simp]: "digits_val (ds @ [c]) = 10 * digits_val ds + digit_val c"
  by (simp add: digits_val_def)

lemma digits_val_Nil [simp]: "digits_val [] = 0"
  by (simp add: digits_val_def)

lemma is_digit_nat_digits: "0 \<le> n \<Longrightarrow> list_all is_digit (nat_digits n)"
  using nat_digits_digits by (auto simp: list_all_iff is_digit_def)

lemma digits_val_nat_digits: "0 \<le> n \<Longrightarrow> digits_val (nat_digits n) = n"
proof (induction n rule: nat_digits.induct)
  case (1 n)
  show ?case
  proof (cases "n < 10")
    case True
    with 1 show ?thesis by (simp add: nat_digits_small digits_val_def digit_val_def of_char_digit)
  next
    case False
    with 1 have "digits_val (nat_digits (n div 10)) = n div 10" by simp
    with False show ?thesis by (simp add: nat_digits_snoc digit_val_def of_char_digit)
  qed
qed

lemma takeWhile_digits:
  "list_all is_digit ds \<Longrightarrow> \<not> is_digit c \<Longrightarrow>
   takeWhile is_digit (ds @ c # cs) = ds \<and> dropWhile is_digit (ds @ c # cs) = c # cs"
  by (induction ds) auto

lemma dot_not_digit: "\<not> is_digit (CHR ''.'')"
  by (simp add: is_digit_def)

lemma parse_fixed:
  assumes "list_all is_digit a" "a \<noteq> []" "list_all is_digit b"
  shows "parse_unsigned (a @ ''.'' @ b) = Some (of_int (digits_val a) + of_int (digits_val b) / 10 ^ length b)"
  using takeWhile_digits [OF assms(1) dot_not_digit, of b] assms(2,3) by (simp add: parse_unsigned_def Let_def)

text \<open>The two decimals of a hundredth.\<close>

lemma parse_hundredths:
  assumes "0 \<le> n"
  shows "parse_unsigned (nat_digits (n div 100) @ ''.'' @ nat_digits (n mod 100 div 10) @ nat_digits (n mod 10)) =
    Some (of_int n / 100)"
proof -
  let ?a = "n mod 100 div 10" let ?b = "n mod 10"
  have ab: "0 \<le> ?a" "?a < 10" "0 \<le> ?b" "?b < 10" by simp_all
  have val: "digits_val (nat_digits ?a @ nat_digits ?b) = 10 * ?a + ?b"
    using ab by (simp add: nat_digits_small digits_val_def digit_val_def of_char_digit)
  have len: "length (nat_digits ?a @ nat_digits ?b) = 2" using ab by (simp add: nat_digits_small)
  have digs: "list_all is_digit (nat_digits ?a @ nat_digits ?b)" using ab by (simp add: is_digit_nat_digits)
  have sum: "(of_int (n div 100) + of_int (10 * ?a + ?b) / 10 ^ 2 :: rat) = of_int n / 100"
  proof -
    have "n mod 100 mod 10 = ?b" by (simp add: mod_mod_cancel)
    then have "n = 100 * (n div 100) + (10 * ?a + ?b)"
      using mult_div_mod_eq [of 100 n] mult_div_mod_eq [of 10 "n mod 100"] by linarith
    then have "(of_int n :: rat) = of_int (100 * (n div 100) + (10 * ?a + ?b))" by (rule arg_cong)
    also have "\<dots> = 100 * of_int (n div 100) + of_int (10 * ?a + ?b)" by (simp only: of_int_add of_int_mult of_int_numeral)
    finally show ?thesis by (simp only: add_divide_distrib) simp
  qed
  have "0 \<le> n div 100" using assms by simp
  then show ?thesis
    using parse_fixed [OF is_digit_nat_digits _ digs, of "n div 100"]
    by (simp only: val len digits_val_nat_digits nat_digits_nonempty sum append_assoc) simp
qed

lemma div_100_nonneg: "0 \<le> n \<Longrightarrow> 0 \<le> n div (100 :: int)"
  by simp

lemma nat_digits_hd: "0 \<le> n \<Longrightarrow> \<exists>c cs. nat_digits n = c # cs \<and> is_digit c"
  using is_digit_nat_digits [of n] nat_digits_nonempty [of n] by (cases "nat_digits n") auto

text \<open>Printing a number with two decimals and reading the text back gives the number rounded to
  hundredths (ties to even), as a float: the round trip behind every amount and price stored as
  text.\<close>

lemma parse_print_roundtrip:
  "parse_float (show_fixed2 (Fin x)) = Some (round64 (of_int (rne (x * 100)) / 100))"
proof -
  let ?n = "rne (\<bar>x\<bar> * 100)"
  have n: "0 \<le> ?n" using rne_mono [of 0 "\<bar>x\<bar> * 100"] rne_of_int [of 0] by simp
  have parse: "parse_unsigned (show_hundredths ?n) = Some (of_int ?n / 100)"
    using parse_hundredths [OF n] by (simp add: show_hundredths_def)
  obtain c cs where c: "show_hundredths ?n = c # cs" "is_digit c"
    using nat_digits_hd [OF div_100_nonneg [OF n]] by (auto simp: show_hundredths_def)
  then have ne: "c \<noteq> CHR ''-''" "c \<noteq> CHR ''+''" "c \<noteq> CHR ''N''" by (auto simp: is_digit_def)
  show ?thesis
  proof (cases "x < 0")
    case True
    then have "rne (x * 100) = - ?n" using rne_minus [of "\<bar>x\<bar> * 100"] by simp
    moreover have "CHR ''-'' # show_hundredths ?n \<noteq> ''-Inf''"
      using c ne(2) by (auto simp: is_digit_def)
    ultimately show ?thesis using True parse by (simp add: parse_float_def)
  next
    case False
    then show ?thesis using parse c ne by (auto simp: parse_float_def)
  qed
qed

end
