(* ===== verification/Redis_Store.thy ===== *)
theory Redis_Store
  imports Decimal Market_Data
begin

text \<open>
  The Redis-backed store of \<^verbatim>\<open>internal/store/redis.go\<close>. The Redis server and its client library are a
  parameter: a record of commands on an abstract server state \<open>'r\<close>, any of which may fail. What a
  key holds is a text the program wrote, a number a script wrote (printed with enough digits to
  recover it), or the JSON document of a structure, represented by the structure. \<^verbatim>\<open>json.Marshal\<close>
  fails on values that are not finite and is otherwise undone by \<^verbatim>\<open>json.Unmarshal\<close>. A pipeline
  runs its commands in order and reports the first error. The Lua scripts run on the server
  without interruption and are translated as they stand, with Lua's double arithmetic. An
  in-memory server serves as the instance for the witnesses.
\<close>

section \<open>The server interface\<close>

datatype redis_val =
    Text string
  | Num f64
  | DocOrder Order
  | DocTrade Trade
  | DocQuote Quote
  | DocRaw string

datatype 'a reply = Reply 'a | NilReply | FailReply string

record 'r redis =
  r_Get :: "string \<Rightarrow> 'r \<Rightarrow> redis_val reply"
  r_Set :: "string \<Rightarrow> redis_val \<Rightarrow> int \<Rightarrow> 'r \<Rightarrow> 'r \<times> string option"
  r_Del :: "string \<Rightarrow> 'r \<Rightarrow> 'r \<times> string option"
  r_IncrByFloat :: "string \<Rightarrow> f64 \<Rightarrow> 'r \<Rightarrow> 'r \<times> string option"
  r_SAdd :: "string \<Rightarrow> string \<Rightarrow> 'r \<Rightarrow> 'r \<times> string option"
  r_SRem :: "string \<Rightarrow> string \<Rightarrow> 'r \<Rightarrow> 'r \<times> string option"
  r_SMembers :: "string \<Rightarrow> 'r \<Rightarrow> string list reply"
  r_Expire :: "string \<Rightarrow> int \<Rightarrow> 'r \<Rightarrow> 'r \<times> string option"
  r_LPush :: "string \<Rightarrow> string \<Rightarrow> 'r \<Rightarrow> 'r \<times> string option"
  r_LTrim :: "string \<Rightarrow> int \<Rightarrow> int \<Rightarrow> 'r \<Rightarrow> 'r \<times> string option"
  r_LRange :: "string \<Rightarrow> int \<Rightarrow> int \<Rightarrow> 'r \<Rightarrow> string list reply"
  r_LLen :: "string \<Rightarrow> 'r \<Rightarrow> int reply"
  r_ZAdd :: "string \<Rightarrow> f64 \<Rightarrow> string \<Rightarrow> 'r \<Rightarrow> 'r \<times> string option"
  r_ZRem :: "string \<Rightarrow> string \<Rightarrow> 'r \<Rightarrow> 'r \<times> string option"
  r_ZRangeByScore :: "string \<Rightarrow> f64 \<Rightarrow> f64 \<Rightarrow> 'r \<Rightarrow> string list reply"
  r_ZRemRangeByScore :: "string \<Rightarrow> f64 \<Rightarrow> f64 \<Rightarrow> 'r \<Rightarrow> 'r \<times> string option"
  r_ZCard :: "string \<Rightarrow> 'r \<Rightarrow> int reply"
  r_FlushDB :: "'r \<Rightarrow> 'r \<times> string option"

fun pipe_exec :: "('r \<Rightarrow> 'r \<times> string option) list \<Rightarrow> 'r \<Rightarrow> 'r \<times> string option" where
  "pipe_exec [] s = (s, None)"
| "pipe_exec (c # cs) s =
     (let (s1, e1) = c s; (s2, e2) = pipe_exec cs s1
      in (s2, case e1 of Some e \<Rightarrow> Some e | None \<Rightarrow> e2))"

section \<open>Documents and numbers\<close>

fun finite_f64 :: "f64 \<Rightarrow> bool" where
  "finite_f64 (Fin x) \<longleftrightarrow> True"
| "finite_f64 _ \<longleftrightarrow> False"

definition marshal_order :: "Order \<Rightarrow> redis_val option" where
  "marshal_order order =
     (if finite_f64 (o_Price order) \<and> finite_f64 (o_TriggerPrice order) \<and> finite_f64 (o_AveragePrice order)
      then Some (DocOrder order) else None)"

definition marshal_trade :: "Trade \<Rightarrow> redis_val option" where
  "marshal_trade trade = (if finite_f64 (t_Price trade) then Some (DocTrade trade) else None)"

definition marshal_quote :: "Quote \<Rightarrow> redis_val option" where
  "marshal_quote q =
     (if list_all finite_f64 [q_LTP q, q_Open q, q_High q, q_Low q, q_PreviousClose q, q_Change q, q_ChangePercent q]
      then Some (DocQuote q) else None)"

fun unmarshal_order :: "redis_val \<Rightarrow> Order option" where
  "unmarshal_order (DocOrder order) = Some order"
| "unmarshal_order _ = None"

fun unmarshal_trade :: "redis_val \<Rightarrow> Trade option" where
  "unmarshal_trade (DocTrade trade) = Some trade"
| "unmarshal_trade _ = None"

text \<open>\<^verbatim>\<open>strconv.FormatFloat(x, 'f', 2, 64)\<close>, and reading a number: \<^verbatim>\<open>ParseFloat\<close> and \<^verbatim>\<open>tonumber\<close>.\<close>

definition format2 :: "f64 \<Rightarrow> redis_val" where
  "format2 x = Text (show_fixed2 x)"

fun tonumber :: "redis_val \<Rightarrow> f64 option" where
  "tonumber (Text s) = parse_float s"
| "tonumber (Num x) = Some x"
| "tonumber _ = None"

text \<open>The value of the text \<^verbatim>\<open>fmt.Sprintf("%f", x)\<close>, which has six decimals.\<close>

fun fixed6 :: "f64 \<Rightarrow> f64" where
  "fixed6 (Fin x) = round64 (of_int (rne (x * 1000000)) / 1000000)"
| "fixed6 x = x"

datatype store_error =
    MarshalError
  | UnmarshalError
  | OrderMissing string
  | ClientMissing string
  | RedisError string
  | ScriptError string
  | ScriptClientNotFound
  | ScriptInsufficientMargin f64 f64

text \<open>The texts of errors: those of the Redis server and of the JSON package are an argument.\<close>

fun store_error_string :: "(store_error \<Rightarrow> string) \<Rightarrow> store_error \<Rightarrow> string" where
  "store_error_string ext (OrderMissing i) = ''order '' @ i @ '' not found''"
| "store_error_string ext (ClientMissing c) = ''client '' @ c @ '' not found''"
| "store_error_string ext e = ext e"

definition hours :: "int \<Rightarrow> int" where
  "hours n = n * 3600000000000"

definition orderTTL :: int where "orderTTL = hours 24"
definition tradeTTL :: int where "tradeTTL = 7 * hours 24"
definition quoteTTL :: int where "quoteTTL = 5 * 60000000000"

section \<open>Orders\<close>

definition SaveOrder :: "'r redis \<Rightarrow> Order \<Rightarrow> 'r \<Rightarrow> 'r \<times> store_error option" where
  "SaveOrder R order s =
     (case marshal_order order of
        None \<Rightarrow> (s, Some MarshalError)
      | Some data \<Rightarrow>
          let (s1, err) = pipe_exec
            [r_Set R (''order:'' @ o_OrderID order) data orderTTL,
             r_SAdd R (''orders:client:'' @ o_ClientID order) (o_OrderID order),
             r_Expire R (''orders:client:'' @ o_ClientID order) orderTTL,
             r_SAdd R (''orders:symbol:'' @ o_Symbol order) (o_OrderID order),
             r_SAdd R (''orders:status:'' @ status_string (o_Status order)) (o_OrderID order)] s
          in (s1, map_option RedisError err))"

definition redis_GetOrder :: "'r redis \<Rightarrow> string \<Rightarrow> 'r \<Rightarrow> store_error + Order" where
  "redis_GetOrder R orderID s =
     (case r_Get R (''order:'' @ orderID) s of
        NilReply \<Rightarrow> Inl (OrderMissing orderID)
      | FailReply e \<Rightarrow> Inl (RedisError e)
      | Reply data \<Rightarrow>
          (case unmarshal_order data of None \<Rightarrow> Inl UnmarshalError | Some order \<Rightarrow> Inr order))"

definition UpdateOrderStatus :: "'r redis \<Rightarrow> instant \<Rightarrow> string \<Rightarrow> OrderStatus \<Rightarrow> string \<Rightarrow> 'r \<Rightarrow> 'r \<times> store_error option" where
  "UpdateOrderStatus R now orderID status msg s =
     (case redis_GetOrder R orderID s of
        Inl e \<Rightarrow> (s, Some e)
      | Inr order \<Rightarrow>
          let s1 = fst (r_SRem R (''orders:status:'' @ status_string (o_Status order)) orderID s);
              order1 = order\<lparr>o_Status := status, o_StatusMsg := msg, o_UpdatedAt := now\<rparr>
          in SaveOrder R order1 s1)"

definition batchGetOrders :: "'r redis \<Rightarrow> string list \<Rightarrow> 'r \<Rightarrow> Order list" where
  "batchGetOrders R ids s =
     List.map_filter (\<lambda>i. case r_Get R (''order:'' @ i) s of Reply data \<Rightarrow> unmarshal_order data | _ \<Rightarrow> None) ids"

text \<open>\<^verbatim>\<open>SMembers\<close> of a missing key is the empty list, and an error is passed on.\<close>

definition members :: "'r redis \<Rightarrow> string \<Rightarrow> 'r \<Rightarrow> store_error + string list" where
  "members R key s =
     (case r_SMembers R key s of Reply ids \<Rightarrow> Inr ids | NilReply \<Rightarrow> Inr [] | FailReply e \<Rightarrow> Inl (RedisError e))"

definition GetOrdersByClient :: "'r redis \<Rightarrow> string \<Rightarrow> 'r \<Rightarrow> store_error + Order list" where
  "GetOrdersByClient R clientID s =
     map_sum id (\<lambda>ids. batchGetOrders R ids s) (members R (''orders:client:'' @ clientID) s)"

definition GetOrdersByStatus :: "'r redis \<Rightarrow> OrderStatus \<Rightarrow> 'r \<Rightarrow> store_error + Order list" where
  "GetOrdersByStatus R status s =
     map_sum id (\<lambda>ids. batchGetOrders R ids s) (members R (''orders:status:'' @ status_string status) s)"

definition GetOpenOrders :: "'r redis \<Rightarrow> 'r \<Rightarrow> store_error + Order list" where
  "GetOpenOrders R s =
     (case GetOrdersByStatus R StatusOpen s of
        Inl e \<Rightarrow> Inl e
      | Inr opens \<Rightarrow>
          (case GetOrdersByStatus R StatusPartiallyFilled s of
             Inl e \<Rightarrow> Inl e
           | Inr partials \<Rightarrow> Inr (opens @ partials)))"

section \<open>Accounts\<close>

definition balance_key :: "string \<Rightarrow> string" where
  "balance_key clientID = ''account:'' @ clientID @ '':balance''"

definition used_key :: "string \<Rightarrow> string" where
  "used_key clientID = ''account:'' @ clientID @ '':used''"

definition InitAccount :: "'r redis \<Rightarrow> string \<Rightarrow> f64 \<Rightarrow> 'r \<Rightarrow> 'r \<times> store_error option" where
  "InitAccount R clientID balance s =
     (let (s1, err) = pipe_exec
        [r_Set R (balance_key clientID) (format2 balance) 0,
         r_Set R (used_key clientID) (Text ''0'') 0] s
      in (s1, map_option RedisError err))"

definition parse_reply :: "redis_val reply \<Rightarrow> f64" where
  "parse_reply r =
     (case r of Reply v \<Rightarrow> (case tonumber v of Some x \<Rightarrow> x | None \<Rightarrow> Fin 0) | _ \<Rightarrow> Fin 0)"

definition GetBalance :: "'r redis \<Rightarrow> string \<Rightarrow> 'r \<Rightarrow> store_error + (f64 \<times> f64)" where
  "GetBalance R clientID s =
     (case r_Get R (balance_key clientID) s of
        Reply v \<Rightarrow> Inr (parse_reply (Reply v), parse_reply (r_Get R (used_key clientID) s))
      | _ \<Rightarrow> Inl (ClientMissing clientID))"

text \<open>
  In the scripts a missing key reads as \<^verbatim>\<open>false\<close>, which \<^verbatim>\<open>tonumber\<close> turns into \<^verbatim>\<open>nil\<close>; a failing
  command aborts the script. A missing balance is reported, a missing used amount makes the
  subtraction fail.
\<close>

definition lua_get :: "'r redis \<Rightarrow> string \<Rightarrow> 'r \<Rightarrow> string + f64 option" where
  "lua_get R key s =
     (case r_Get R key s of
        FailReply e \<Rightarrow> Inl e
      | NilReply \<Rightarrow> Inr None
      | Reply v \<Rightarrow> Inr (tonumber v))"

definition redis_BlockMargin :: "'r redis \<Rightarrow> string \<Rightarrow> f64 \<Rightarrow> 'r \<Rightarrow> 'r \<times> store_error option" where
  "redis_BlockMargin R clientID amount0 s =
     (case lua_get R (balance_key clientID) s of
        Inl e \<Rightarrow> (s, Some (ScriptError e))
      | Inr balance0 \<Rightarrow>
     (case lua_get R (used_key clientID) s of
        Inl e \<Rightarrow> (s, Some (ScriptError e))
      | Inr used0 \<Rightarrow>
     (case balance0 of
        None \<Rightarrow> (s, Some ScriptClientNotFound)
      | Some balance \<Rightarrow>
     (case (used0, tonumber (format2 amount0)) of
        (Some used, Some amount) \<Rightarrow>
          let free = fsub balance used in
          if flt free amount then (s, Some (ScriptInsufficientMargin amount free))
          else let (s1, err) = r_IncrByFloat R (used_key clientID) amount s
               in (s1, map_option ScriptError err)
      | _ \<Rightarrow> (s, Some (ScriptError ''attempt to perform arithmetic on a nil value''))))))"

definition redis_ReleaseMargin :: "'r redis \<Rightarrow> string \<Rightarrow> f64 \<Rightarrow> 'r \<Rightarrow> 'r \<times> store_error option" where
  "redis_ReleaseMargin R clientID amount0 s =
     (case lua_get R (used_key clientID) s of
        Inl e \<Rightarrow> (s, Some (ScriptError e))
      | Inr used0 \<Rightarrow>
          (case tonumber (format2 amount0) of
             None \<Rightarrow> (s, Some (ScriptError ''attempt to perform arithmetic on a nil value''))
           | Some amount \<Rightarrow>
               let used = (case used0 of Some u \<Rightarrow> u | None \<Rightarrow> Fin 0);
                   diff = fsub used amount;
                   newUsed = (if flt (Fin 0) diff then diff else Fin 0);
                   (s1, err) = r_Set R (used_key clientID) (Num newUsed) 0 s
               in (s1, map_option ScriptError err)))"

section \<open>Trades and quotes\<close>

definition SaveTrade :: "'r redis \<Rightarrow> Trade \<Rightarrow> 'r \<Rightarrow> 'r \<times> store_error option" where
  "SaveTrade R trade s =
     (case marshal_trade trade of
        None \<Rightarrow> (s, Some MarshalError)
      | Some data \<Rightarrow>
          let (s1, err) = pipe_exec
            [r_Set R (''trade:'' @ t_TradeID trade) data tradeTTL,
             r_LPush R ''trades:all'' (t_TradeID trade),
             r_LPush R (''trades:symbol:'' @ t_Symbol trade) (t_TradeID trade),
             r_LTrim R ''trades:all'' 0 9999] s
          in (s1, map_option RedisError err))"

definition GetRecentTrades :: "'r redis \<Rightarrow> int \<Rightarrow> 'r \<Rightarrow> store_error + Trade list" where
  "GetRecentTrades R limit s =
     (case r_LRange R ''trades:all'' 0 (sub64 limit 1) s of
        FailReply e \<Rightarrow> Inl (RedisError e)
      | NilReply \<Rightarrow> Inr []
      | Reply ids \<Rightarrow>
          Inr (List.map_filter (\<lambda>i. case r_Get R (''trade:'' @ i) s of Reply data \<Rightarrow> unmarshal_trade data | _ \<Rightarrow> None) ids))"

definition SetLTP :: "'r redis \<Rightarrow> string \<Rightarrow> f64 \<Rightarrow> 'r \<Rightarrow> 'r \<times> store_error option" where
  "SetLTP R symbol price s =
     (let (s1, err) = r_Set R (''ltp:'' @ symbol) (format2 price) quoteTTL s in (s1, map_option RedisError err))"

definition redis_GetLTP :: "'r redis \<Rightarrow> string \<Rightarrow> 'r \<Rightarrow> f64" where
  "redis_GetLTP R symbol s = parse_reply (r_Get R (''ltp:'' @ symbol) s)"

definition SetQuote :: "'r redis \<Rightarrow> string \<Rightarrow> Quote \<Rightarrow> 'r \<Rightarrow> 'r \<times> store_error option" where
  "SetQuote R symbol q s =
     (case marshal_quote q of
        None \<Rightarrow> (s, Some MarshalError)
      | Some data \<Rightarrow>
          let (s1, err) = r_Set R (''quote:'' @ symbol) data quoteTTL s in (s1, map_option RedisError err))"

definition GetQuoteRaw :: "'r redis \<Rightarrow> string \<Rightarrow> 'r \<Rightarrow> redis_val reply" where
  "GetQuoteRaw R symbol s = r_Get R (''quote:'' @ symbol) s"

section \<open>Statistics\<close>

record StoreStats =
  ss_open_orders :: nat
  ss_filled_orders :: nat
  ss_rejected_orders :: nat
  ss_total_trades :: int

definition count_members :: "'r redis \<Rightarrow> string \<Rightarrow> 'r \<Rightarrow> nat" where
  "count_members R key s = (case r_SMembers R key s of Reply ids \<Rightarrow> length ids | _ \<Rightarrow> 0)"

definition redis_Stats :: "'r redis \<Rightarrow> 'r \<Rightarrow> StoreStats" where
  "redis_Stats R s =
     \<lparr>ss_open_orders = count_members R ''orders:status:OPEN'' s,
      ss_filled_orders = count_members R ''orders:status:FILLED'' s,
      ss_rejected_orders = count_members R ''orders:status:REJECTED'' s,
      ss_total_trades = (case r_LLen R ''trades:all'' s of Reply n \<Rightarrow> n | _ \<Rightarrow> 0)\<rparr>"

definition Flush :: "'r redis \<Rightarrow> 'r \<Rightarrow> 'r \<times> store_error option" where
  "Flush R s = (let (s1, err) = r_FlushDB R s in (s1, map_option RedisError err))"

section \<open>Triggers and rate limits\<close>

definition zkey :: "string \<Rightarrow> string \<Rightarrow> string" where
  "zkey condition symbol = ''gtt:'' @ condition @ '':'' @ symbol"

definition AddGTT :: "'r redis \<Rightarrow> string \<Rightarrow> string \<Rightarrow> string \<Rightarrow> f64 \<Rightarrow> redis_val option \<Rightarrow> 'r \<Rightarrow> 'r \<times> store_error option" where
  "AddGTT R gttID symbol condition triggerPrice doc s =
     (case doc of
        None \<Rightarrow> (s, Some MarshalError)
      | Some jsonBytes \<Rightarrow>
          let (s1, err) = pipe_exec
            [r_ZAdd R (zkey condition symbol) triggerPrice gttID,
             r_Set R (''gtt:data:'' @ gttID) jsonBytes (hours 24)] s
          in (s1, map_option RedisError err))"

definition RemoveGTT :: "'r redis \<Rightarrow> string \<Rightarrow> string \<Rightarrow> string \<Rightarrow> 'r \<Rightarrow> 'r \<times> store_error option" where
  "RemoveGTT R gttID symbol condition s =
     (let (s1, err) = pipe_exec
        [r_ZRem R (zkey condition symbol) gttID, r_Del R (''gtt:data:'' @ gttID)] s
      in (s1, map_option RedisError err))"

definition zrange :: "'r redis \<Rightarrow> string \<Rightarrow> f64 \<Rightarrow> f64 \<Rightarrow> 'r \<Rightarrow> string list" where
  "zrange R key lo hi s = (case r_ZRangeByScore R key lo hi s of Reply ids \<Rightarrow> ids | _ \<Rightarrow> [])"

definition GetTriggeredGTTs :: "'r redis \<Rightarrow> string \<Rightarrow> f64 \<Rightarrow> 'r \<Rightarrow> string list" where
  "GetTriggeredGTTs R symbol ltp s =
     zrange R (zkey ''LTP_BELOW'' symbol) NInf (fixed6 ltp) s @
     zrange R (zkey ''LTP_ABOVE'' symbol) (fixed6 ltp) PInf s"

definition GetGTTData :: "'r redis \<Rightarrow> string \<Rightarrow> 'r \<Rightarrow> redis_val reply" where
  "GetGTTData R gttID s = r_Get R (''gtt:data:'' @ gttID) s"

definition GTTCount :: "'r redis \<Rightarrow> string \<Rightarrow> string \<Rightarrow> 'r \<Rightarrow> int" where
  "GTTCount R symbol condition s = (case r_ZCard R (zkey condition symbol) s of Reply n \<Rightarrow> n | _ \<Rightarrow> 0)"

text \<open>The sliding-window script: entries up to \<open>now - window\<close> go, then count, then record the request.\<close>

definition CheckRateLimit :: "'r redis \<Rightarrow> instant \<Rightarrow> string \<Rightarrow> int \<Rightarrow> int \<Rightarrow> 'r \<Rightarrow> 'r \<times> (store_error + bool)" where
  "CheckRateLimit R now clientID windowMs maxRequests s =
     (let key = ''ratelimit:'' @ clientID;
          ms = now div 1000000;
          (s1, e1) = r_ZRemRangeByScore R key NInf (fsub (float64 ms) (float64 windowMs)) s
      in case e1 of
           Some e \<Rightarrow> (s1, Inl (ScriptError e))
         | None \<Rightarrow>
             (case r_ZCard R key s1 of
                Reply count \<Rightarrow>
                  if maxRequests \<le> count then (s1, Inr False)
                  else
                    let (s2, e2) = r_ZAdd R key (float64 ms) (show_int ms) s1 in
                    (case e2 of
                       Some e \<Rightarrow> (s2, Inl (ScriptError e))
                     | None \<Rightarrow>
                         let (s3, e3) = r_Expire R key (windowMs * 1000000) s2
                         in (case e3 of Some e \<Rightarrow> (s3, Inl (ScriptError e)) | None \<Rightarrow> (s3, Inr True)))
              | FailReply e \<Rightarrow> (s1, Inl (ScriptError e))
              | NilReply \<Rightarrow> (s1, Inl (ScriptError ''attempt to compare nil with number''))))"

section \<open>An in-memory server\<close>

record Mem =
  m_kv :: "string \<rightharpoonup> redis_val"
  m_sets :: "string \<Rightarrow> string list"
  m_lists :: "string \<Rightarrow> string list"
  m_zsets :: "string \<Rightarrow> (string \<times> f64) list"

definition mem_empty :: Mem where
  "mem_empty = \<lparr>m_kv = Map.empty, m_sets = (\<lambda>_. []), m_lists = (\<lambda>_. []), m_zsets = (\<lambda>_. [])\<rparr>"

definition mem_incr :: "string \<Rightarrow> f64 \<Rightarrow> Mem \<Rightarrow> Mem \<times> string option" where
  "mem_incr k a m =
     (case m_kv m k of
        None \<Rightarrow> (m\<lparr>m_kv := (m_kv m)(k \<mapsto> Num a)\<rparr>, None)
      | Some v \<Rightarrow>
          (case tonumber v of
             None \<Rightarrow> (m, Some ''ERR value is not a valid float'')
           | Some u \<Rightarrow> (m\<lparr>m_kv := (m_kv m)(k \<mapsto> Num (fadd u a))\<rparr>, None)))"

definition mem_redis :: "Mem redis" where
  "mem_redis =
     \<lparr>r_Get = (\<lambda>k m. case m_kv m k of Some v \<Rightarrow> Reply v | None \<Rightarrow> NilReply),
      r_Set = (\<lambda>k v ttl m. (m\<lparr>m_kv := (m_kv m)(k \<mapsto> v)\<rparr>, None)),
      r_Del = (\<lambda>k m. (m\<lparr>m_kv := (m_kv m)(k := None)\<rparr>, None)),
      r_IncrByFloat = mem_incr,
      r_SAdd = (\<lambda>k x m. (m\<lparr>m_sets := (m_sets m)(k := List.insert x (m_sets m k))\<rparr>, None)),
      r_SRem = (\<lambda>k x m. (m\<lparr>m_sets := (m_sets m)(k := removeAll x (m_sets m k))\<rparr>, None)),
      r_SMembers = (\<lambda>k m. Reply (m_sets m k)),
      r_Expire = (\<lambda>k ttl m. (m, None)),
      r_LPush = (\<lambda>k x m. (m\<lparr>m_lists := (m_lists m)(k := x # m_lists m k)\<rparr>, None)),
      r_LTrim = (\<lambda>k a b m. (m\<lparr>m_lists := (m_lists m)(k := drop (nat a) (take (nat (b + 1)) (m_lists m k)))\<rparr>, None)),
      r_LRange = (\<lambda>k a b m. Reply (drop (nat a) (take (nat (b + 1)) (m_lists m k)))),
      r_LLen = (\<lambda>k m. Reply (int (length (m_lists m k)))),
      r_ZAdd = (\<lambda>k sc x m. (m\<lparr>m_zsets := (m_zsets m)(k := (x, sc) # filter (\<lambda>e. fst e \<noteq> x) (m_zsets m k))\<rparr>, None)),
      r_ZRem = (\<lambda>k x m. (m\<lparr>m_zsets := (m_zsets m)(k := filter (\<lambda>e. fst e \<noteq> x) (m_zsets m k))\<rparr>, None)),
      r_ZRangeByScore = (\<lambda>k lo hi m. Reply (map fst (filter (\<lambda>e. fle lo (snd e) \<and> fle (snd e) hi) (m_zsets m k)))),
      r_ZRemRangeByScore = (\<lambda>k lo hi m. (m\<lparr>m_zsets := (m_zsets m)(k := filter (\<lambda>e. \<not> (fle lo (snd e) \<and> fle (snd e) hi)) (m_zsets m k))\<rparr>, None)),
      r_ZCard = (\<lambda>k m. Reply (int (length (m_zsets m k)))),
      r_FlushDB = (\<lambda>m. (mem_empty, None))\<rparr>"

section \<open>What the store relies on\<close>

text \<open>
  Documented behaviour of the commands: a value that was set is read back, \<^verbatim>\<open>INCRBYFLOAT\<close> adds (stated
  where the sum is exactly representable, since the server computes in extended precision), and
  commands on one key leave the values of other keys alone.
\<close>

definition redis_laws :: "'r redis \<Rightarrow> bool" where
  "redis_laws R \<longleftrightarrow>
     (\<forall>k v ttl s. snd (r_Set R k v ttl s) = None \<longrightarrow> r_Get R k (fst (r_Set R k v ttl s)) = Reply v) \<and>
     (\<forall>k k' v ttl s. k' \<noteq> k \<longrightarrow> r_Get R k' (fst (r_Set R k v ttl s)) = r_Get R k' s) \<and>
     (\<forall>k k' x s. k' \<noteq> k \<longrightarrow> r_Get R k' (fst (r_SAdd R k x s)) = r_Get R k' s) \<and>
     (\<forall>k k' x s. k' \<noteq> k \<longrightarrow> r_Get R k' (fst (r_SRem R k x s)) = r_Get R k' s) \<and>
     (\<forall>k k' ttl s. k' \<noteq> k \<longrightarrow> r_Get R k' (fst (r_Expire R k ttl s)) = r_Get R k' s) \<and>
     (\<forall>k k' a s. k' \<noteq> k \<longrightarrow> r_Get R k' (fst (r_IncrByFloat R k a s)) = r_Get R k' s) \<and>
     (\<forall>k k' x s. k' \<noteq> k \<longrightarrow> r_Get R k' (fst (r_LPush R k x s)) = r_Get R k' s) \<and>
     (\<forall>k k' a b s. k' \<noteq> k \<longrightarrow> r_Get R k' (fst (r_LTrim R k a b s)) = r_Get R k' s) \<and>
     (\<forall>k v u a s. r_Get R k s = Reply v \<longrightarrow> tonumber v = Some (Fin u) \<longrightarrow> round64 (u + a) = Fin (u + a) \<longrightarrow>
        snd (r_IncrByFloat R k (Fin a) s) = None \<longrightarrow>
        (\<exists>v'. r_Get R k (fst (r_IncrByFloat R k (Fin a) s)) = Reply v' \<and> tonumber v' = Some (Fin (u + a))))"

lemma redis_laws_set:
  assumes "redis_laws R"
  shows "snd (r_Set R k v ttl s) = None \<Longrightarrow> r_Get R k (fst (r_Set R k v ttl s)) = Reply v"
    and "k' \<noteq> k \<Longrightarrow> r_Get R k' (fst (r_Set R k v ttl s)) = r_Get R k' s"
  using assms by (simp_all add: redis_laws_def)

lemma redis_laws_frame:
  assumes "redis_laws R" "k' \<noteq> k"
  shows "r_Get R k' (fst (r_SAdd R k x s)) = r_Get R k' s"
    and "r_Get R k' (fst (r_SRem R k x s)) = r_Get R k' s"
    and "r_Get R k' (fst (r_Expire R k ttl s)) = r_Get R k' s"
    and "r_Get R k' (fst (r_IncrByFloat R k b s)) = r_Get R k' s"
    and "r_Get R k' (fst (r_LPush R k x s)) = r_Get R k' s"
    and "r_Get R k' (fst (r_LTrim R k i j s)) = r_Get R k' s"
  using assms by (simp_all add: redis_laws_def)

lemma redis_laws_incr:
  assumes "redis_laws R" "r_Get R k s = Reply v" "tonumber v = Some (Fin u)" "round64 (u + a) = Fin (u + a)"
    "snd (r_IncrByFloat R k (Fin a) s) = None"
  shows "\<exists>v'. r_Get R k (fst (r_IncrByFloat R k (Fin a) s)) = Reply v' \<and> tonumber v' = Some (Fin (u + a))"
  using assms by (simp add: redis_laws_def)

lemma mem_redis_laws: "redis_laws mem_redis"
  by (auto simp: redis_laws_def mem_redis_def mem_incr_def split: option.splits)

lemma keys_differ [simp]: "balance_key c \<noteq> used_key c'" "used_key c' \<noteq> balance_key c"
proof -
  have "last (balance_key c) = CHR ''e''" "last (used_key c') = CHR ''d''"
    by (simp_all add: balance_key_def used_key_def)
  then show "balance_key c \<noteq> used_key c'" "used_key c' \<noteq> balance_key c" by auto
qed

lemma used_key_inj [simp]: "used_key c = used_key c' \<longleftrightarrow> c = c'"
  by (simp add: used_key_def)

lemma order_key_other [simp]: "''order:'' @ i \<noteq> ''orders:'' @ rest"
  by simp

text \<open>The first command of a successful pipeline, followed by commands that leave a key alone.\<close>

lemma pipe_exec_get:
  assumes "\<And>c s. c \<in> set cs \<Longrightarrow> r_Get R k (fst (c s)) = r_Get R k s"
  shows "r_Get R k (fst (pipe_exec cs s)) = r_Get R k s"
  using assms by (induction cs arbitrary: s) (auto simp: Let_def case_prod_unfold)

lemma pipe_exec_Cons:
  "fst (pipe_exec (c # cs) s) = fst (pipe_exec cs (fst (c s)))"
  "snd (pipe_exec (c # cs) s) = None \<longleftrightarrow> snd (c s) = None \<and> snd (pipe_exec cs (fst (c s))) = None"
  by (auto simp: Let_def case_prod_unfold split: option.splits)

lemma save_order_get:
  assumes "redis_laws R" "SaveOrder R order s = (s', None)"
  shows "r_Get R (''order:'' @ o_OrderID order) s' = Reply (DocOrder order)"
proof -
  let ?k = "''order:'' @ o_OrderID order"
  have m: "marshal_order order = Some (DocOrder order)"
    using assms(2) by (auto simp: SaveOrder_def marshal_order_def split: if_splits)
  let ?rest = "[r_SAdd R (''orders:client:'' @ o_ClientID order) (o_OrderID order),
     r_Expire R (''orders:client:'' @ o_ClientID order) orderTTL,
     r_SAdd R (''orders:symbol:'' @ o_Symbol order) (o_OrderID order),
     r_SAdd R (''orders:status:'' @ status_string (o_Status order)) (o_OrderID order)]"
  let ?set = "r_Set R ?k (DocOrder order) orderTTL"
  have s': "s' = fst (pipe_exec (?set # ?rest) s)" and ok: "snd (pipe_exec (?set # ?rest) s) = None"
    using assms(2) by (auto simp: SaveOrder_def m Let_def case_prod_unfold simp del: pipe_exec.simps)
  have "snd (?set s) = None" using ok unfolding pipe_exec_Cons(2) by blast
  then have "r_Get R ?k (fst (?set s)) = Reply (DocOrder order)" by (rule redis_laws_set(1) [OF assms(1)])
  moreover have "r_Get R ?k (fst (pipe_exec ?rest (fst (?set s)))) = r_Get R ?k (fst (?set s))"
    by (rule pipe_exec_get) (auto simp: redis_laws_frame(1,3) [OF assms(1)])
  ultimately show ?thesis by (simp add: s' pipe_exec_Cons(1) del: pipe_exec.simps)
qed

text \<open>Saving an order leaves the keys of accounts alone.\<close>

lemma save_order_account:
  assumes "redis_laws R"
  shows "r_Get R (''account:'' @ k) (fst (SaveOrder R order s)) = r_Get R (''account:'' @ k) s"
proof -
  have "r_Get R (''account:'' @ k) (fst (pipe_exec
      [r_Set R (''order:'' @ o_OrderID order) (DocOrder order) orderTTL,
       r_SAdd R (''orders:client:'' @ o_ClientID order) (o_OrderID order),
       r_Expire R (''orders:client:'' @ o_ClientID order) orderTTL,
       r_SAdd R (''orders:symbol:'' @ o_Symbol order) (o_OrderID order),
       r_SAdd R (''orders:status:'' @ status_string (o_Status order)) (o_OrderID order)] s)) =
     r_Get R (''account:'' @ k) s"
    by (rule pipe_exec_get) (auto simp: redis_laws_set(2) [OF assms] redis_laws_frame(1,3) [OF assms])
  then show ?thesis
    by (auto simp: SaveOrder_def marshal_order_def Let_def case_prod_unfold simp del: pipe_exec.simps)
qed

text \<open>Saving a trade leaves the stored orders alone.\<close>

lemma save_trade_order:
  assumes "redis_laws R"
  shows "r_Get R (''order:'' @ i) (fst (SaveTrade R trade s)) = r_Get R (''order:'' @ i) s"
proof -
  have "r_Get R (''order:'' @ i) (fst (pipe_exec
      [r_Set R (''trade:'' @ t_TradeID trade) (DocTrade trade) tradeTTL,
       r_LPush R ''trades:all'' (t_TradeID trade),
       r_LPush R (''trades:symbol:'' @ t_Symbol trade) (t_TradeID trade),
       r_LTrim R ''trades:all'' 0 9999] s)) = r_Get R (''order:'' @ i) s"
    by (rule pipe_exec_get) (auto simp: redis_laws_set(2) [OF assms] redis_laws_frame(5,6) [OF assms])
  then show ?thesis
    by (auto simp: SaveTrade_def marshal_trade_def Let_def case_prod_unfold simp del: pipe_exec.simps)
qed

text \<open>On the in-memory server a save fails only for values JSON cannot hold.\<close>

lemma mem_SaveOrder_ok:
  "finite_f64 (o_Price x) \<Longrightarrow> finite_f64 (o_TriggerPrice x) \<Longrightarrow> finite_f64 (o_AveragePrice x) \<Longrightarrow>
   snd (SaveOrder mem_redis x s) = None"
  by (simp add: SaveOrder_def marshal_order_def mem_redis_def)

text \<open>A client's account with numbers in both of its keys.\<close>

definition account :: "'r redis \<Rightarrow> string \<Rightarrow> rat \<Rightarrow> rat \<Rightarrow> 'r \<Rightarrow> bool" where
  "account R c b u s \<longleftrightarrow> (\<exists>vb vu. r_Get R (balance_key c) s = Reply vb \<and> tonumber vb = Some (Fin b) \<and>
     r_Get R (used_key c) s = Reply vu \<and> tonumber vu = Some (Fin u))"

lemma account_keys: "balance_key c = ''account:'' @ c @ '':balance''" "used_key c = ''account:'' @ c @ '':used''"
  by (simp_all add: balance_key_def used_key_def)

lemma account_balance: "account R c b u s \<Longrightarrow> GetBalance R c s = Inr (Fin b, Fin u)"
  by (auto simp: account_def GetBalance_def parse_reply_def)

lemma account_save: "redis_laws R \<Longrightarrow> account R c b u (fst (SaveOrder R order s)) \<longleftrightarrow> account R c b u s"
  using save_order_account [of R _ order s] by (simp add: account_def account_keys)

lemma block_margin_account:
  assumes laws: "redis_laws R" and acc: "account R c b u s" and amount: "tonumber (format2 x) = Some (Fin a)"
    and exact: "round64 (b - u) = Fin (b - u)" "round64 (u + a) = Fin (u + a)"
    and ok: "redis_BlockMargin R c x s = (s1, None)"
  shows "u + a \<le> b" "account R c b (u + a) s1"
proof -
  obtain vb vu where v: "r_Get R (balance_key c) s = Reply vb" "tonumber vb = Some (Fin b)"
    "r_Get R (used_key c) s = Reply vu" "tonumber vu = Some (Fin u)" using acc by (auto simp: account_def)
  have free: "fsub (Fin b) (Fin u) = Fin (b - u)" using exact(1) by (simp add: fsub_def)
  have "\<not> b - u < a" and s1: "s1 = fst (r_IncrByFloat R (used_key c) (Fin a) s)"
    and incr: "snd (r_IncrByFloat R (used_key c) (Fin a) s) = None"
    using ok by (auto simp: redis_BlockMargin_def lua_get_def v amount free Let_def case_prod_unfold split: if_splits)
  then show "u + a \<le> b" by simp
  obtain v1 where "r_Get R (used_key c) s1 = Reply v1" "tonumber v1 = Some (Fin (u + a))"
    using redis_laws_incr [OF laws v(3,4) exact(2) incr] s1 by blast
  moreover have "r_Get R (balance_key c) s1 = Reply vb" by (simp add: s1 v redis_laws_frame(4) [OF laws])
  ultimately show "account R c b (u + a) s1" using v(2) by (auto simp: account_def)
qed

lemma release_margin_account:
  assumes laws: "redis_laws R" and acc: "account R c b (u + a) s" and amount: "tonumber (format2 x) = Some (Fin a)"
    and exact: "round64 u = Fin u" "0 \<le> u" and ok: "redis_ReleaseMargin R c x s = (s1, None)"
  shows "account R c b u s1"
proof -
  obtain vb vu where v: "r_Get R (balance_key c) s = Reply vb" "tonumber vb = Some (Fin b)"
    "r_Get R (used_key c) s = Reply vu" "tonumber vu = Some (Fin (u + a))" using acc by (auto simp: account_def)
  have diff: "fsub (Fin (u + a)) (Fin a) = Fin u" using exact(1) by (simp add: fsub_def)
  have floor: "(if 0 < u then Fin u else Fin 0) = Fin u" using exact(2) by auto
  have s1: "s1 = fst (r_Set R (used_key c) (Num (Fin u)) 0 s)"
    and set: "snd (r_Set R (used_key c) (Num (Fin u)) 0 s) = None"
    using ok by (simp_all add: redis_ReleaseMargin_def lua_get_def v amount Let_def case_prod_unfold diff floor
        cong: if_cong prod.case_cong)
  have "r_Get R (used_key c) s1 = Reply (Num (Fin u))" "r_Get R (balance_key c) s1 = Reply vb"
    using redis_laws_set(1) [OF laws set] v(1) by (simp_all add: s1 redis_laws_set(2) [OF laws])
  with v(2) show ?thesis by (auto simp: account_def)
qed

section \<open>Properties\<close>

text \<open>An order that was saved without error is read back unchanged under its identifier, on any server
  that keeps what was set.\<close>

lemma save_order_roundtrip:
  assumes "redis_laws R" "SaveOrder R order s = (s', None)"
  shows "redis_GetOrder R (o_OrderID order) s' = Inr order"
  using save_order_get [OF assms] by (simp add: redis_GetOrder_def)

lemma save_order_roundtrip_witness:
  "redis_GetOrder mem_redis (o_OrderID ex_order) (fst (SaveOrder mem_redis ex_order mem_empty)) = Inr ex_order"
proof -
  have "marshal_order ex_order = Some (DocOrder ex_order)"
    by (simp add: marshal_order_def ex_order_def NewOrder_def)
  then have "SaveOrder mem_redis ex_order mem_empty = (fst (SaveOrder mem_redis ex_order mem_empty), None)"
    by (simp add: SaveOrder_def mem_redis_def)
  from save_order_roundtrip [OF mem_redis_laws this] show ?thesis .
qed


definition ex_account :: Mem where
  "ex_account = fst (InitAccount mem_redis ''C1'' (Fin 100000) mem_empty)"


text \<open>The last traded price that was stored for a symbol is read back rounded to two decimals, on any
  server that keeps what was set.\<close>

lemma ltp_roundtrip:
  assumes "redis_laws R" "SetLTP R symbol (Fin x) s = (s', None)"
  shows "redis_GetLTP R symbol s' = round64 (of_int (rne (x * 100)) / 100)"
proof -
  let ?set = "r_Set R (''ltp:'' @ symbol) (format2 (Fin x)) quoteTTL s"
  have "snd ?set = None" and s': "s' = fst ?set"
    using assms(2) by (auto simp: SetLTP_def Let_def case_prod_unfold)
  then have "r_Get R (''ltp:'' @ symbol) s' = Reply (format2 (Fin x))"
    using redis_laws_set(1) [OF assms(1)] by blast
  then show ?thesis by (simp add: redis_GetLTP_def parse_reply_def format2_def parse_print_roundtrip del: show_fixed2.simps)
qed

lemma ltp_roundtrip_witness:
  "redis_GetLTP mem_redis ''TCS'' (fst (SetLTP mem_redis ''TCS'' (Fin 3800) mem_empty)) = Fin 3800"
proof -
  have "SetLTP mem_redis ''TCS'' (Fin 3800) mem_empty = (fst (SetLTP mem_redis ''TCS'' (Fin 3800) mem_empty), None)"
    by (simp add: SetLTP_def mem_redis_def)
  from ltp_roundtrip [OF mem_redis_laws this] show ?thesis
    using rne_of_int [of 380000] by (simp add: f64_simps)
qed

section \<open>Behaviours outside the intended contract\<close>

text \<open>
  The score ranges of \<^verbatim>\<open>GetTriggeredGTTs\<close> are reversed with respect to the trigger conditions: a
  stop-loss (fires at or below 100) is reported at 110 and not at 90. The rate limiter identifies
  a request by its millisecond, so requests of the same millisecond count once.
\<close>

lemma triggered_gtts_reversed:
  "GetTriggeredGTTs mem_redis ''INFY'' (Fin 110)
     (fst (AddGTT mem_redis ''G1'' ''INFY'' ''LTP_BELOW'' (Fin 100) (Some (DocRaw [])) mem_empty)) = [''G1'']"
  "GetTriggeredGTTs mem_redis ''INFY'' (Fin 90)
     (fst (AddGTT mem_redis ''G1'' ''INFY'' ''LTP_BELOW'' (Fin 100) (Some (DocRaw [])) mem_empty)) = []"
  by code_simp+

lemma rate_limit_same_millisecond:
  "map (\<lambda>n. snd (CheckRateLimit mem_redis 5000000 ''C1'' 1000 2
       (((\<lambda>m. fst (CheckRateLimit mem_redis 5000000 ''C1'' 1000 2 m)) ^^ n) mem_empty))) [0, 1, 2, 3] =
   [Inr True, Inr True, Inr True, Inr True]"
  by code_simp

end
