(* ===== verification/WS_Hub.thy ===== *)
theory WS_Hub
  imports Market_Data "HOL-Library.Monad_Syntax"
begin

text \<open>
  The WebSocket hub of \<^verbatim>\<open>internal/ws/hub.go\<close>. Client structures live at addresses; the hub's three
  channels are queues. The cases of the hub's \<^verbatim>\<open>select\<close> loop are functions whose result is \<open>None\<close> where
  Go panics: a send on a closed channel, or closing one twice. The order in which the loop ranges
  over the client map is an argument. The WebSocket library and the network are outside: the frames
  a client sends are arguments, the frames written to it are results. Shown: the loop never panics,
  a broadcast reaches exactly the subscribed clients in any iteration order, buffers stay bounded.
\<close>

section \<open>Messages and state\<close>

type_synonym MessageType = string

definition MsgPriceTick :: MessageType where "MsgPriceTick = ''price_tick''"
definition MsgOrderUpdate :: MessageType where "MsgOrderUpdate = ''order_update''"
definition MsgTradeAlert :: MessageType where "MsgTradeAlert = ''trade_alert''"
definition MsgSubscribed :: MessageType where "MsgSubscribed = ''subscribed''"
definition MsgError :: MessageType where "MsgError = ''error''"
definition MsgPong :: MessageType where "MsgPong = ''pong''"

text \<open>Payloads: a quote, a JSON object built from named values, or a text.\<close>

datatype json = JString string | JInt int | JFloat f64

datatype payload = PQuote Quote | PObject "(string \<times> json) list" | PText string

record Message =
  m_Type :: MessageType
  m_Topic :: string
  m_Payload :: payload
  m_Timestamp :: instant

record WSClient =
  c_send :: "Message list"
  c_closed :: bool
  c_subs :: "string set"
  c_clientID :: string

record Hub =
  h_register :: "addr list"
  h_unregister :: "addr list"
  h_broadcast :: "Message list"
  h_clients :: "addr set"
  h_obj :: "addr \<Rightarrow> WSClient"
  h_next :: addr

definition send_cap :: nat where "send_cap = 256"
definition broadcast_cap :: nat where "broadcast_cap = 10000"

definition NewHub :: "(addr \<Rightarrow> WSClient) \<Rightarrow> Hub" where
  "NewHub objs = \<lparr>h_register = [], h_unregister = [], h_broadcast = [], h_clients = {}, h_obj = objs, h_next = 0\<rparr>"

definition put_client :: "addr \<Rightarrow> WSClient \<Rightarrow> Hub \<Rightarrow> Hub" where
  "put_client c x h = h\<lparr>h_obj := (h_obj h)(c := x)\<rparr>"

section \<open>Publishing\<close>

definition Broadcast :: "instant \<Rightarrow> Message \<Rightarrow> Hub \<Rightarrow> Hub" where
  "Broadcast now msg h =
     h\<lparr>h_broadcast := try_send broadcast_cap (msg\<lparr>m_Timestamp := now\<rparr>) (h_broadcast h)\<rparr>"

definition message :: "MessageType \<Rightarrow> string \<Rightarrow> payload \<Rightarrow> Message" where
  "message ty topic payload = \<lparr>m_Type = ty, m_Topic = topic, m_Payload = payload, m_Timestamp = 0\<rparr>"

definition BroadcastPriceTick :: "instant \<Rightarrow> string \<Rightarrow> payload \<Rightarrow> Hub \<Rightarrow> Hub" where
  "BroadcastPriceTick now symbol payload h =
     Broadcast now (message MsgPriceTick ''price:*'' payload)
       (Broadcast now (message MsgPriceTick (''price:'' @ symbol) payload) h)"

definition BroadcastOrderUpdate :: "instant \<Rightarrow> string \<Rightarrow> payload \<Rightarrow> Hub \<Rightarrow> Hub" where
  "BroadcastOrderUpdate now clientID payload h =
     Broadcast now (message MsgOrderUpdate (''orders:'' @ clientID) payload) h"

definition BroadcastTrade :: "instant \<Rightarrow> payload \<Rightarrow> Hub \<Rightarrow> Hub" where
  "BroadcastTrade now payload h = Broadcast now (message MsgTradeAlert ''trades:*'' payload) h"

definition ConnectedClients :: "Hub \<Rightarrow> nat" where
  "ConnectedClients h = card (h_clients h)"

section \<open>Clients\<close>

definition subscribe :: "string \<Rightarrow> WSClient \<Rightarrow> WSClient" where
  "subscribe topic x = x\<lparr>c_subs := insert topic (c_subs x)\<rparr>"

definition unsubscribe :: "string \<Rightarrow> WSClient \<Rightarrow> WSClient" where
  "unsubscribe topic x = x\<lparr>c_subs := c_subs x - {topic}\<rparr>"

definition isSubscribed :: "string \<Rightarrow> WSClient \<Rightarrow> bool" where
  "isSubscribed topic x \<longleftrightarrow> topic \<in> c_subs x"

text \<open>A blocking send on a client's channel: on a closed channel it panics. (It waits for room.)\<close>

definition send_to :: "Message \<Rightarrow> WSClient \<Rightarrow> WSClient option" where
  "send_to msg x = (if c_closed x then None else Some (x\<lparr>c_send := c_send x @ [msg]\<rparr>))"

text \<open>\<^verbatim>\<open>ServeWS\<close> after a successful upgrade: a new client object, its registration, and the
  subscription to its own orders.\<close>

definition ServeWS :: "string \<Rightarrow> Hub \<Rightarrow> Hub option" where
  "ServeWS clientID h =
     (let c = h_next h;
          x = \<lparr>c_send = [], c_closed = False, c_subs = {}, c_clientID = clientID\<rparr>;
          h1 = (put_client c x h)\<lparr>h_register := h_register h @ [c], h_next := c + 1\<rparr>
      in if clientID \<noteq> [] then
           do { x1 \<leftarrow> send_to (message MsgSubscribed (''orders:'' @ clientID)
                       (PObject [(''message'', JString ''Auto-subscribed to your orders'')]))
                     (subscribe (''orders:'' @ clientID) x);
                Some (put_client c x1 h1) }
         else Some h1)"

text \<open>One frame read by \<^verbatim>\<open>readPump\<close>; a read error ends the pump and unregisters the client.\<close>

datatype incoming = ReadError | BadJSON | Control string string

definition read_step :: "incoming \<Rightarrow> addr \<Rightarrow> Hub \<Rightarrow> Hub option" where
  "read_step frame c h =
     (let x = h_obj h c in
      case frame of
        ReadError \<Rightarrow> Some (h\<lparr>h_unregister := h_unregister h @ [c]\<rparr>)
      | BadJSON \<Rightarrow>
          do { x1 \<leftarrow> send_to (message MsgError [] (PText ''invalid message format'')) x;
               Some (put_client c x1 h) }
      | Control action topic \<Rightarrow>
          if action = ''subscribe'' then
            do { x1 \<leftarrow> send_to (message MsgSubscribed topic
                        (PObject [(''message'', JString (''subscribed to '' @ topic))])) (subscribe topic x);
                 Some (put_client c x1 h) }
          else if action = ''unsubscribe'' then Some (put_client c (unsubscribe topic x) h)
          else if action = ''ping'' then
            do { x1 \<leftarrow> send_to (message MsgPong [] (PText ''pong'')) x; Some (put_client c x1 h) }
          else Some h)"

text \<open>One receive of \<^verbatim>\<open>writePump\<close>: the next message, or the close frame once the channel is closed
  and drained; otherwise it waits.\<close>

datatype frame = DataFrame Message | CloseFrame

definition write_step :: "addr \<Rightarrow> Hub \<Rightarrow> (Hub \<times> frame) option" where
  "write_step c h =
     (let x = h_obj h c in
      case c_send x of
        msg # rest \<Rightarrow> Some (put_client c (x\<lparr>c_send := rest\<rparr>) h, DataFrame msg)
      | [] \<Rightarrow> if c_closed x then Some (h, CloseFrame) else None)"

section \<open>The hub's loop\<close>

definition close_send :: "addr \<Rightarrow> Hub \<Rightarrow> Hub option" where
  "close_send c h =
     (if c_closed (h_obj h c) then None else Some (put_client c ((h_obj h c)\<lparr>c_closed := True\<rparr>) h))"

definition run_register :: "Hub \<Rightarrow> Hub option" where
  "run_register h =
     (case h_register h of
        [] \<Rightarrow> Some h
      | c # cs \<Rightarrow> Some (h\<lparr>h_register := cs, h_clients := insert c (h_clients h)\<rparr>))"

definition run_unregister :: "Hub \<Rightarrow> Hub option" where
  "run_unregister h =
     (case h_unregister h of
        [] \<Rightarrow> Some h
      | c # cs \<Rightarrow>
          let h1 = h\<lparr>h_unregister := cs\<rparr> in
          if c \<in> h_clients h1 then close_send c (h1\<lparr>h_clients := h_clients h1 - {c}\<rparr>) else Some h1)"

definition fan_out :: "Message \<Rightarrow> addr \<Rightarrow> Hub \<Rightarrow> Hub option" where
  "fan_out msg c h =
     (let x = h_obj h c in
      if isSubscribed (m_Topic msg) x then
        if c_closed x then None
        else if length (c_send x) < send_cap then Some (put_client c (x\<lparr>c_send := c_send x @ [msg]\<rparr>) h)
        else close_send c (h\<lparr>h_clients := h_clients h - {c}\<rparr>)
      else Some h)"

fun fan_out_all :: "Message \<Rightarrow> addr list \<Rightarrow> Hub \<Rightarrow> Hub option" where
  "fan_out_all msg [] h = Some h"
| "fan_out_all msg (c # cs) h = do { h1 \<leftarrow> fan_out msg c h; fan_out_all msg cs h1 }"

definition run_broadcast :: "addr list \<Rightarrow> Hub \<Rightarrow> Hub option" where
  "run_broadcast keys h =
     (case h_broadcast h of
        [] \<Rightarrow> Some h
      | msg # rest \<Rightarrow> fan_out_all msg keys (h\<lparr>h_broadcast := rest\<rparr>))"

section \<open>Runs\<close>

text \<open>
  Every interleaving of connections, frames read and written, published messages and iterations of
  the loop. A read pump that would panic, and a write pump that waits, take no step here.
\<close>

definition enumerates :: "addr list \<Rightarrow> Hub \<Rightarrow> bool" where
  "enumerates keys h \<longleftrightarrow> distinct keys \<and> set keys = h_clients h"

definition has_space :: "addr \<Rightarrow> Hub \<Rightarrow> bool" where
  "has_space c h \<longleftrightarrow> length (c_send (h_obj h c)) < send_cap"

inductive hub_step :: "Hub \<Rightarrow> Hub \<Rightarrow> bool" where
  serve: "ServeWS clientID h = Some h' \<Longrightarrow> hub_step h h'"
| read: "c < h_next h \<Longrightarrow> has_space c h \<Longrightarrow> read_step frame c h = Some h' \<Longrightarrow> hub_step h h'"
| "write": "c < h_next h \<Longrightarrow> write_step c h = Some (h', frame) \<Longrightarrow> hub_step h h'"
| publish: "hub_step h (Broadcast now msg h)"
| loop_register: "run_register h = Some h' \<Longrightarrow> hub_step h h'"
| loop_unregister: "run_unregister h = Some h' \<Longrightarrow> hub_step h h'"
| loop_broadcast: "enumerates keys h \<Longrightarrow> run_broadcast keys h = Some h' \<Longrightarrow> hub_step h h'"

inductive hub_reachable :: "Hub \<Rightarrow> bool" where
  init: "hub_reachable (NewHub objs)"
| step: "hub_reachable h \<Longrightarrow> hub_step h h' \<Longrightarrow> hub_reachable h'"

text \<open>
  The invariant: a client is registered once, and from its registration until the hub drops it its
  channel is open; buffers are within their capacity.
\<close>

definition hub_inv :: "Hub \<Rightarrow> bool" where
  "hub_inv h \<longleftrightarrow> distinct (h_register h) \<and> set (h_register h) \<inter> h_clients h = {} \<and> finite (h_clients h) \<and>
     (\<forall>c \<in> set (h_register h) \<union> h_clients h. c < h_next h \<and> \<not> c_closed (h_obj h c)) \<and>
     (\<forall>c < h_next h. length (c_send (h_obj h c)) \<le> send_cap) \<and>
     length (h_broadcast h) \<le> broadcast_cap"

lemma put_client_simps [simp]:
  "h_register (put_client c x h) = h_register h" "h_unregister (put_client c x h) = h_unregister h"
  "h_broadcast (put_client c x h) = h_broadcast h" "h_clients (put_client c x h) = h_clients h"
  "h_next (put_client c x h) = h_next h" "h_obj (put_client c x h) = (h_obj h)(c := x)"
  by (simp_all add: put_client_def)

lemma client_simps [simp]:
  "c_send (subscribe t x) = c_send x" "c_closed (subscribe t x) = c_closed x"
  "c_send (unsubscribe t x) = c_send x" "c_closed (unsubscribe t x) = c_closed x"
  by (simp_all add: subscribe_def unsubscribe_def)

text \<open>What one visit of the fan-out does to its client; the others are untouched.\<close>

definition delivered :: "Message \<Rightarrow> WSClient \<Rightarrow> WSClient" where
  "delivered msg x =
     (if isSubscribed (m_Topic msg) x
      then if length (c_send x) < send_cap then x\<lparr>c_send := c_send x @ [msg]\<rparr> else x\<lparr>c_closed := True\<rparr>
      else x)"

definition dropped :: "Message \<Rightarrow> WSClient \<Rightarrow> bool" where
  "dropped msg x \<longleftrightarrow> isSubscribed (m_Topic msg) x \<and> send_cap \<le> length (c_send x)"

lemma fan_out_open:
  assumes "\<not> c_closed (h_obj h c)"
  shows "fan_out msg c h = Some (h\<lparr>h_obj := (h_obj h)(c := delivered msg (h_obj h c)),
    h_clients := (if dropped msg (h_obj h c) then h_clients h - {c} else h_clients h)\<rparr>)"
  using assms by (auto simp: fan_out_def delivered_def dropped_def close_send_def put_client_def Let_def)

lemma fan_out_all_open:
  assumes "distinct keys" "\<And>c. c \<in> set keys \<Longrightarrow> \<not> c_closed (h_obj h c)"
  shows "fan_out_all msg keys h = Some (h\<lparr>
     h_obj := (\<lambda>c. if c \<in> set keys then delivered msg (h_obj h c) else h_obj h c),
     h_clients := h_clients h - {c \<in> set keys. dropped msg (h_obj h c)}\<rparr>)"
  using assms
proof (induction keys arbitrary: h)
  case (Cons k keys)
  let ?h = "h\<lparr>h_obj := (h_obj h)(k := delivered msg (h_obj h k)),
    h_clients := (if dropped msg (h_obj h k) then h_clients h - {k} else h_clients h)\<rparr>"
  have "fan_out_all msg keys ?h = Some (?h\<lparr>
     h_obj := (\<lambda>c. if c \<in> set keys then delivered msg (h_obj ?h c) else h_obj ?h c),
     h_clients := h_clients ?h - {c \<in> set keys. dropped msg (h_obj ?h c)}\<rparr>)"
    by (rule Cons.IH) (use Cons.prems in auto)
  moreover have "fan_out msg k h = Some ?h" using Cons.prems fan_out_open by simp
  moreover have "(\<lambda>c. if c \<in> set keys then delivered msg (h_obj ?h c) else h_obj ?h c) =
      (\<lambda>c. if c \<in> set (k # keys) then delivered msg (h_obj h c) else h_obj h c)"
    using Cons.prems(1) by auto
  moreover have "h_clients ?h - {c \<in> set keys. dropped msg (h_obj ?h c)} =
      h_clients h - {c \<in> set (k # keys). dropped msg (h_obj h c)}"
    using Cons.prems(1) by auto
  ultimately show ?case by simp
qed simp


lemma delivered_length: "length (c_send x) \<le> send_cap \<Longrightarrow> length (c_send (delivered msg x)) \<le> send_cap"
  by (simp add: delivered_def)

lemma delivered_closed: "\<not> c_closed x \<Longrightarrow> c_closed (delivered msg x) \<longleftrightarrow> dropped msg x"
  by (auto simp: delivered_def dropped_def)

text \<open>Steps that only change objects of clients, keeping buffers bounded and open channels open.\<close>

lemma hub_inv_put:
  assumes "hub_inv h" "length (c_send x) \<le> send_cap" "c_closed x \<Longrightarrow> c_closed (h_obj h c)"
  shows "hub_inv (put_client c x h)"
  using assms by (auto simp: hub_inv_def)

lemma send_to_length:
  "send_to msg x = Some x' \<Longrightarrow> length (c_send x') = Suc (length (c_send x)) \<and> (c_closed x' \<longleftrightarrow> c_closed x)"
  by (auto simp: send_to_def split: if_splits)

lemma hub_inv_ServeWS:
  assumes "hub_inv h" "ServeWS clientID h = Some h'"
  shows "hub_inv h'"
proof -
  have fresh: "h_next h \<notin> set (h_register h)" "h_next h \<notin> h_clients h" using assms(1) by (auto simp: hub_inv_def)
  show ?thesis
    using assms fresh
    by (auto simp: ServeWS_def Let_def send_to_def hub_inv_def send_cap_def less_Suc_eq split: if_splits)
qed

lemma hub_inv_read:
  assumes "hub_inv h" "c < h_next h" "has_space c h" "read_step frame c h = Some h'"
  shows "hub_inv h'"
proof -
  have len: "length (c_send (h_obj h c)) < send_cap" using assms(3) by (simp add: has_space_def)
  have put: "hub_inv (put_client c x h)"
    if "send_to msg y = Some x" "c_send y = c_send (h_obj h c)" "c_closed y = c_closed (h_obj h c)" for msg x y
    by (rule hub_inv_put [OF assms(1)]) (use send_to_length [OF that(1)] that(2,3) len in auto)
  show ?thesis
  proof (cases frame)
    case ReadError
    then show ?thesis using assms(1,4) by (auto simp: read_step_def hub_inv_def)
  next
    case BadJSON
    then show ?thesis using assms(4) put by (auto simp: read_step_def Option.bind_eq_Some_conv)
  next
    case (Control action topic)
    have "hub_inv (put_client c (unsubscribe topic (h_obj h c)) h)"
      by (rule hub_inv_put [OF assms(1)]) (use len in auto)
    with Control show ?thesis
      using assms(1,4) put by (auto simp: read_step_def Let_def bind_eq_Some_conv split: if_splits)
  qed
qed

lemma hub_inv_write:
  assumes "hub_inv h" "c < h_next h" "write_step c h = Some (h', frame)"
  shows "hub_inv h'"
proof -
  have "length (c_send (h_obj h c)) \<le> send_cap" using assms(1,2) by (simp add: hub_inv_def)
  then show ?thesis
    using assms(1,3) by (auto simp: write_step_def Let_def intro!: hub_inv_put split: list.splits if_splits)
qed

lemma hub_inv_publish: "hub_inv h \<Longrightarrow> hub_inv (Broadcast now msg h)"
  by (auto simp: hub_inv_def Broadcast_def try_send_def)

lemma run_register_ok: "hub_inv h \<Longrightarrow> \<exists>h'. run_register h = Some h' \<and> hub_inv h'"
  by (auto simp: run_register_def hub_inv_def split: list.split)

lemma run_unregister_ok: "hub_inv h \<Longrightarrow> \<exists>h'. run_unregister h = Some h' \<and> hub_inv h'"
  by (auto simp: run_unregister_def hub_inv_def close_send_def Let_def split: list.split)

text \<open>The result of a broadcast, whatever the order in which the clients are visited.\<close>

definition after_broadcast :: "Message \<Rightarrow> Hub \<Rightarrow> Hub" where
  "after_broadcast msg h = h\<lparr>h_broadcast := tl (h_broadcast h),
     h_obj := (\<lambda>c. if c \<in> h_clients h then delivered msg (h_obj h c) else h_obj h c),
     h_clients := {c \<in> h_clients h. \<not> dropped msg (h_obj h c)}\<rparr>"

lemma run_broadcast_eq:
  assumes "hub_inv h" "enumerates keys h" "h_broadcast h = msg # rest"
  shows "run_broadcast keys h = Some (after_broadcast msg h)"
proof -
  have "fan_out_all msg keys (h\<lparr>h_broadcast := rest\<rparr>) = Some (h\<lparr>h_broadcast := rest,
     h_obj := (\<lambda>c. if c \<in> set keys then delivered msg (h_obj h c) else h_obj h c),
     h_clients := h_clients h - {c \<in> set keys. dropped msg (h_obj h c)}\<rparr>)"
    using fan_out_all_open [of keys "h\<lparr>h_broadcast := rest\<rparr>" msg] assms(1,2)
    by (simp add: enumerates_def hub_inv_def cong: if_cong)
  moreover have "h_clients h - {c \<in> set keys. dropped msg (h_obj h c)} = {c \<in> h_clients h. \<not> dropped msg (h_obj h c)}"
    using assms(2) by (auto simp: enumerates_def)
  ultimately show ?thesis
    using assms(2,3) by (simp add: run_broadcast_def after_broadcast_def enumerates_def)
qed

lemma hub_inv_after_broadcast: "hub_inv h \<Longrightarrow> hub_inv (after_broadcast msg h)"
  by (auto simp: hub_inv_def after_broadcast_def delivered_length delivered_closed)

lemma run_broadcast_ok:
  assumes "hub_inv h" "enumerates keys h"
  shows "\<exists>h'. run_broadcast keys h = Some h' \<and> hub_inv h'"
proof (cases "h_broadcast h")
  case Nil
  then show ?thesis using assms by (simp add: run_broadcast_def)
next
  case (Cons msg rest)
  then show ?thesis using run_broadcast_eq [OF assms Cons] hub_inv_after_broadcast [OF assms(1)] by simp
qed

lemma hub_inv_NewHub: "hub_inv (NewHub objs)"
  by (simp add: hub_inv_def NewHub_def)

lemma hub_inv_step:
  assumes "hub_step h h'" "hub_inv h"
  shows "hub_inv h'"
  using assms
proof (cases rule: hub_step.cases)
  case loop_register
  then show ?thesis using run_register_ok [OF assms(2)] by simp
next
  case loop_unregister
  then show ?thesis using run_unregister_ok [OF assms(2)] by simp
next
  case (loop_broadcast keys)
  then show ?thesis using run_broadcast_ok [OF assms(2), of keys] by simp
qed (auto intro: hub_inv_ServeWS hub_inv_read hub_inv_write hub_inv_publish)

lemma hub_reachable_inv: "hub_reachable h \<Longrightarrow> hub_inv h"
  by (induction rule: hub_reachable.induct) (auto intro: hub_inv_NewHub hub_inv_step)

section \<open>Properties\<close>

text \<open>In every reachable state each iteration of the hub's loop completes: no case of its select sends on
  a closed channel or closes one twice, whatever the interleaving with connections, frames and
  published messages; and all buffers are within their capacity.\<close>

lemma hub_loop_never_panics:
  assumes "hub_reachable h" "enumerates keys h"
  shows "run_register h \<noteq> None \<and> run_unregister h \<noteq> None \<and> run_broadcast keys h \<noteq> None \<and>
    length (h_broadcast h) \<le> broadcast_cap \<and> (c < h_next h \<longrightarrow> length (c_send (h_obj h c)) \<le> send_cap)"
proof -
  have inv: "hub_inv h" using assms(1) by (rule hub_reachable_inv)
  then show ?thesis
    using run_register_ok [OF inv] run_unregister_ok [OF inv] run_broadcast_ok [OF inv assms(2)]
    by (auto simp: hub_inv_def)
qed

definition ex_client :: WSClient where
  "ex_client = \<lparr>c_send = [], c_closed = True, c_subs = {}, c_clientID = []\<rparr>"

definition ex_hub :: Hub where
  "ex_hub = Broadcast 5 (message MsgOrderUpdate ''orders:C1'' (PText ''x''))
     (the (run_register (the (ServeWS ''C1'' (NewHub (\<lambda>_. ex_client))))))"

lemma ex_hub_reachable: "hub_reachable ex_hub"
  unfolding ex_hub_def
proof (intro hub_reachable.step [OF _ hub_step.publish])
  have "hub_reachable (the (ServeWS ''C1'' (NewHub (\<lambda>_. ex_client))))"
    by (rule hub_reachable.step [OF hub_reachable.init [of "\<lambda>_. ex_client"] hub_step.serve [of "''C1''"]])
      (simp add: ServeWS_def Let_def send_to_def)
  then show "hub_reachable (the (run_register (the (ServeWS ''C1'' (NewHub (\<lambda>_. ex_client))))))"
    by (rule hub_reachable.step [OF _ hub_step.loop_register]) (simp add: run_register_def split: list.split)
qed

lemma ex_hub_clients: "h_clients ex_hub = {0}"
  by (simp add: ex_hub_def Broadcast_def ServeWS_def NewHub_def Let_def send_to_def run_register_def)

lemma hub_loop_never_panics_witness: "run_broadcast [0] ex_hub \<noteq> None"
  using hub_loop_never_panics [OF ex_hub_reachable, of "[0]"] ex_hub_clients by (simp add: enumerates_def)

text \<open>C38: A broadcast reaches exactly the connected clients that subscribed to its topic, each once and at the
  end of its queue, in whatever order the client map is visited; subscribers whose buffer is full
  are disconnected, and nobody else is affected.\<close>

theorem broadcast_reaches_subscribers:
  assumes "hub_reachable h" "enumerates keys h" "h_broadcast h = msg # rest"
  shows "\<exists>h'. run_broadcast keys h = Some h' \<and>
    (\<forall>c. c_send (h_obj h' c) =
       (if c \<in> h_clients h \<and> isSubscribed (m_Topic msg) (h_obj h c) \<and> length (c_send (h_obj h c)) < send_cap
        then c_send (h_obj h c) @ [msg] else c_send (h_obj h c))) \<and>
    h_clients h' = {c \<in> h_clients h. isSubscribed (m_Topic msg) (h_obj h c) \<longrightarrow> length (c_send (h_obj h c)) < send_cap}"
  using run_broadcast_eq [OF hub_reachable_inv [OF assms(1)] assms(2,3)]
  by (auto simp: after_broadcast_def delivered_def dropped_def not_less)

theorem broadcast_reaches_subscribers_witness:
  "map m_Type (c_send (h_obj (the (run_broadcast [0] ex_hub)) 0)) = [MsgSubscribed, MsgOrderUpdate]"
proof -
  have msg: "h_broadcast ex_hub = [(message MsgOrderUpdate ''orders:C1'' (PText ''x''))\<lparr>m_Timestamp := 5\<rparr>]"
    by (simp add: ex_hub_def Broadcast_def ServeWS_def NewHub_def Let_def send_to_def run_register_def try_send_def broadcast_cap_def)
  have client: "isSubscribed ''orders:C1'' (h_obj ex_hub 0)" "map m_Type (c_send (h_obj ex_hub 0)) = [MsgSubscribed]"
    "length (c_send (h_obj ex_hub 0)) < send_cap"
    by (simp_all add: ex_hub_def Broadcast_def ServeWS_def NewHub_def Let_def send_to_def run_register_def
        subscribe_def isSubscribed_def message_def send_cap_def)
  show ?thesis
    using broadcast_reaches_subscribers [OF ex_hub_reachable _ msg, of "[0]"] client ex_hub_clients
    by (auto simp: enumerates_def message_def)
qed

section \<open>Behaviours outside the intended contract\<close>

text \<open>
  A client the hub has dropped still has its read pump: its next frame that needs an answer sends
  on the closed channel, which panics.
\<close>

lemma dropped_client_ping_panics:
  assumes "dropped msg (h_obj h c)" "\<not> c_closed (h_obj h c)"
  shows "\<exists>h'. fan_out msg c h = Some h' \<and> read_step (Control ''ping'' topic) c h' = None"
  using assms unfolding fan_out_open [OF assms(2)]
  by (auto simp: read_step_def send_to_def delivered_def dropped_def Let_def)

text \<open>
  Registration and unregistration are separate channels: when the loop serves the second first,
  the connection that ended stays registered.
\<close>

lemma unregistered_first_stays:
  assumes "h_register h = [c]" "h_unregister h = [c]" "c \<notin> h_clients h"
  shows "\<exists>h1 h2. run_unregister h = Some h1 \<and> run_register h1 = Some h2 \<and>
    c \<in> h_clients h2 \<and> h_unregister h2 = []"
  using assms by (simp add: run_unregister_def run_register_def Let_def)

end
