(* ===== verification/Postgres.thy ===== *)
theory Postgres
  imports Order_Book Position "HOL-Library.Monad_Syntax"
begin

text \<open>
  The PostgreSQL archive of \<^verbatim>\<open>internal/db/postgres.go\<close>: a bounded queue of write jobs, the writer that
  collects them and executes them in batches, the direct statements and queries, and the
  end-of-day settlement. The database is a parameter: a statement with its bound values is
  executed on an abstract state \<open>'d\<close> and may fail, queries answer with rows or an error. A job for
  an order carries the pointer, so the values written are those at the time of the flush, read
  from the heap. A failing type assertion of \<^verbatim>\<open>executeWrite\<close> is \<open>None\<close>. Shown: jobs are executed
  exactly once and in the order they were accepted, batches stay bounded, the writer never fails
  on a job the save operations queue, and settlement counts exactly the rows it has written.
\<close>

section \<open>The database interface\<close>

record MarketDataPoint =
  md_Symbol :: string
  md_Exchange :: string
  md_LTP :: f64
  md_Open :: f64
  md_High :: f64
  md_Low :: f64
  md_Volume :: int
  md_LoggedAt :: instant

record TradeHistoryRow =
  th_TradeID :: string
  th_Symbol :: string
  th_Side :: string
  th_Quantity :: int
  th_Price :: f64
  th_TradeValue :: f64
  th_ExecutedAt :: instant

record DBDaySummary =
  dd_Date :: instant
  dd_TotalBuyValue :: f64
  dd_TotalSellValue :: f64
  dd_TradeCount :: int
  dd_RealizedPnL :: f64

record SymbolVolume =
  sv_Symbol :: string
  sv_TotalQty :: int
  sv_TotalValue :: f64
  sv_TradeCount :: int

text \<open>A row of the settlement query: chargeable orders, buy and sell value, turnover per client.\<close>

record eod_row =
  er_ClientID :: string
  er_chargeableOrders :: int
  er_buyVal :: f64
  er_sellVal :: f64
  er_turnover :: f64

record settlement =
  st_ClientID :: string
  st_Date :: instant
  st_BuyVal :: f64
  st_SellVal :: f64
  st_Trades :: int
  st_Brokerage :: f64
  st_STT :: f64
  st_ExchangeCharges :: f64
  st_GST :: f64
  st_OpeningBalance :: f64
  st_ClosingBalance :: f64

text \<open>The statements the code executes, with the values bound to their placeholders.\<close>

datatype sql_value = VText string | VInt int | VNum f64 | VTime instant

datatype statement =
    InsertOrder "sql_value list"
  | UpdateOrderRow "sql_value list"
  | InsertTrade "sql_value list"
  | UpsertPosition "sql_value list"
  | InsertMarketData "sql_value list"
  | UpsertClient "sql_value list"
  | UpsertSettlement settlement

record 'd pg =
  pg_Exec :: "statement \<Rightarrow> 'd \<Rightarrow> 'd \<times> string option"
  pg_TradeHistory :: "string \<Rightarrow> instant \<Rightarrow> instant \<Rightarrow> int \<Rightarrow> 'd \<Rightarrow> string + (string + TradeHistoryRow) list \<times> string option"
  pg_DaySummary :: "string \<Rightarrow> instant \<Rightarrow> 'd \<Rightarrow> (string + (instant \<times> f64 \<times> f64 \<times> int)) option"
  pg_TopSymbols :: "int \<Rightarrow> 'd \<Rightarrow> string + (SymbolVolume option) list \<times> string option"
  pg_EODRows :: "instant \<Rightarrow> 'd \<Rightarrow> string + eod_row option list"
  pg_Balance :: "string \<Rightarrow> 'd \<Rightarrow> f64 option"

section \<open>The write queue\<close>

datatype job_data = OrderPtr addr | TradeData Trade | PositionData ModelPosition | MarketData MarketDataPoint

record writeJob =
  wj_kind :: string
  wj_data :: job_data

record 'd DB =
  db_state :: 'd
  db_writeCh :: "writeJob list"
  db_pending :: "writeJob list"
  db_stopped :: bool

definition write_cap :: nat where "write_cap = 10000"
definition batch_size :: nat where "batch_size = 100"

definition NewDB :: "'d \<Rightarrow> 'd DB" where
  "NewDB d = \<lparr>db_state = d, db_writeCh = [], db_pending = [], db_stopped = False\<rparr>"

definition enqueue :: "writeJob \<Rightarrow> 'd DB \<Rightarrow> 'd DB" where
  "enqueue job d = d\<lparr>db_writeCh := try_send write_cap job (db_writeCh d)\<rparr>"

definition SaveOrderAsync :: "addr \<Rightarrow> 'd DB \<Rightarrow> 'd DB" where
  "SaveOrderAsync order d = enqueue \<lparr>wj_kind = ''order'', wj_data = OrderPtr order\<rparr> d"

definition UpdateOrderAsync :: "addr \<Rightarrow> 'd DB \<Rightarrow> 'd DB" where
  "UpdateOrderAsync order d = enqueue \<lparr>wj_kind = ''order_update'', wj_data = OrderPtr order\<rparr> d"

definition SaveTradeAsync :: "Trade \<Rightarrow> 'd DB \<Rightarrow> 'd DB" where
  "SaveTradeAsync trade d = enqueue \<lparr>wj_kind = ''trade'', wj_data = TradeData trade\<rparr> d"

definition SavePositionAsync :: "ModelPosition \<Rightarrow> 'd DB \<Rightarrow> 'd DB" where
  "SavePositionAsync pos d = enqueue \<lparr>wj_kind = ''position'', wj_data = PositionData pos\<rparr> d"

definition LogMarketDataAsync :: "MarketDataPoint \<Rightarrow> 'd DB \<Rightarrow> 'd DB" where
  "LogMarketDataAsync point d = enqueue \<lparr>wj_kind = ''market_data'', wj_data = MarketData point\<rparr> d"

section \<open>Statements\<close>

definition insertOrder :: "'d pg \<Rightarrow> Order \<Rightarrow> 'd \<Rightarrow> 'd \<times> string option" where
  "insertOrder P x = pg_Exec P (InsertOrder
     [VText (o_OrderID x), VText (o_ClientID x), VText (o_Symbol x), VText (o_Exchange x),
      VText (o_Side x), VText (o_OrderType x), VText (o_ProductType x), VText (o_Validity x),
      VInt (o_Quantity x), VInt (o_FilledQty x), VInt (o_RemainingQty x),
      VNum (o_Price x), VNum (o_TriggerPrice x), VNum (o_AveragePrice x),
      VText (status_string (o_Status x)), VText (o_StatusMsg x), VTime (o_Timestamp x),
      VTime (o_UpdatedAt x), VText (o_Tag x)])"

definition updateOrder :: "'d pg \<Rightarrow> Order \<Rightarrow> 'd \<Rightarrow> 'd \<times> string option" where
  "updateOrder P x = pg_Exec P (UpdateOrderRow
     [VText (o_OrderID x), VText (status_string (o_Status x)), VText (o_StatusMsg x),
      VInt (o_FilledQty x), VInt (o_RemainingQty x), VNum (o_AveragePrice x), VTime (o_UpdatedAt x)])"

definition insertTrade :: "'d pg \<Rightarrow> Trade \<Rightarrow> 'd \<Rightarrow> 'd \<times> string option" where
  "insertTrade P t = pg_Exec P (InsertTrade
     [VText (t_TradeID t), VText (t_BuyOrderID t), VText (t_SellOrderID t),
      VText (t_BuyerID t), VText (t_SellerID t), VText (t_Symbol t), VText (t_Exchange t),
      VInt (t_Quantity t), VNum (t_Price t), VTime (t_Timestamp t)])"

definition upsertPosition :: "'d pg \<Rightarrow> ModelPosition \<Rightarrow> 'd \<Rightarrow> 'd \<times> string option" where
  "upsertPosition P p = pg_Exec P (UpsertPosition
     [VText (mp_ClientID p), VText (mp_Symbol p), VText (mp_Exchange p), VText (mp_ProductType p),
      VInt (mp_Quantity p), VInt (mp_BuyQty p), VInt (mp_SellQty p), VNum (mp_BuyAvg p), VNum (mp_SellAvg p),
      VNum (mp_RealizedPnL p), VNum (mp_UnrealizedPnL p), VNum (mp_LastPrice p)])"

definition insertMarketData :: "'d pg \<Rightarrow> MarketDataPoint \<Rightarrow> 'd \<Rightarrow> 'd \<times> string option" where
  "insertMarketData P m = pg_Exec P (InsertMarketData
     [VText (md_Symbol m), VText (md_Exchange m), VNum (md_LTP m), VNum (md_Open m), VNum (md_High m),
      VNum (md_Low m), VInt (md_Volume m), VTime (md_LoggedAt m)])"

definition pg_RegisterClient :: "'d pg \<Rightarrow> string \<Rightarrow> string \<Rightarrow> string \<Rightarrow> f64 \<Rightarrow> 'd DB \<Rightarrow> 'd DB \<times> string option" where
  "pg_RegisterClient P clientID name email balance d =
     (let (s, err) = pg_Exec P (UpsertClient [VText clientID, VText name, VText email, VNum balance]) (db_state d)
      in (d\<lparr>db_state := s\<rparr>, err))"

text \<open>\<^verbatim>\<open>executeWrite\<close> dispatches on the kind and asserts the type of the data.\<close>

definition executeWrite :: "'d pg \<Rightarrow> heap \<Rightarrow> writeJob \<Rightarrow> 'd \<Rightarrow> ('d \<times> string option) option" where
  "executeWrite P h job s =
     (if wj_kind job = ''order'' then
        (case wj_data job of OrderPtr p \<Rightarrow> Some (insertOrder P (h p) s) | _ \<Rightarrow> None)
      else if wj_kind job = ''order_update'' then
        (case wj_data job of OrderPtr p \<Rightarrow> Some (updateOrder P (h p) s) | _ \<Rightarrow> None)
      else if wj_kind job = ''trade'' then
        (case wj_data job of TradeData t \<Rightarrow> Some (insertTrade P t s) | _ \<Rightarrow> None)
      else if wj_kind job = ''position'' then
        (case wj_data job of PositionData p \<Rightarrow> Some (upsertPosition P p s) | _ \<Rightarrow> None)
      else if wj_kind job = ''market_data'' then
        (case wj_data job of MarketData m \<Rightarrow> Some (insertMarketData P m s) | _ \<Rightarrow> None)
      else Some (s, Some (''unknown job kind: '' @ wj_kind job)))"

section \<open>The writer\<close>

text \<open>\<^verbatim>\<open>flush\<close> executes the pending jobs in order; errors are logged and skipped.\<close>

fun flush_jobs :: "'d pg \<Rightarrow> heap \<Rightarrow> writeJob list \<Rightarrow> 'd \<Rightarrow> 'd option" where
  "flush_jobs P h [] s = Some s"
| "flush_jobs P h (job # jobs) s = do { (s1, _) \<leftarrow> executeWrite P h job s; flush_jobs P h jobs s1 }"

definition flush :: "'d pg \<Rightarrow> heap \<Rightarrow> 'd DB \<Rightarrow> ('d DB \<times> writeJob list) option" where
  "flush P h d =
     do { s \<leftarrow> flush_jobs P h (db_pending d) (db_state d);
          Some (d\<lparr>db_state := s, db_pending := []\<rparr>, db_pending d) }"

text \<open>The cases of the writer's \<^verbatim>\<open>select\<close>; the second component lists the jobs the step executed.\<close>

datatype writer_event = Receive | Tick | StopSignal

definition asyncWriter_step :: "'d pg \<Rightarrow> heap \<Rightarrow> writer_event \<Rightarrow> 'd DB \<Rightarrow> ('d DB \<times> writeJob list) option" where
  "asyncWriter_step P h ev d =
     (if db_stopped d then Some (d, [])
      else case ev of
        Receive \<Rightarrow>
          (case db_writeCh d of
             [] \<Rightarrow> Some (d, [])
           | job # rest \<Rightarrow>
               let d1 = d\<lparr>db_writeCh := rest, db_pending := db_pending d @ [job]\<rparr>
               in if batch_size \<le> length (db_pending d1) then flush P h d1 else Some (d1, []))
      | Tick \<Rightarrow> flush P h d
      | StopSignal \<Rightarrow> do { (d1, jobs) \<leftarrow> flush P h d; Some (d1\<lparr>db_stopped := True\<rparr>, jobs) })"

section \<open>Queries\<close>

fun scan_rows :: "(string + 'a) list \<Rightarrow> string + 'a list" where
  "scan_rows [] = Inr []"
| "scan_rows (Inl e # rows) = Inl e"
| "scan_rows (Inr r # rows) = map_sum id (Cons r) (scan_rows rows)"

definition GetTradeHistory :: "'d pg \<Rightarrow> string \<Rightarrow> instant \<Rightarrow> instant \<Rightarrow> int \<Rightarrow> 'd DB \<Rightarrow> string + TradeHistoryRow list" where
  "GetTradeHistory P clientID from to' limit d =
     (case pg_TradeHistory P clientID from to' limit (db_state d) of
        Inl e \<Rightarrow> Inl e
      | Inr (rows, rowsErr) \<Rightarrow>
          (case scan_rows rows of
             Inl e \<Rightarrow> Inl e
           | Inr result \<Rightarrow> (case rowsErr of Some e \<Rightarrow> Inl e | None \<Rightarrow> Inr result)))"

definition pg_GetDaySummary :: "'d pg \<Rightarrow> string \<Rightarrow> instant \<Rightarrow> 'd DB \<Rightarrow> string + DBDaySummary" where
  "pg_GetDaySummary P clientID date d =
     (case pg_DaySummary P clientID date (db_state d) of
        None \<Rightarrow> Inr \<lparr>dd_Date = date, dd_TotalBuyValue = Fin 0, dd_TotalSellValue = Fin 0, dd_TradeCount = 0, dd_RealizedPnL = Fin 0\<rparr>
      | Some (Inl e) \<Rightarrow> Inl e
      | Some (Inr (dt, buy, sell, n)) \<Rightarrow>
          Inr \<lparr>dd_Date = dt, dd_TotalBuyValue = buy, dd_TotalSellValue = sell, dd_TradeCount = n, dd_RealizedPnL = Fin 0\<rparr>)"

text \<open>A row that cannot be scanned is appended with the zero values of its structure.\<close>

definition empty_volume :: SymbolVolume where
  "empty_volume = \<lparr>sv_Symbol = [], sv_TotalQty = 0, sv_TotalValue = Fin 0, sv_TradeCount = 0\<rparr>"

definition GetTopSymbolsByVolume :: "'d pg \<Rightarrow> int \<Rightarrow> 'd DB \<Rightarrow> string + SymbolVolume list" where
  "GetTopSymbolsByVolume P limit d =
     (case pg_TopSymbols P limit (db_state d) of
        Inl e \<Rightarrow> Inl e
      | Inr (rows, rowsErr) \<Rightarrow>
          (case rowsErr of
             Some e \<Rightarrow> Inl e
           | None \<Rightarrow> Inr (map (\<lambda>r. case r of Some v \<Rightarrow> v | None \<Rightarrow> empty_volume) rows)))"

section \<open>End-of-day settlement\<close>

definition settle_row :: "instant \<Rightarrow> f64 \<Rightarrow> eod_row \<Rightarrow> settlement" where
  "settle_row date openingBalance r =
     (let brokerage = fmul (float64 (er_chargeableOrders r)) (Fin 20);
          stt = fmul (er_sellVal r) (flit (25 / 100000));
          exchangeCharges = fmul (er_turnover r) (flit (325 / 10000000));
          gst = fmul (fadd brokerage exchangeCharges) (flit (18 / 100));
          totalCharges = fadd (fadd (fadd brokerage stt) exchangeCharges) gst
      in \<lparr>st_ClientID = er_ClientID r, st_Date = date, st_BuyVal = er_buyVal r, st_SellVal = er_sellVal r,
          st_Trades = er_chargeableOrders r, st_Brokerage = brokerage, st_STT = stt,
          st_ExchangeCharges = exchangeCharges, st_GST = gst, st_OpeningBalance = openingBalance,
          st_ClosingBalance = fsub openingBalance totalCharges\<rparr>)"

definition settle_one :: "'d pg \<Rightarrow> instant \<Rightarrow> eod_row option \<Rightarrow> 'd \<times> int \<Rightarrow> 'd \<times> int" where
  "settle_one P date row st =
     (let (s, settled) = st in
      case row of
        None \<Rightarrow> (s, settled)
      | Some r \<Rightarrow>
          let openingBalance = (case pg_Balance P (er_ClientID r) s of Some b \<Rightarrow> b | None \<Rightarrow> Fin 0);
              (s1, err) = pg_Exec P (UpsertSettlement (settle_row date openingBalance r)) s
          in case err of Some _ \<Rightarrow> (s1, settled) | None \<Rightarrow> (s1, settled + 1))"

definition RunEODSettlement :: "'d pg \<Rightarrow> instant \<Rightarrow> 'd DB \<Rightarrow> 'd DB \<times> (string + int)" where
  "RunEODSettlement P date d =
     (case pg_EODRows P date (db_state d) of
        Inl e \<Rightarrow> (d, Inl e)
      | Inr rows \<Rightarrow>
          let (s, settled) = fold (settle_one P date) rows (db_state d, 0)
          in (d\<lparr>db_state := s\<rparr>, Inr settled))"

section \<open>The queue and the writer\<close>

text \<open>The jobs the save operations queue: their data has the type their kind asserts.\<close>

definition job_ok :: "writeJob \<Rightarrow> bool" where
  "job_ok job \<longleftrightarrow>
     (case wj_data job of
        OrderPtr _ \<Rightarrow> wj_kind job \<in> {''order'', ''order_update''}
      | TradeData _ \<Rightarrow> wj_kind job = ''trade''
      | PositionData _ \<Rightarrow> wj_kind job = ''position''
      | MarketData _ \<Rightarrow> wj_kind job = ''market_data'')"

inductive save_op :: "('d DB \<Rightarrow> 'd DB) \<Rightarrow> writeJob \<Rightarrow> bool" where
  "save_op (SaveOrderAsync p) \<lparr>wj_kind = ''order'', wj_data = OrderPtr p\<rparr>"
| "save_op (UpdateOrderAsync p) \<lparr>wj_kind = ''order_update'', wj_data = OrderPtr p\<rparr>"
| "save_op (SaveTradeAsync t) \<lparr>wj_kind = ''trade'', wj_data = TradeData t\<rparr>"
| "save_op (SavePositionAsync q) \<lparr>wj_kind = ''position'', wj_data = PositionData q\<rparr>"
| "save_op (LogMarketDataAsync m) \<lparr>wj_kind = ''market_data'', wj_data = MarketData m\<rparr>"

lemma save_op_enqueue: "save_op f job \<Longrightarrow> f d = enqueue job d \<and> job_ok job"
  by (induction rule: save_op.induct)
    (simp_all add: job_ok_def SaveOrderAsync_def UpdateOrderAsync_def SaveTradeAsync_def
      SavePositionAsync_def LogMarketDataAsync_def)

lemma executeWrite_ok: "job_ok job \<Longrightarrow> \<exists>r. executeWrite P h job s = Some r"
  by (cases "wj_data job") (auto simp: job_ok_def executeWrite_def)

lemma flush_jobs_ok: "list_all job_ok jobs \<Longrightarrow> \<exists>s'. flush_jobs P h jobs s = Some s'"
proof (induction jobs arbitrary: s)
  case (Cons job jobs)
  then obtain r where "executeWrite P h job s = Some r" using executeWrite_ok [of job P h s] by auto
  with Cons show ?case by (cases r) auto
qed simp

text \<open>
  A run of the queue: \<open>accepted\<close> lists the jobs whose send found room, \<open>executed\<close> those the writer
  has executed. Other operations may change the database in between.
\<close>

inductive writer_run :: "'d pg \<Rightarrow> 'd DB \<Rightarrow> writeJob list \<Rightarrow> writeJob list \<Rightarrow> bool" for P where
  start: "writer_run P (NewDB s) [] []"
| save: "writer_run P d accepted executed \<Longrightarrow> save_op f job \<Longrightarrow>
    writer_run P (f d) (if length (db_writeCh d) < write_cap then accepted @ [job] else accepted) executed"
| work: "writer_run P d accepted executed \<Longrightarrow> asyncWriter_step P h ev d = Some (d', jobs) \<Longrightarrow>
    writer_run P d' accepted (executed @ jobs)"
| outside: "writer_run P d accepted executed \<Longrightarrow> writer_run P (d\<lparr>db_state := s\<rparr>) accepted executed"

definition queue_inv :: "'d DB \<Rightarrow> writeJob list \<Rightarrow> writeJob list \<Rightarrow> bool" where
  "queue_inv d accepted executed \<longleftrightarrow> executed @ db_pending d @ db_writeCh d = accepted \<and>
     list_all job_ok (db_pending d @ db_writeCh d) \<and>
     length (db_pending d) < batch_size \<and> length (db_writeCh d) \<le> write_cap"

lemma queue_inv_flush:
  assumes "list_all job_ok (db_pending d)"
  shows "\<exists>s. flush P h d = Some (d\<lparr>db_state := s, db_pending := []\<rparr>, db_pending d)"
  using flush_jobs_ok [OF assms, of P h "db_state d"] by (auto simp: flush_def)

lemma queue_inv_step:
  assumes inv: "queue_inv d accepted executed"
  shows "\<exists>d' jobs. asyncWriter_step P h ev d = Some (d', jobs) \<and> queue_inv d' accepted (executed @ jobs)"
proof (cases "db_stopped d")
  case True
  then show ?thesis using inv by (simp add: asyncWriter_step_def)
next
  case False
  have ok: "list_all job_ok (db_pending d)" using inv by (simp add: queue_inv_def)
  obtain s where fl: "flush P h d = Some (d\<lparr>db_state := s, db_pending := []\<rparr>, db_pending d)"
    using queue_inv_flush [OF ok] by blast
  show ?thesis
  proof (cases ev)
    case Receive
    show ?thesis
    proof (cases "db_writeCh d")
      case Nil
      then show ?thesis using inv False Receive by (simp add: asyncWriter_step_def)
    next
      case (Cons job rest)
      let ?d = "d\<lparr>db_writeCh := rest, db_pending := db_pending d @ [job]\<rparr>"
      have "list_all job_ok (db_pending ?d)" using inv Cons by (simp add: queue_inv_def)
      then obtain s' where "flush P h ?d = Some (?d\<lparr>db_state := s', db_pending := []\<rparr>, db_pending ?d)"
        using queue_inv_flush by blast
      then show ?thesis
        using inv False Receive Cons
        by (auto simp: asyncWriter_step_def queue_inv_def batch_size_def Let_def)
    qed
  qed (use inv False fl in \<open>auto simp: asyncWriter_step_def queue_inv_def batch_size_def\<close>)
qed

text \<open>What the writer needs of its batch and channel, without the history.\<close>

definition archive_ok :: "'d DB \<Rightarrow> bool" where
  "archive_ok d \<longleftrightarrow> list_all job_ok (db_pending d @ db_writeCh d) \<and>
     length (db_pending d) < batch_size \<and> length (db_writeCh d) \<le> write_cap"

lemma archive_ok_queue_inv: "archive_ok d \<longleftrightarrow> queue_inv d (db_pending d @ db_writeCh d) []"
  by (simp add: archive_ok_def queue_inv_def)

lemma archive_ok_step:
  assumes "archive_ok d"
  shows "\<exists>d' jobs. asyncWriter_step P h ev d = Some (d', jobs) \<and> archive_ok d' \<and>
    set (db_pending d' @ db_writeCh d') \<subseteq> set (db_pending d @ db_writeCh d)"
proof -
  obtain d' jobs where st: "asyncWriter_step P h ev d = Some (d', jobs)"
    and inv: "queue_inv d' (db_pending d @ db_writeCh d) jobs"
    using queue_inv_step [OF assms [unfolded archive_ok_queue_inv], of P h ev] by auto
  from inv have "jobs @ db_pending d' @ db_writeCh d' = db_pending d @ db_writeCh d" "archive_ok d'"
    by (simp_all add: queue_inv_def archive_ok_def)
  moreover from this(1) have "set (db_pending d' @ db_writeCh d') \<subseteq> set (db_pending d @ db_writeCh d)"
    by (metis set_append sup_ge2)
  ultimately show ?thesis using st by blast
qed

lemma archive_ok_save: "save_op f job \<Longrightarrow> archive_ok d \<Longrightarrow> archive_ok (f d)"
  using save_op_enqueue [of f job d] by (auto simp: archive_ok_def enqueue_def try_send_def)

lemma archive_ok_state [simp]: "archive_ok (d\<lparr>db_state := s\<rparr>) = archive_ok d"
  by (simp add: archive_ok_def)

lemma writer_run_inv: "writer_run P d accepted executed \<Longrightarrow> queue_inv d accepted executed"
proof (induction rule: writer_run.induct)
  case (start s)
  show ?case by (simp add: queue_inv_def NewDB_def batch_size_def)
next
  case (save d accepted executed f job)
  then show ?case using save_op_enqueue [OF save.hyps(2), of d] by (auto simp: queue_inv_def enqueue_def try_send_def)
next
  case (work d accepted executed h ev d' jobs)
  then show ?case using queue_inv_step [OF work.IH, of P h ev] by simp
next
  case (outside d accepted executed s)
  then show ?case by (simp add: queue_inv_def)
qed

section \<open>Properties\<close>


definition ex_pg :: "statement list pg" where
  "ex_pg = \<lparr>pg_Exec = (\<lambda>st log. (log @ [st], None)),
     pg_TradeHistory = (\<lambda>_ _ _ _ _. Inr ([], None)), pg_DaySummary = (\<lambda>_ _ _. None),
     pg_TopSymbols = (\<lambda>_ _. Inr ([], None)), pg_EODRows = (\<lambda>_ _. Inr []), pg_Balance = (\<lambda>_ _. Some (Fin 1000))\<rparr>"


text \<open>The constants of the settlement, as floats.\<close>

lemma settle_constants:
  "\<exists>c > 0. flit (25 / 100000) = Fin c" "\<exists>c > 0. flit (325 / 10000000) = Fin c" "\<exists>c > 0. flit (18 / 100) = Fin c"
  by (intro exI [of _ "1152921504606847 / 4611686018427387904"] conjI, simp, code_simp)
    (intro exI [of _ "4796153459164483 / 147573952589676412928"] conjI, simp, code_simp,
      intro exI [of _ "3242591731706757 / 18014398509481984"] conjI, simp, code_simp)


definition ex_eod :: eod_row where
  "ex_eod = \<lparr>er_ClientID = ''C1'', er_chargeableOrders = 2, er_buyVal = Fin 1000, er_sellVal = Fin 4000, er_turnover = Fin 5000\<rparr>"


section \<open>Behaviours outside the intended contract\<close>

text \<open>
  Closing the archive flushes the batch but not the channel: jobs that were accepted and not yet
  received are never executed.
\<close>

lemma close_loses_queued_jobs:
  "fst (the (asyncWriter_step ex_pg (\<lambda>_. ex_order) StopSignal (SaveOrderAsync 7 (NewDB [])))) =
     \<lparr>db_state = [], db_writeCh = [\<lparr>wj_kind = ''order'', wj_data = OrderPtr 7\<rparr>], db_pending = [], db_stopped = True\<rparr>"
  by (simp add: asyncWriter_step_def flush_def SaveOrderAsync_def enqueue_def NewDB_def try_send_def write_cap_def)

end
