(* ===== verification/OMS.thy ===== *)
theory OMS
  imports Engine_System Risk Position Gtt_Manager Redis_Store WS_Hub Postgres
begin

text \<open>
  The service of \<^verbatim>\<open>internal/api/oms.go\<close>: order entry and cancellation over the risk checks, the Redis
  store and the order books, recovery after a restart, and the consumers that carry trades to
  positions, archive and clients. The state is one record with a field for each component; order
  objects of all books live in one heap. The field \<^verbatim>\<open>marketFeed\<close> is kept beside the record, since
  its subscriber is a function on the record. An operation reads the clock once. Each goroutine of
  the code is a function for one iteration of its loop. What is outside (Redis, PostgreSQL, the
  texts of their errors) is the record \<open>env\<close>.
\<close>

section \<open>State\<close>

record ('r, 'd) env =
  en_redis :: "'r redis"
  en_pg :: "'d pg"
  en_text :: "store_error \<Rightarrow> string"

record ('r, 'd) OMS =
  om_redis :: 'r
  om_postgres :: "'d DB option"
  om_wsHub :: Hub
  om_riskEngine :: RiskEngine
  om_gttManager :: GManager
  om_posMgr :: PManager
  om_orderBooks :: "string \<rightharpoonup> OrderBook"
  om_engines :: "string \<rightharpoonup> MEngine"
  om_tradeCh :: "Trade list"
  om_heap :: heap
  om_next :: addr

text \<open>The context a price handler runs in: the clock and the order in which it visits positions.\<close>

type_synonym handler_ctx = "instant \<times> string list"
type_synonym ('r, 'd) feed = "(handler_ctx \<times> ('r, 'd) OMS) Feed"

datatype oms_error =
    NoMarketData string
  | RejectedByRisk risk_error
  | RejectedByStore store_error
  | PersistFailed store_error
  | SymbolNotSupported string
  | AddToBookFailed book_error
  | StoreFailed store_error
  | SymbolNotFound string
  | BookFailed book_error
  | RecoveryFailed store_error

fun oms_error_string :: "(store_error \<Rightarrow> string) \<Rightarrow> oms_error \<Rightarrow> string" where
  "oms_error_string txt (NoMarketData s) = ''no market data available for '' @ s"
| "oms_error_string txt (RejectedByRisk e) = ''order rejected: '' @ risk_error_string e"
| "oms_error_string txt (RejectedByStore e) = ''order rejected: '' @ store_error_string txt e"
| "oms_error_string txt (PersistFailed e) = ''failed to persist order: '' @ store_error_string txt e"
| "oms_error_string txt (SymbolNotSupported s) = ''symbol '' @ s @ '' not supported''"
| "oms_error_string txt (AddToBookFailed e) = ''failed to add to book: '' @ book_error_string e"
| "oms_error_string txt (StoreFailed e) = store_error_string txt e"
| "oms_error_string txt (SymbolNotFound s) = ''symbol '' @ s @ '' not found''"
| "oms_error_string txt (BookFailed e) = book_error_string e"
| "oms_error_string txt (RecoveryFailed e) = ''recovery failed: '' @ store_error_string txt e"

section \<open>Start-up\<close>

text \<open>The price handler that \<^verbatim>\<open>NewOMS\<close> subscribes.\<close>

definition on_quote :: "('r, 'd) env \<Rightarrow> Quote \<Rightarrow> handler_ctx \<times> ('r, 'd) OMS \<Rightarrow> handler_ctx \<times> ('r, 'd) OMS" where
  "on_quote E q cw =
     (let ((now, keys), w) = cw;
          s1 = fst (SetLTP (en_redis E) (q_Symbol q) (q_LTP q) (om_redis w));
          s2 = fst (SetQuote (en_redis E) (q_Symbol q) q s1)
      in ((now, keys),
          w\<lparr>om_redis := s2,
            om_wsHub := BroadcastPriceTick now (q_Symbol q) (PQuote q) (om_wsHub w),
            om_posMgr := UpdateLTP now keys (q_Symbol q) (q_LTP q) (om_posMgr w)\<rparr>))"

text \<open>
  \<^verbatim>\<open>NewOMS\<close> with an open Redis connection; without PostgreSQL the service runs on. The arguments
  \<open>objs\<close> and \<open>h\<close> are the unused parts of the object stores.
\<close>

definition NewOMS :: "('r, 'd) env \<Rightarrow> bool \<Rightarrow> (addr \<Rightarrow> WSClient) \<Rightarrow> heap \<Rightarrow> 'r \<Rightarrow> 'd option \<Rightarrow> ('r, 'd) feed \<times> ('r, 'd) OMS" where
  "NewOMS E simMode objs h r pgDB =
     (Subscribe (on_quote E) (NewFeed simMode),
      \<lparr>om_redis = r, om_postgres = map_option NewDB pgDB, om_wsHub = NewHub objs,
       om_riskEngine = NewRiskEngine, om_gttManager = NewGManager, om_posMgr = NewPManager,
       om_orderBooks = Map.empty, om_engines = Map.empty, om_tradeCh = [], om_heap = h, om_next = 0\<rparr>)"

definition RegisterClient :: "('r, 'd) env \<Rightarrow> string \<Rightarrow> f64 \<Rightarrow> ('r, 'd) OMS \<Rightarrow> ('r, 'd) OMS \<times> oms_error option" where
  "RegisterClient E clientID balance w =
     (let (s1, err) = InitAccount (en_redis E) clientID balance (om_redis w); w1 = w\<lparr>om_redis := s1\<rparr> in
      case err of
        Some e \<Rightarrow> (w1, Some (StoreFailed e))
      | None \<Rightarrow>
          (w1\<lparr>om_postgres := map_option (\<lambda>d. fst (pg_RegisterClient (en_pg E) clientID clientID [] balance d)) (om_postgres w1)\<rparr>,
           None))"

definition AddSymbol :: "string \<Rightarrow> Exchange \<Rightarrow> ('r, 'd) OMS \<Rightarrow> ('r, 'd) OMS" where
  "AddSymbol symbol exchange w =
     (if om_orderBooks w symbol \<noteq> None then w
      else w\<lparr>om_orderBooks := (om_orderBooks w)(symbol \<mapsto> NewOrderBook symbol exchange),
             om_engines := (om_engines w)(symbol \<mapsto> engine_Start NewMEngine)\<rparr>)"

text \<open>One round of the feed started by \<^verbatim>\<open>StartMarketData\<close>.\<close>

definition market_round :: "(string \<Rightarrow> yahooResponse) \<Rightarrow> (string \<Rightarrow> randoms) \<Rightarrow> instant \<Rightarrow> string list \<Rightarrow> string list \<Rightarrow>
    ('r, 'd) feed \<times> ('r, 'd) OMS \<Rightarrow> ('r, 'd) feed \<times> ('r, 'd) OMS" where
  "market_round http rds now keys symbols st =
     (let (f, w) = st; (f1, (_, w1)) = poll_round http rds now symbols (f, ((now, keys), w)) in (f1, w1))"

section \<open>Orders\<close>

text \<open>Replacing one book, and a book operation with its effect on the heap.\<close>

definition put_book :: "string \<Rightarrow> heap \<times> OrderBook \<Rightarrow> ('r, 'd) OMS \<Rightarrow> ('r, 'd) OMS" where
  "put_book symbol st w = w\<lparr>om_heap := fst st, om_orderBooks := (om_orderBooks w)(symbol \<mapsto> snd st)\<rparr>"

definition put_order :: "addr \<Rightarrow> Order \<Rightarrow> ('r, 'd) OMS \<Rightarrow> ('r, 'd) OMS" where
  "put_order p x w = w\<lparr>om_heap := (om_heap w)(p := x)\<rparr>"

definition alloc_order :: "Order \<Rightarrow> ('r, 'd) OMS \<Rightarrow> ('r, 'd) OMS" where
  "alloc_order x w = w\<lparr>om_heap := (om_heap w)(om_next w := x), om_next := om_next w + 1\<rparr>"

definition GetLTP :: "('r, 'd) env \<Rightarrow> ('r, 'd) feed \<Rightarrow> string \<Rightarrow> ('r, 'd) OMS \<Rightarrow> f64" where
  "GetLTP E f symbol w =
     (let ltp = redis_GetLTP (en_redis E) symbol (om_redis w)
      in if feq ltp (Fin 0) then feed_GetLTP symbol f else ltp)"

text \<open>The margin rate: a product type that is not in the table reads as zero.\<close>

definition margin_rate :: "ProductType \<Rightarrow> f64" where
  "margin_rate product =
     (if product = CNC then flit 1 else if product = MIS then flit (1 / 5)
      else if product = NRML then flit (3 / 20) else Fin 0)"

definition order_margin :: "f64 \<Rightarrow> int \<Rightarrow> Order \<Rightarrow> f64" where
  "order_margin price qty order = fmul (fmul price (float64 qty)) (margin_rate (o_ProductType order))"

text \<open>The rejection of an order before it is booked: the object is marked and saved, a failing save is
  ignored.\<close>

definition reject_order :: "('r, 'd) env \<Rightarrow> instant \<Rightarrow> addr \<Rightarrow> string \<Rightarrow> ('r, 'd) OMS \<Rightarrow> ('r, 'd) OMS" where
  "reject_order E now p msg w =
     (let w1 = put_order p (UpdateStatus now StatusRejected msg (om_heap w p)) w
      in w1\<lparr>om_redis := fst (SaveOrder (en_redis E) (om_heap w1 p) (om_redis w1))\<rparr>)"

definition release_margin :: "('r, 'd) env \<Rightarrow> string \<Rightarrow> f64 \<Rightarrow> ('r, 'd) OMS \<Rightarrow> ('r, 'd) OMS" where
  "release_margin E clientID amount w =
     w\<lparr>om_redis := fst (redis_ReleaseMargin (en_redis E) clientID amount (om_redis w))\<rparr>"

definition placed_payload :: "Order \<Rightarrow> payload" where
  "placed_payload order = PObject
     [(''event'', JString ''order_placed''), (''order_id'', JString (o_OrderID order)),
      (''symbol'', JString (o_Symbol order)), (''side'', JString (o_Side order)),
      (''status'', JString (status_string (o_Status order))), (''quantity'', JInt (o_Quantity order)),
      (''price'', JFloat (o_Price order))]"

text \<open>The last part of \<^verbatim>\<open>PlaceOrder\<close>, once the margin is blocked: persist, book, announce.\<close>

definition book_order :: "('r, 'd) env \<Rightarrow> instant \<Rightarrow> addr \<Rightarrow> f64 \<Rightarrow> ('r, 'd) OMS \<Rightarrow> ('r, 'd) OMS \<times> oms_error option" where
  "book_order E now p marginRequired w =
     (let order = om_heap w p;
          w1 = put_order p (UpdateStatus now StatusOpen ''Order accepted'' (order\<lparr>o_RemainingQty := o_Quantity order\<rparr>)) w;
          (s, serr) = SaveOrder (en_redis E) (om_heap w1 p) (om_redis w1);
          w2 = w1\<lparr>om_redis := s\<rparr>
      in case serr of
           Some e \<Rightarrow> (release_margin E (o_ClientID order) marginRequired w2, Some (PersistFailed e))
         | None \<Rightarrow>
             (case om_orderBooks w2 (o_Symbol order) of
                None \<Rightarrow> (release_margin E (o_ClientID order) marginRequired w2, Some (SymbolNotSupported (o_Symbol order)))
              | Some book \<Rightarrow>
                  let (st, berr) = ob_Add now p (om_heap w2, book) in
                  (case berr of
                     Some e \<Rightarrow> (release_margin E (o_ClientID order) marginRequired w2, Some (AddToBookFailed e))
                   | None \<Rightarrow>
                       let w3 = put_book (o_Symbol order) st w2 in
                       (w3\<lparr>om_postgres := map_option (SaveOrderAsync p) (om_postgres w3),
                           om_wsHub := BroadcastOrderUpdate now (o_ClientID order) (placed_payload (om_heap w3 p)) (om_wsHub w3)\<rparr>,
                        None))))"

definition PlaceOrder :: "('r, 'd) env \<Rightarrow> instant \<Rightarrow> ('r, 'd) feed \<Rightarrow> addr \<Rightarrow> ('r, 'd) OMS \<Rightarrow> ('r, 'd) OMS \<times> oms_error option" where
  "PlaceOrder E now f p w =
     (let order = om_heap w p;
          ltp = GetLTP E f (o_Symbol order) w
      in if feq ltp (Fin 0) \<and> o_OrderType order = Market then (w, Some (NoMarketData (o_Symbol order)))
      else case ValidateBasics order of
        Some e \<Rightarrow> (reject_order E now p (risk_error_string e) w, Some (RejectedByRisk e))
      | None \<Rightarrow>
      (case (if o_OrderType order = Limit then CheckPriceBand order ltp else None) of
        Some e \<Rightarrow> (reject_order E now p (risk_error_string e) w, Some (RejectedByRisk e))
      | None \<Rightarrow>
      (case CheckFreezeQty order of
        Some e \<Rightarrow> (reject_order E now p (risk_error_string e) w, Some (RejectedByRisk e))
      | None \<Rightarrow>
          let effectivePrice = (if o_OrderType order = Market then ltp else o_Price order);
              marginRequired = order_margin effectivePrice (o_Quantity order) order;
              (s, merr) = redis_BlockMargin (en_redis E) (o_ClientID order) marginRequired (om_redis w);
              w1 = w\<lparr>om_redis := s\<rparr>
          in case merr of
               Some e \<Rightarrow> (reject_order E now p (store_error_string (en_text E) e) w1, Some (RejectedByStore e))
             | None \<Rightarrow> book_order E now p marginRequired w1)))"

text \<open>Placing a new order object, as the handlers and the GTT manager do.\<close>

definition place_new :: "('r, 'd) env \<Rightarrow> instant \<Rightarrow> ('r, 'd) feed \<Rightarrow> Order \<Rightarrow> ('r, 'd) OMS \<Rightarrow>
    (('r, 'd) OMS \<times> Order) \<times> oms_error option" where
  "place_new E now f order w =
     (let p = om_next w; (w1, err) = PlaceOrder E now f p (alloc_order order w)
      in ((w1, om_heap w1 p), err))"

definition CancelOrder :: "('r, 'd) env \<Rightarrow> instant \<Rightarrow> string \<Rightarrow> ('r, 'd) OMS \<Rightarrow> ('r, 'd) OMS \<times> oms_error option" where
  "CancelOrder E now orderID w =
     (case redis_GetOrder (en_redis E) orderID (om_redis w) of
        Inl e \<Rightarrow> (w, Some (StoreFailed e))
      | Inr order \<Rightarrow>
          (case om_orderBooks w (o_Symbol order) of
             None \<Rightarrow> (w, Some (SymbolNotFound (o_Symbol order)))
           | Some book \<Rightarrow>
               let (st, berr) = ob_Cancel now orderID (om_heap w, book) in
               (case berr of
                  Some e \<Rightarrow> (w, Some (BookFailed e))
                | None \<Rightarrow>
                    let w1 = put_book (o_Symbol order) st w;
                        ltp = redis_GetLTP (en_redis E) (o_Symbol order) (om_redis w1);
                        price = (if o_OrderType order = Market then ltp else o_Price order);
                        w2 = release_margin E (o_ClientID order) (order_margin price (o_RemainingQty order) order) w1;
                        (s, err) = UpdateOrderStatus (en_redis E) now orderID StatusCancelled ''Cancelled by user'' (om_redis w2)
                    in (w2\<lparr>om_redis := s\<rparr>, map_option StoreFailed err))))"

definition oms_GetOrder :: "('r, 'd) env \<Rightarrow> string \<Rightarrow> ('r, 'd) OMS \<Rightarrow> store_error + Order" where
  "oms_GetOrder E orderID w = redis_GetOrder (en_redis E) orderID (om_redis w)"

definition GetClientOrders :: "('r, 'd) env \<Rightarrow> string \<Rightarrow> ('r, 'd) OMS \<Rightarrow> store_error + Order list" where
  "GetClientOrders E clientID w = GetOrdersByClient (en_redis E) clientID (om_redis w)"

text \<open>
  What \<^verbatim>\<open>handleGetPositions\<close> does to a position it reports: the manager hands out pointers, so the
  new last price is written into the manager's own object. The other fields stay.
\<close>

definition refreshed :: "('r, 'd) env \<Rightarrow> ('r, 'd) OMS \<Rightarrow> Position \<Rightarrow> Position" where
  "refreshed E w pos =
     (let ltp = redis_GetLTP (en_redis E) (pos_Symbol pos) (om_redis w)
      in if flt (Fin 0) ltp then pos\<lparr>pos_LastPrice := ltp\<rparr> else pos)"

definition refresh_position :: "('r, 'd) env \<Rightarrow> string \<Rightarrow> ('r, 'd) OMS \<Rightarrow> ('r, 'd) OMS" where
  "refresh_position E key w =
     (case pm_positions (om_posMgr w) key of
        None \<Rightarrow> w
      | Some pos \<Rightarrow> w\<lparr>om_posMgr := put_position key (refreshed E w pos) (om_posMgr w)\<rparr>)"

text \<open>Recovery: each stored open order becomes a new object and is added to its book, if there is one.\<close>

definition recover_order :: "instant \<Rightarrow> Order \<Rightarrow> ('r, 'd) OMS \<Rightarrow> ('r, 'd) OMS" where
  "recover_order now order w =
     (let p = om_next w; w1 = alloc_order order w in
      case om_orderBooks w1 (o_Symbol order) of
        None \<Rightarrow> w1
      | Some book \<Rightarrow> put_book (o_Symbol order) (fst (ob_Add now p (om_heap w1, book))) w1)"

definition RecoverFromRedis :: "('r, 'd) env \<Rightarrow> instant \<Rightarrow> ('r, 'd) OMS \<Rightarrow> ('r, 'd) OMS \<times> oms_error option" where
  "RecoverFromRedis E now w =
     (case GetOpenOrders (en_redis E) (om_redis w) of
        Inl e \<Rightarrow> (w, Some (RecoveryFailed e))
      | Inr orders \<Rightarrow> (fold (recover_order now) orders w, None))"

section \<open>The goroutines\<close>

text \<open>One iteration of a symbol's matching loop, and of the goroutine that forwards its trades.\<close>

definition match_symbol :: "instant \<Rightarrow> string \<Rightarrow> ('r, 'd) OMS \<Rightarrow> ('r, 'd) OMS" where
  "match_symbol now symbol w =
     (case (om_orderBooks w symbol, om_engines w symbol) of
        (Some book, Some engine) \<Rightarrow>
          let (h, book1, engine1) = matchLoop_step now (om_heap w, book, engine)
          in (put_book symbol (h, book1) w)\<lparr>om_engines := (om_engines w)(symbol \<mapsto> engine1)\<rparr>
      | _ \<Rightarrow> w)"

definition oms_trade_cap :: nat where "oms_trade_cap = 50000"

definition forward_trade :: "string \<Rightarrow> ('r, 'd) OMS \<Rightarrow> ('r, 'd) OMS" where
  "forward_trade symbol w =
     (case om_engines w symbol of
        None \<Rightarrow> w
      | Some engine \<Rightarrow>
          (case e_TradeCh engine of
             [] \<Rightarrow> w
           | trade # rest \<Rightarrow>
               if length (om_tradeCh w) < oms_trade_cap
               then w\<lparr>om_tradeCh := om_tradeCh w @ [trade],
                      om_engines := (om_engines w)(symbol \<mapsto> engine\<lparr>e_TradeCh := rest\<rparr>)\<rparr>
               else w))"

definition trade_payload :: "Trade \<Rightarrow> payload" where
  "trade_payload trade = PObject
     [(''trade_id'', JString (t_TradeID trade)), (''symbol'', JString (t_Symbol trade)),
      (''quantity'', JInt (t_Quantity trade)), (''price'', JFloat (t_Price trade)),
      (''buyer_id'', JString (t_BuyerID trade)), (''seller_id'', JString (t_SellerID trade))]"

definition fill_payload :: "Trade \<Rightarrow> string \<Rightarrow> payload" where
  "fill_payload trade side = PObject
     [(''event'', JString ''order_filled''), (''trade_id'', JString (t_TradeID trade)),
      (''symbol'', JString (t_Symbol trade)), (''side'', JString side),
      (''quantity'', JInt (t_Quantity trade)), (''price'', JFloat (t_Price trade))]"

definition consumeTrades_step :: "('r, 'd) env \<Rightarrow> instant \<Rightarrow> ('r, 'd) OMS \<Rightarrow> ('r, 'd) OMS" where
  "consumeTrades_step E now w =
     (case om_tradeCh w of
        [] \<Rightarrow> w
      | trade # rest \<Rightarrow>
          let R = en_redis E;
              s = fst (SaveTrade R trade (om_redis w));
              w1 = w\<lparr>om_tradeCh := rest, om_redis := s,
                     om_postgres := map_option (SaveTradeAsync trade) (om_postgres w)\<rparr>;
              w2 = (case (redis_GetOrder R (t_BuyOrderID trade) s, redis_GetOrder R (t_SellOrderID trade) s) of
                      (Inr buyOrder, Inr sellOrder) \<Rightarrow>
                        w1\<lparr>om_posMgr := ApplyTrade now trade buyOrder sellOrder (om_posMgr w1)\<rparr>
                    | _ \<Rightarrow> w1);
              hub1 = BroadcastTrade now (trade_payload trade) (om_wsHub w2);
              hub2 = BroadcastOrderUpdate now (t_BuyerID trade) (fill_payload trade ''BUY'') hub1;
              hub3 = BroadcastOrderUpdate now (t_SellerID trade) (fill_payload trade ''SELL'') hub2
          in w2\<lparr>om_wsHub := hub3\<rparr>)"

definition position_payload :: "UpdateEvent \<Rightarrow> payload" where
  "position_payload event =
     (let pos = ue_Position event in PObject
     [(''symbol'', JString (pos_Symbol pos)), (''quantity'', JInt (pos_Quantity pos)),
      (''buy_avg'', JFloat (pos_BuyAvg pos)), (''last_price'', JFloat (pos_LastPrice pos)),
      (''realized_pnl'', JFloat (pos_RealizedPnL pos)), (''unrealized_pnl'', JFloat (pos_UnrealizedPnL pos)),
      (''net_pnl'', JFloat (NetPnL pos)), (''trigger'', JString (ue_Trigger event))])"

definition consumePositionEvents_step :: "instant \<Rightarrow> ('r, 'd) OMS \<Rightarrow> ('r, 'd) OMS" where
  "consumePositionEvents_step now w =
     (case pm_eventCh (om_posMgr w) of
        [] \<Rightarrow> w
      | event # rest \<Rightarrow>
          let pos = ue_Position event;
              w1 = w\<lparr>om_posMgr := (om_posMgr w)\<lparr>pm_eventCh := rest\<rparr>,
                     om_wsHub := Broadcast now (message ''position_update'' (''positions:'' @ pos_ClientID pos)
                                   (position_payload event)) (om_wsHub w)\<rparr>
          in if ue_Trigger event = ''trade''
             then w1\<lparr>om_postgres := map_option (SavePositionAsync (ToModel pos)) (om_postgres w1)\<rparr>
             else w1)"

definition gtt_payload :: "string \<Rightarrow> GTTOrder \<Rightarrow> payload" where
  "gtt_payload event g = PObject
     [(''event'', JString (''gtt_'' @ event)), (''gtt_id'', JString (g_ID g)), (''symbol'', JString (g_Symbol g)),
      (''trigger_price'', JFloat (g_TriggerPrice g)), (''condition'', JString (g_Condition g)),
      (''fired_order'', JString (g_FiredOrderID g))]"

definition consumeGTTEvents_step :: "instant \<Rightarrow> ('r, 'd) OMS \<Rightarrow> ('r, 'd) OMS" where
  "consumeGTTEvents_step now w =
     (case gm_eventCh (om_gttManager w) of
        [] \<Rightarrow> w
      | event # rest \<Rightarrow>
          let w1 = w\<lparr>om_gttManager := (om_gttManager w)\<lparr>gm_eventCh := rest\<rparr>\<rparr> in
          (case gm_orders (om_gttManager w) (ge_GTT event) of
             None \<Rightarrow> w1
           | Some g \<Rightarrow>
               w1\<lparr>om_wsHub := BroadcastOrderUpdate now (g_ClientID g) (gtt_payload (ge_Event event) g) (om_wsHub w1)\<rparr>))"

text \<open>A scan of the GTT manager, with the service as its order placer and Redis as its price source.\<close>

definition gtt_scan :: "('r, 'd) env \<Rightarrow> instant \<Rightarrow> ('r, 'd) feed \<Rightarrow> string list \<Rightarrow> ('r, 'd) OMS \<Rightarrow> ('r, 'd) OMS" where
  "gtt_scan E now f keys w =
     (let (m, w1) = scan (place_new E now f) (\<lambda>w s. redis_GetLTP (en_redis E) s (om_redis w)) now keys (om_gttManager w, w)
      in w1\<lparr>om_gttManager := m\<rparr>)"

end
