(* ===== verification/Handlers.thy ===== *)
theory Handlers
  imports OMS
begin

text \<open>
  The HTTP interface of \<^verbatim>\<open>internal/api/oms.go\<close>: the request structures, one function for each
  handler, and the routing table. A request carries what the standard library makes of it: the
  segments of its clean path, the decoded body or the text of the decoding error, the query
  parameter \<^verbatim>\<open>client_id\<close>, and the answer of the WebSocket upgrader if it refuses. A response is a status and the
  structure that is encoded as JSON. The arguments \<open>gkeys\<close> and \<open>pkeys\<close> are the orders in which Go visits
  the maps of GTT orders and positions.
\<close>

section \<open>Requests and responses\<close>

record PlaceOrderRequest =
  por_ClientID :: string
  por_Symbol :: string
  por_Exchange :: Exchange
  por_Side :: OrderSide
  por_OrderType :: OrderType
  por_ProductType :: ProductType
  por_Validity :: OrderValidity
  por_Quantity :: int
  por_Price :: f64
  por_TriggerPrice :: f64

record PlaceGTTRequest =
  pgr_ClientID :: string
  pgr_Symbol :: string
  pgr_Exchange :: Exchange
  pgr_Condition :: TriggerCondition
  pgr_TriggerPrice :: f64
  pgr_Side :: OrderSide
  pgr_OrderType :: OrderType
  pgr_ProductType :: ProductType
  pgr_Quantity :: int
  pgr_LimitPrice :: f64
  pgr_PairedGTTID :: string

record PositionResponse =
  pr_Symbol :: string
  pr_ProductType :: string
  pr_Quantity :: int
  pr_BuyAvg :: f64
  pr_LastPrice :: f64
  pr_RealizedPnL :: f64
  pr_UnrealizedPnL :: f64
  pr_NetPnL :: f64

text \<open>A level in a depth response shows its orders, which the encoder reads through their pointers.\<close>

record LevelJSON =
  lj_Price :: f64
  lj_Orders :: "Order list"
  lj_Total :: int

datatype body =
    BError string
  | BObject "(string \<times> json) list"
  | BOrder Order
  | BOrders "Order list" nat
  | BDepth string "LevelJSON list" "LevelJSON list"
  | BRaw redis_val
  | BTrades "Trade list" nat
  | BHealth StoreStats string instant
  | BHistory "TradeHistoryRow list" nat
  | BVolume "SymbolVolume list"
  | BSettled string int instant
  | BGTTs "GTTOrder list" nat
  | BPositions "PositionResponse list" nat
  | BSummary DaySummary
  | BText string
  | BUpgraded

record Response =
  rs_status :: nat
  rs_body :: body

record Request =
  rq_method :: string
  rq_path :: "string list"
  rq_order :: "string + PlaceOrderRequest"
  rq_gtt :: "string + PlaceGTTRequest"
  rq_client_id :: string
  rq_upgrade :: "Response option"

definition writeJSON :: "nat \<Rightarrow> body \<Rightarrow> Response" where
  "writeJSON status v = \<lparr>rs_status = status, rs_body = v\<rparr>"

definition writeError :: "nat \<Rightarrow> string \<Rightarrow> Response" where
  "writeError status msg = writeJSON status (BError msg)"

section \<open>Orders\<close>

definition request_order :: "instant \<Rightarrow> PlaceOrderRequest \<Rightarrow> Order" where
  "request_order now req =
     (NewOrder now (por_ClientID req) (por_Symbol req))
       \<lparr>o_Exchange := (if por_Exchange req = [] then NSE else por_Exchange req),
        o_Side := por_Side req, o_OrderType := por_OrderType req,
        o_ProductType := (if por_ProductType req = [] then MIS else por_ProductType req),
        o_Validity := (if por_Validity req = [] then DAY else por_Validity req),
        o_Quantity := por_Quantity req, o_Price := por_Price req, o_TriggerPrice := por_TriggerPrice req\<rparr>"

definition handlePlaceOrder :: "('r, 'd) env \<Rightarrow> instant \<Rightarrow> ('r, 'd) feed \<Rightarrow> string + PlaceOrderRequest \<Rightarrow> ('r, 'd) OMS \<Rightarrow>
    ('r, 'd) OMS \<times> Response" where
  "handlePlaceOrder E now f decoded w =
     (case decoded of
        Inl e \<Rightarrow> (w, writeError 400 (''invalid body: '' @ e))
      | Inr req \<Rightarrow>
          let ((w1, order), err) = place_new E now f (request_order now req) w in
          (case err of
             Some e \<Rightarrow> (w1, writeError 400 (oms_error_string (en_text E) e))
           | None \<Rightarrow> (w1, writeJSON 201 (BObject [(''order_id'', JString (o_OrderID order)),
                                                 (''status'', JString (status_string (o_Status order)))]))))"

definition handleGetOrder :: "('r, 'd) env \<Rightarrow> string \<Rightarrow> ('r, 'd) OMS \<Rightarrow> Response" where
  "handleGetOrder E orderID w =
     (case oms_GetOrder E orderID w of
        Inl e \<Rightarrow> writeError 404 (store_error_string (en_text E) e)
      | Inr order \<Rightarrow> writeJSON 200 (BOrder order))"

definition handleCancelOrder :: "('r, 'd) env \<Rightarrow> instant \<Rightarrow> string \<Rightarrow> ('r, 'd) OMS \<Rightarrow> ('r, 'd) OMS \<times> Response" where
  "handleCancelOrder E now orderID w =
     (let (w1, err) = CancelOrder E now orderID w in
      case err of
        Some e \<Rightarrow> (w1, writeError 400 (oms_error_string (en_text E) e))
      | None \<Rightarrow> (w1, writeJSON 200 (BObject [(''message'', JString ''cancelled'')])))"

definition handleClientOrders :: "('r, 'd) env \<Rightarrow> string \<Rightarrow> ('r, 'd) OMS \<Rightarrow> Response" where
  "handleClientOrders E clientID w =
     (case GetClientOrders E clientID w of
        Inl e \<Rightarrow> writeError 500 (store_error_string (en_text E) e)
      | Inr orders \<Rightarrow> writeJSON 200 (BOrders orders (length orders)))"

section \<open>Market data and accounts\<close>

definition level_json :: "heap \<Rightarrow> PriceLevel \<Rightarrow> LevelJSON" where
  "level_json h l = \<lparr>lj_Price = lv_Price l, lj_Orders = map h (lv_Orders l), lj_Total = lv_Total l\<rparr>"

definition handleMarketDepth :: "string \<Rightarrow> ('r, 'd) OMS \<Rightarrow> Response" where
  "handleMarketDepth symbol w =
     (case om_orderBooks w symbol of
        None \<Rightarrow> writeError 404 ''symbol not found''
      | Some book \<Rightarrow>
          let (bids, asks) = MarketDepth 5 book
          in writeJSON 200 (BDepth symbol (map (level_json (om_heap w)) bids) (map (level_json (om_heap w)) asks)))"

definition handleGetQuote :: "('r, 'd) env \<Rightarrow> string \<Rightarrow> ('r, 'd) OMS \<Rightarrow> Response" where
  "handleGetQuote E symbol w =
     (case GetQuoteRaw (en_redis E) symbol (om_redis w) of
        Reply data \<Rightarrow> writeJSON 200 (BRaw data)
      | _ \<Rightarrow> writeError 404 ''no quote available'')"

definition handleGetTrades :: "('r, 'd) env \<Rightarrow> ('r, 'd) OMS \<Rightarrow> Response" where
  "handleGetTrades E w =
     (case GetRecentTrades (en_redis E) 100 (om_redis w) of
        Inl e \<Rightarrow> writeError 500 (store_error_string (en_text E) e)
      | Inr trades \<Rightarrow> writeJSON 200 (BTrades trades (length trades)))"

definition handleGetAccount :: "('r, 'd) env \<Rightarrow> string \<Rightarrow> ('r, 'd) OMS \<Rightarrow> Response" where
  "handleGetAccount E clientID w =
     (case GetBalance (en_redis E) clientID (om_redis w) of
        Inl e \<Rightarrow> writeError 404 (store_error_string (en_text E) e)
      | Inr (balance, used) \<Rightarrow>
          writeJSON 200 (BObject [(''client_id'', JString clientID), (''balance'', JFloat balance),
                                  (''used'', JFloat used), (''free'', JFloat (fsub balance used))]))"

definition handleHealth :: "('r, 'd) env \<Rightarrow> instant \<Rightarrow> ('r, 'd) OMS \<Rightarrow> Response" where
  "handleHealth E now w = writeJSON 200 (BHealth (redis_Stats (en_redis E) (om_redis w)) ''ok'' now)"

section \<open>Reports\<close>

text \<open>\<^verbatim>\<open>now.Truncate(24 * time.Hour)\<close>: the zero time of Go is a whole number of days before the epoch.\<close>

definition truncate_day :: "instant \<Rightarrow> instant" where
  "truncate_day now = now - now mod hours 24"

definition handleTradeHistory :: "('r, 'd) env \<Rightarrow> instant \<Rightarrow> string \<Rightarrow> ('r, 'd) OMS \<Rightarrow> Response" where
  "handleTradeHistory E now clientID w =
     (case om_postgres w of
        None \<Rightarrow> writeError 503 ''Postgres not configured''
      | Some d \<Rightarrow>
          (case GetTradeHistory (en_pg E) clientID (truncate_day now) now 100 d of
             Inl e \<Rightarrow> writeError 500 e
           | Inr rows \<Rightarrow> writeJSON 200 (BHistory rows (length rows))))"

definition handleTopVolume :: "('r, 'd) env \<Rightarrow> ('r, 'd) OMS \<Rightarrow> Response" where
  "handleTopVolume E w =
     (case om_postgres w of
        None \<Rightarrow> writeError 503 ''Postgres not configured''
      | Some d \<Rightarrow>
          (case GetTopSymbolsByVolume (en_pg E) 10 d of
             Inl e \<Rightarrow> writeError 500 e
           | Inr rows \<Rightarrow> writeJSON 200 (BVolume rows)))"

text \<open>The settlement date of the response is the date of the instant it carries.\<close>

definition handleEODSettlement :: "('r, 'd) env \<Rightarrow> instant \<Rightarrow> ('r, 'd) OMS \<Rightarrow> ('r, 'd) OMS \<times> Response" where
  "handleEODSettlement E now w =
     (case om_postgres w of
        None \<Rightarrow> (w, writeError 503 ''Postgres not configured'')
      | Some d \<Rightarrow>
          let (d1, res) = RunEODSettlement (en_pg E) now d; w1 = w\<lparr>om_postgres := Some d1\<rparr> in
          (case res of
             Inl e \<Rightarrow> (w1, writeError 500 e)
           | Inr count \<Rightarrow> (w1, writeJSON 200 (BSettled ''EOD settlement complete'' count now))))"

section \<open>GTT orders\<close>

text \<open>The structure built from a request. \<^verbatim>\<open>Add\<close> overwrites its zero identifier, status and times.\<close>

definition request_gtt :: "PlaceGTTRequest \<Rightarrow> GTTOrder" where
  "request_gtt req =
     \<lparr>g_ID = [], g_ClientID = pgr_ClientID req, g_Symbol = pgr_Symbol req,
      g_Exchange = (if pgr_Exchange req = [] then NSE else pgr_Exchange req),
      g_Condition = pgr_Condition req, g_TriggerPrice = pgr_TriggerPrice req, g_Side = pgr_Side req,
      g_OrderType = pgr_OrderType req,
      g_ProductType = (if pgr_ProductType req = [] then MIS else pgr_ProductType req),
      g_Quantity = pgr_Quantity req, g_LimitPrice = pgr_LimitPrice req, g_PairedGTTID = pgr_PairedGTTID req,
      g_Status = GTTActive, g_StatusMsg = [], g_FiredOrderID = [], g_CreatedAt = 0, g_UpdatedAt = 0,
      g_ExpiresAt = None\<rparr>"

definition gtt_message :: "GTTOrder \<Rightarrow> string" where
  "gtt_message g = ''GTT created: fires '' @ g_Side g @ '' when '' @ g_Symbol g @ '' '' @ g_Condition g @ '' '' @
     rupee @ show_fixed2 (g_TriggerPrice g)"

definition handlePlaceGTT :: "instant \<Rightarrow> string + PlaceGTTRequest \<Rightarrow> ('r, 'd) OMS \<Rightarrow> ('r, 'd) OMS \<times> Response" where
  "handlePlaceGTT now decoded w =
     (case decoded of
        Inl e \<Rightarrow> (w, writeError 400 (''invalid body: '' @ e))
      | Inr req \<Rightarrow>
          let ((m, g), err) = gtt_Add now (request_gtt req) (om_gttManager w); w1 = w\<lparr>om_gttManager := m\<rparr> in
          (case err of
             Some e \<Rightarrow> (w1, writeError 400 (gtt_error_string e))
           | None \<Rightarrow> (w1, writeJSON 201 (BObject [(''gtt_id'', JString (g_ID g)),
               (''status'', JString (gtt_status_string (g_Status g))), (''message'', JString (gtt_message g))]))))"

definition handleGetGTTs :: "string list \<Rightarrow> string \<Rightarrow> ('r, 'd) OMS \<Rightarrow> Response" where
  "handleGetGTTs gkeys clientID w =
     (let orders = GetByClient gkeys clientID (om_gttManager w) in writeJSON 200 (BGTTs orders (length orders)))"

definition handleCancelGTT :: "instant \<Rightarrow> string \<Rightarrow> ('r, 'd) OMS \<Rightarrow> ('r, 'd) OMS \<times> Response" where
  "handleCancelGTT now gttID w =
     (let (m, err) = gtt_Cancel now gttID (om_gttManager w); w1 = w\<lparr>om_gttManager := m\<rparr> in
      case err of
        Some e \<Rightarrow> (w1, writeError 400 (gtt_error_string e))
      | None \<Rightarrow> (w1, writeJSON 200 (BObject [(''message'', JString ''GTT cancelled'')])))"

section \<open>Positions\<close>

definition position_response :: "Position \<Rightarrow> PositionResponse" where
  "position_response pos =
     \<lparr>pr_Symbol = pos_Symbol pos, pr_ProductType = pos_ProductType pos, pr_Quantity = pos_Quantity pos,
      pr_BuyAvg = pos_BuyAvg pos, pr_LastPrice = pos_LastPrice pos, pr_RealizedPnL = pos_RealizedPnL pos,
      pr_UnrealizedPnL = pos_UnrealizedPnL pos, pr_NetPnL = NetPnL pos\<rparr>"

text \<open>The keys of the positions that \<^verbatim>\<open>GetAllPositions\<close> returns, and the loop over them.\<close>

definition client_keys :: "string list \<Rightarrow> string \<Rightarrow> PManager \<Rightarrow> string list" where
  "client_keys pkeys clientID m =
     filter (\<lambda>k. case pm_positions m k of None \<Rightarrow> False | Some pos \<Rightarrow> pos_ClientID pos = clientID) pkeys"

fun report_positions :: "('r, 'd) env \<Rightarrow> string list \<Rightarrow> ('r, 'd) OMS \<Rightarrow> ('r, 'd) OMS \<times> PositionResponse list" where
  "report_positions E [] w = (w, [])"
| "report_positions E (k # ks) w =
     (case pm_positions (om_posMgr w) k of
        None \<Rightarrow> report_positions E ks w
      | Some pos \<Rightarrow>
          let (w1, resp) = report_positions E ks (refresh_position E k w)
          in (w1, position_response (refreshed E w pos) # resp))"

definition handleGetPositions :: "('r, 'd) env \<Rightarrow> string list \<Rightarrow> string \<Rightarrow> ('r, 'd) OMS \<Rightarrow> ('r, 'd) OMS \<times> Response" where
  "handleGetPositions E pkeys clientID w =
     (let (w1, resp) = report_positions E (client_keys pkeys clientID (om_posMgr w)) w
      in (w1, writeJSON 200 (BPositions resp (length resp))))"

definition handlePnLSummary :: "string list \<Rightarrow> string \<Rightarrow> ('r, 'd) OMS \<Rightarrow> Response" where
  "handlePnLSummary pkeys clientID w = writeJSON 200 (BSummary (GetDaySummary pkeys clientID (om_posMgr w)))"

section \<open>WebSocket\<close>

text \<open>The upgrader answers before the client is registered, with an error if it refuses. \<^verbatim>\<open>ServeWS\<close>
  never panics (\<^verbatim>\<open>None\<close>), since the channel it sends on is new.\<close>

definition handleWebSocket :: "Response option \<Rightarrow> string \<Rightarrow> ('r, 'd) OMS \<Rightarrow> ('r, 'd) OMS \<times> Response" where
  "handleWebSocket refused clientID w =
     (case refused of
        Some answer \<Rightarrow> (w, answer)
      | None \<Rightarrow>
          (case ServeWS clientID (om_wsHub w) of
             None \<Rightarrow> (w, writeJSON 101 BUpgraded)
           | Some hub \<Rightarrow> (w\<lparr>om_wsHub := hub\<rparr>, writeJSON 101 BUpgraded)))"

definition handleWSStats :: "('r, 'd) OMS \<Rightarrow> Response" where
  "handleWSStats w = writeJSON 200 (BObject [(''connected_clients'', JInt (int (ConnectedClients (om_wsHub w))))])"

section \<open>Routing\<close>

text \<open>
  The patterns of the standard multiplexer: a literal segment, or a wildcard for one non-empty
  segment; the method GET also serves HEAD.
\<close>

datatype segment = Lit string | Wild

datatype endpoint =
    PlaceOrderEP | GetOrderEP | CancelOrderEP | ClientOrdersEP | MarketDepthEP | GetQuoteEP | GetTradesEP | GetAccountEP
  | WebSocketEP | WSStatsEP | PlaceGTTEP | GetGTTsEP | CancelGTTEP | GetPositionsEP | PnLSummaryEP | HealthEP
  | TradeHistoryEP | TopVolumeEP | EODSettlementEP

definition Router :: "(string \<times> segment list \<times> endpoint) list" where
  "Router =
     [(''POST'', [Lit ''orders''], PlaceOrderEP),
      (''GET'', [Lit ''orders'', Wild], GetOrderEP),
      (''DELETE'', [Lit ''orders'', Wild], CancelOrderEP),
      (''GET'', [Lit ''clients'', Wild, Lit ''orders''], ClientOrdersEP),
      (''GET'', [Lit ''depth'', Wild], MarketDepthEP),
      (''GET'', [Lit ''quote'', Wild], GetQuoteEP),
      (''GET'', [Lit ''trades''], GetTradesEP),
      (''GET'', [Lit ''accounts'', Wild], GetAccountEP),
      (''GET'', [Lit ''ws''], WebSocketEP),
      (''GET'', [Lit ''ws'', Lit ''stats''], WSStatsEP),
      (''POST'', [Lit ''gtt''], PlaceGTTEP),
      (''GET'', [Lit ''gtt'', Wild], GetGTTsEP),
      (''DELETE'', [Lit ''gtt'', Wild], CancelGTTEP),
      (''GET'', [Lit ''positions'', Wild], GetPositionsEP),
      (''GET'', [Lit ''positions'', Wild, Lit ''summary''], PnLSummaryEP),
      (''GET'', [Lit ''health''], HealthEP),
      (''GET'', [Lit ''reports'', Lit ''trades'', Wild], TradeHistoryEP),
      (''GET'', [Lit ''reports'', Lit ''volume''], TopVolumeEP),
      (''POST'', [Lit ''admin'', Lit ''eod-settlement''], EODSettlementEP)]"

fun seg_matches :: "segment \<Rightarrow> string \<Rightarrow> bool" where
  "seg_matches (Lit s) x \<longleftrightarrow> s = x"
| "seg_matches Wild x \<longleftrightarrow> x \<noteq> []"

definition path_matches :: "string list \<Rightarrow> string \<times> segment list \<times> endpoint \<Rightarrow> bool" where
  "path_matches path r \<longleftrightarrow> list_all2 seg_matches (fst (snd r)) path"

definition method_matches :: "string \<Rightarrow> string \<times> segment list \<times> endpoint \<Rightarrow> bool" where
  "method_matches meth r \<longleftrightarrow> fst r = meth \<or> fst r = ''GET'' \<and> meth = ''HEAD''"

definition route_matches :: "string \<Rightarrow> string list \<Rightarrow> string \<times> segment list \<times> endpoint \<Rightarrow> bool" where
  "route_matches meth path r \<longleftrightarrow> method_matches meth r \<and> path_matches path r"

text \<open>\<^verbatim>\<open>r.PathValue\<close>: every pattern has at most one wildcard.\<close>

fun PathValue :: "segment list \<Rightarrow> string list \<Rightarrow> string" where
  "PathValue (Wild # ps) (x # xs) = x"
| "PathValue (Lit s # ps) (x # xs) = PathValue ps xs"
| "PathValue _ _ = []"

definition dispatch :: "('r, 'd) env \<Rightarrow> instant \<Rightarrow> ('r, 'd) feed \<Rightarrow> string list \<Rightarrow> string list \<Rightarrow> endpoint \<Rightarrow> string \<Rightarrow>
    Request \<Rightarrow> ('r, 'd) OMS \<Rightarrow> ('r, 'd) OMS \<times> Response" where
  "dispatch E now f gkeys pkeys ep v rq w =
     (case ep of
        PlaceOrderEP \<Rightarrow> handlePlaceOrder E now f (rq_order rq) w
      | GetOrderEP \<Rightarrow> (w, handleGetOrder E v w)
      | CancelOrderEP \<Rightarrow> handleCancelOrder E now v w
      | ClientOrdersEP \<Rightarrow> (w, handleClientOrders E v w)
      | MarketDepthEP \<Rightarrow> (w, handleMarketDepth v w)
      | GetQuoteEP \<Rightarrow> (w, handleGetQuote E v w)
      | GetTradesEP \<Rightarrow> (w, handleGetTrades E w)
      | GetAccountEP \<Rightarrow> (w, handleGetAccount E v w)
      | WebSocketEP \<Rightarrow> handleWebSocket (rq_upgrade rq) (rq_client_id rq) w
      | WSStatsEP \<Rightarrow> (w, handleWSStats w)
      | PlaceGTTEP \<Rightarrow> handlePlaceGTT now (rq_gtt rq) w
      | GetGTTsEP \<Rightarrow> (w, handleGetGTTs gkeys v w)
      | CancelGTTEP \<Rightarrow> handleCancelGTT now v w
      | GetPositionsEP \<Rightarrow> handleGetPositions E pkeys v w
      | PnLSummaryEP \<Rightarrow> (w, handlePnLSummary pkeys v w)
      | HealthEP \<Rightarrow> (w, handleHealth E now w)
      | TradeHistoryEP \<Rightarrow> (w, handleTradeHistory E now v w)
      | TopVolumeEP \<Rightarrow> (w, handleTopVolume E w)
      | EODSettlementEP \<Rightarrow> handleEODSettlement E now w)"

definition serve :: "('r, 'd) env \<Rightarrow> instant \<Rightarrow> ('r, 'd) feed \<Rightarrow> string list \<Rightarrow> string list \<Rightarrow> Request \<Rightarrow> ('r, 'd) OMS \<Rightarrow>
    ('r, 'd) OMS \<times> Response" where
  "serve E now f gkeys pkeys rq w =
     (case find (route_matches (rq_method rq) (rq_path rq)) Router of
        Some (meth, pat, ep) \<Rightarrow> dispatch E now f gkeys pkeys ep (PathValue pat (rq_path rq)) rq w
      | None \<Rightarrow>
          if list_ex (path_matches (rq_path rq)) Router then (w, writeJSON 405 (BText ''Method Not Allowed''))
          else (w, writeJSON 404 (BText ''404 page not found'')))"

end
