(* ===== verification/Shared_Heap.thy ===== *)
theory Shared_Heap
  imports Engine_System
begin

text \<open>
  The service keeps the orders of all symbols in one heap, while a book and its engine see only
  their own orders. Here: book operations commute with hiding the heap outside a set that contains
  the book's orders, they change no order outside it, and they keep the symbol of every order. With
  these facts the multi-symbol service is related to the single-symbol systems.
\<close>

section \<open>Visible parts of a heap\<close>

definition no_order :: Order where
  "no_order = NewOrder 0 [] []"

definition visible :: "addr set \<Rightarrow> heap \<Rightarrow> heap" where
  "visible A h = (\<lambda>p. if p \<in> A then h p else no_order)"

lemma visible_in [simp]: "p \<in> A \<Longrightarrow> visible A h p = h p"
  by (simp add: visible_def)

lemma visible_out [simp]: "p \<notin> A \<Longrightarrow> visible A h p = no_order"
  by (simp add: visible_def)

lemma visible_upd: "p \<in> A \<Longrightarrow> (visible A h)(p := x) = visible A (h(p := x))"
  by (auto simp: visible_def)

lemma visible_cong: "(\<And>p. p \<in> A \<Longrightarrow> h p = h' p) \<Longrightarrow> visible A h = visible A h'"
  by (auto simp: visible_def)

lemma no_order_ok [simp]: "ord_ok no_order" "o_FilledQty no_order = 0"
  by (simp_all add: no_order_def NewOrder_def ord_ok_def qty_ok_def in64_def IsActive_def)

section \<open>Matching\<close>

lemma fill_one_visible:
  assumes "inc \<in> A" "r \<in> A"
  shows "fill_one now ob inc lp r (visible A h, e) = map_prod (visible A) id (fill_one now ob inc lp r (h, e))"
  using assms by (simp add: fill_one_def Let_def visible_upd split: prod.split)

lemma fillAgainstLevel_visible:
  assumes "inc \<in> A" "set rs \<subseteq> A"
  shows "fillAgainstLevel now ob inc lp rs (visible A (fst st), snd st) =
    map_prod (visible A) id (fillAgainstLevel now ob inc lp rs st)"
  using assms(2)
proof (induction rs arbitrary: st)
  case (Cons r rs)
  have fill: "fill_one now ob inc lp r (visible A (fst st), snd st) =
      (visible A (fst (fill_one now ob inc lp r st)), snd (fill_one now ob inc lp r st))"
    using fill_one_visible [of inc A r now ob lp "fst st" "snd st"] assms(1) Cons.prems
    by (simp add: map_prod_def case_prod_unfold)
  show ?case using Cons assms(1) by (simp add: fill map_prod_def case_prod_unfold)
qed (simp add: map_prod_def case_prod_unfold)

lemma level_orders_Cons [simp]: "level_orders (l # ls) = lv_Orders l @ level_orders ls"
  by (simp add: level_orders_def)

lemma match_levels_visible:
  assumes "inc \<in> A" "set (level_orders ls) \<subseteq> A"
  shows "match_levels stop now ob inc ls (visible A (fst st), snd st) =
    map_prod (visible A) id (match_levels stop now ob inc ls st)"
  using assms(2)
proof (induction ls arbitrary: st)
  case (Cons l ls)
  have level: "fillAgainstLevel now ob inc (lv_Price l) (lv_Orders l) (visible A (fst st), snd st) =
      (visible A (fst (fillAgainstLevel now ob inc (lv_Price l) (lv_Orders l) st)),
       snd (fillAgainstLevel now ob inc (lv_Price l) (lv_Orders l) st))"
    using fillAgainstLevel_visible [OF assms(1), of "lv_Orders l" now ob "lv_Price l" st] Cons.prems
    by (simp add: map_prod_def case_prod_unfold)
  show ?case using Cons assms(1) by (simp add: level map_prod_def case_prod_unfold)
qed (simp add: map_prod_def case_prod_unfold)

lemma engine_match_visible:
  assumes "inc \<in> A" "set (resting ob) \<subseteq> A"
  shows "engine_match now ob inc (visible A h, e) = map_prod (visible A) id (engine_match now ob inc (h, e))"
proof -
  have levels: "match_levels stop now ob inc ls (visible A h, e) =
      map_prod (visible A) id (match_levels stop now ob inc ls (h, e))"
    if "ls = AskLevels ob \<or> ls = BidLevels ob" for stop ls
    using match_levels_visible [OF assms(1), of ls stop now ob "(h, e)"] that assms(2)
    by (auto simp: AskLevels_def BidLevels_def)
  show ?thesis
    using assms(1)
    by (auto simp: engine_match_def matchLimitOrder_def matchMarketOrder_def levels map_prod_def
        case_prod_unfold Let_def visible_upd)
qed

lemma fill_one_symbol:
  "o_Symbol (fst (fill_one now ob inc lp r st) p) = o_Symbol (fst st p)"
  "p \<noteq> inc \<Longrightarrow> p \<noteq> r \<Longrightarrow> fst (fill_one now ob inc lp r st) p = fst st p"
  by (simp_all add: fill_one_def Let_def split: prod.split)

lemma fillAgainstLevel_symbol:
  "o_Symbol (fst (fillAgainstLevel now ob inc lp rs st) p) = o_Symbol (fst st p)"
  "p \<notin> insert inc (set rs) \<Longrightarrow> fst (fillAgainstLevel now ob inc lp rs st) p = fst st p"
  by (induction rs arbitrary: st) (simp_all add: fill_one_symbol)

lemma match_levels_symbol:
  "o_Symbol (fst (match_levels stop now ob inc ls st) p) = o_Symbol (fst st p)"
  "p \<notin> insert inc (set (level_orders ls)) \<Longrightarrow> fst (match_levels stop now ob inc ls st) p = fst st p"
  by (induction ls arbitrary: st) (simp_all add: fillAgainstLevel_symbol)

lemma engine_match_symbol:
  "o_Symbol (fst (engine_match now ob inc st) p) = o_Symbol (fst st p)"
  "p \<notin> insert inc (set (resting ob)) \<Longrightarrow> fst (engine_match now ob inc st) p = fst st p"
  by (auto simp: engine_match_def matchLimitOrder_def matchMarketOrder_def case_prod_unfold Let_def
      match_levels_symbol AskLevels_def BidLevels_def)

text \<open>One iteration of the loop: what it reads and changes are the orders of the book and of its events.\<close>

lemma matchLoop_step_visible:
  assumes "refs ob \<subseteq> A"
  shows "matchLoop_step now (visible A h, ob, e) =
    (let (h1, ob1, e1) = matchLoop_step now (h, ob, e) in (visible A h1, ob1, e1))"
proof (cases "ob_EventCh ob")
  case (Cons ev evs)
  have "engine_match now (ob\<lparr>ob_EventCh := evs\<rparr>) (ev_Order ev) (visible A h, e) =
      map_prod (visible A) id (engine_match now (ob\<lparr>ob_EventCh := evs\<rparr>) (ev_Order ev) (h, e))"
    by (rule engine_match_visible) (use assms Cons in \<open>auto simp: refs_def\<close>)
  then show ?thesis using Cons by (simp add: matchLoop_step_def Let_def map_prod_def case_prod_unfold)
qed (simp add: matchLoop_step_def)

lemma matchLoop_step_frame:
  assumes "matchLoop_step now (h, ob, e) = (h1, ob1, e1)"
  shows "o_Symbol (h1 p) = o_Symbol (h p)" and "p \<notin> refs ob \<Longrightarrow> h1 p = h p" and "refs ob1 \<subseteq> refs ob"
proof -
  have "o_Symbol (h1 p) = o_Symbol (h p) \<and> (p \<notin> refs ob \<longrightarrow> h1 p = h p) \<and> refs ob1 \<subseteq> refs ob"
  proof (cases "ob_EventCh ob")
    case (Cons ev evs)
    then show ?thesis
      using assms engine_match_symbol [where now = now and ob = "ob\<lparr>ob_EventCh := evs\<rparr>" and inc = "ev_Order ev" and st = "(h, e)" and p = p]
      by (auto simp: matchLoop_step_def Let_def case_prod_unfold refs_def split: if_splits)
  qed (use assms in \<open>auto simp: matchLoop_step_def\<close>)
  then show "o_Symbol (h1 p) = o_Symbol (h p)" "p \<notin> refs ob \<Longrightarrow> h1 p = h p" "refs ob1 \<subseteq> refs ob" by blast+
qed

section \<open>Cancelling\<close>

lemma remove_by_id_visible: "set ps \<subseteq> A \<Longrightarrow> remove_by_id (visible A h) oid ps = remove_by_id h oid ps"
  by (induction ps) auto

lemma removeFromLevels_visible:
  "set (level_orders ls) \<subseteq> A \<Longrightarrow> removeFromLevels (visible A h) order ls = removeFromLevels h order ls"
  by (induction ls) (auto simp: remove_by_id_visible split: option.split)

lemma ob_Cancel_visible:
  assumes "set (resting ob) \<subseteq> A" "\<And>p. ob_orders ob oid = Some p \<Longrightarrow> p \<in> A"
  shows "ob_Cancel now oid (visible A h, ob) =
    (let ((h1, ob1), err) = ob_Cancel now oid (h, ob) in ((visible A h1, ob1), err))"
  using assms by (auto simp: ob_Cancel_def Let_def visible_upd removeFromLevels_visible split: option.split)

lemma ob_Cancel_frame:
  assumes "ob_Cancel now oid (h, ob) = ((h1, ob1), err)" "\<And>p. ob_orders ob oid = Some p \<Longrightarrow> p \<in> refs ob"
  shows "o_Symbol (h1 p) = o_Symbol (h p)" and "p \<notin> refs ob \<Longrightarrow> h1 p = h p"
  using assms by (auto simp: ob_Cancel_def Let_def split: option.splits if_splits)

end
