(* ===== verification/Engine_Trades.thy ===== *)
theory Engine_Trades
  imports Engine_System
begin

text \<open>
  The trades of one symbol. A run of book and engine keeps two lists: the trades taken from the
  engine's channel, and the trades that were dropped because the channel was full. Shown: the trades
  taken, waiting and dropped account exactly for what the orders have filled, on either side.
\<close>

section \<open>The channel of trades\<close>

lemma fold_try_send:
  "length ch \<le> cap \<Longrightarrow> fold (try_send cap) ts ch = ch @ take (cap - length ch) ts"
proof (induction ts arbitrary: ch)
  case (Cons t ts)
  then show ?case
    by (cases "length ch < cap") (auto simp: try_send_def Suc_diff_Suc [symmetric] simp del: diff_Suc_Suc)
qed simp

lemma match_trades_symbol: "t \<in> set (match_trades now ob inc (h, e)) \<Longrightarrow> t_Symbol t = ob_Symbol ob"
proof -
  have "t \<in> set (trades_of now ob x h e fs) \<Longrightarrow> t_Symbol t = ob_Symbol ob" for x fs
    by (induction now ob x h e fs rule: trades_of.induct)
      (auto simp: createTrade_def Let_def split: prod.splits if_splits)
  then show "t \<in> set (match_trades now ob inc (h, e)) \<Longrightarrow> t_Symbol t = ob_Symbol ob"
    by (simp add: match_trades_def)
qed

lemma match_trades_positive:
  assumes "book_inv h ob" "book_orders_ok h ob" "qty_ok (h inc)" "t \<in> set (match_trades now ob inc (h, e))"
  shows "0 < t_Quantity t"
proof -
  have "t_Quantity t \<in> set (map t_Quantity (match_trades now ob inc (h, e)))" using assms(4) by simp
  then have "t_Quantity t \<in> snd ` set (match_fills h ob inc)" by (simp add: match_trades_def trades_of_quantities)
  with match_fills_facts(3) [OF assms(1-3)] show ?thesis by auto
qed

text \<open>The trades an iteration of the matching loop produces, and those that find no room.\<close>

definition sys_trades :: "instant \<Rightarrow> Sys \<Rightarrow> Trade list" where
  "sys_trades now s =
     (case ob_EventCh (s_book s) of
        [] \<Rightarrow> []
      | ev # evs \<Rightarrow>
          if ev_Type ev = EventNewOrder
          then match_trades now (s_book s\<lparr>ob_EventCh := evs\<rparr>) (ev_Order ev) (s_heap s, s_engine s)
          else [])"

definition sys_lost :: "instant \<Rightarrow> Sys \<Rightarrow> Trade list" where
  "sys_lost now s = drop (trade_cap - length (e_TradeCh (s_engine s))) (sys_trades now s)"

lemma sys_match_trades:
  assumes inv: "sys_inv s"
  shows "e_TradeCh (s_engine (sys_match now s)) = fold (try_send trade_cap) (sys_trades now s) (e_TradeCh (s_engine s))"
    and "side_filled buy (s_heap (sys_match now s)) (s_next (sys_match now s)) =
      side_filled buy (s_heap s) (s_next s) + (\<Sum>t\<leftarrow>sys_trades now s. t_Quantity t)"
    and "\<forall>t \<in> set (sys_trades now s). 0 < t_Quantity t \<and> t_Symbol t = ob_Symbol (s_book s)"
    and "ob_Symbol (s_book (sys_match now s)) = ob_Symbol (s_book s)"
proof -
  have "e_TradeCh (s_engine (sys_match now s)) = fold (try_send trade_cap) (sys_trades now s) (e_TradeCh (s_engine s)) \<and>
    side_filled buy (s_heap (sys_match now s)) (s_next (sys_match now s)) =
      side_filled buy (s_heap s) (s_next s) + (\<Sum>t\<leftarrow>sys_trades now s. t_Quantity t) \<and>
    (\<forall>t \<in> set (sys_trades now s). 0 < t_Quantity t \<and> t_Symbol t = ob_Symbol (s_book s)) \<and>
    ob_Symbol (s_book (sys_match now s)) = ob_Symbol (s_book s)"
  proof (cases "ob_EventCh (s_book s)")
    case Nil
    then show ?thesis by (simp add: sys_match_def matchLoop_step_def sys_trades_def)
  next
    case (Cons ev evs)
    let ?ob = "s_book s\<lparr>ob_EventCh := evs\<rparr>" let ?inc = "ev_Order ev"
    show ?thesis
    proof (cases "ev_Type ev = EventNewOrder")
      case False
      with Cons show ?thesis by (simp add: sys_match_def matchLoop_step_def sys_trades_def)
    next
      case True
      have book: "book_inv (s_heap s) ?ob" using inv by (simp add: sys_inv_def book_inv_def)
      have ok: "heap_ok (s_heap s) ?ob (s_next s)" and ev: "?inc < s_next s"
        using inv by (simp_all add: sys_inv_def heap_ok_def Cons)
      then have "qty_ok (s_heap s ?inc)" by (auto simp: heap_ok_def ord_ok_def)
      note B = book heap_ok_book [OF ok] this
      have m: "sys_match now s = s\<lparr>s_heap := fst (engine_match now ?ob ?inc (s_heap s, s_engine s)), s_book := ?ob,
          s_engine := snd (engine_match now ?ob ?inc (s_heap s, s_engine s))\<rparr>"
        using True by (simp add: sys_match_def matchLoop_step_def Cons case_prod_unfold Let_def)
      have t: "sys_trades now s = match_trades now ?ob ?inc (s_heap s, s_engine s)"
        using True by (simp add: sys_trades_def Cons)
      have "side_filled buy (fst (engine_match now ?ob ?inc (s_heap s, s_engine s))) (s_next s) =
          side_filled buy (s_heap s) (s_next s) + filled (match_fills (s_heap s) ?ob ?inc)"
        using ok ev by (intro side_filled_match [OF B]) (simp_all add: heap_ok_def)
      moreover have "0 < t_Quantity tr \<and> t_Symbol tr = ob_Symbol (s_book s)" if "tr \<in> set (sys_trades now s)" for tr
        using match_trades_positive [OF B that [unfolded t]] match_trades_symbol [OF that [unfolded t]] by simp
      ultimately show ?thesis using engine_match_trades(1) [OF B] match_trades_quantity by (simp add: m t)
    qed
  qed
  then show "e_TradeCh (s_engine (sys_match now s)) = fold (try_send trade_cap) (sys_trades now s) (e_TradeCh (s_engine s))"
    "side_filled buy (s_heap (sys_match now s)) (s_next (sys_match now s)) =
      side_filled buy (s_heap s) (s_next s) + (\<Sum>t\<leftarrow>sys_trades now s. t_Quantity t)"
    "\<forall>t \<in> set (sys_trades now s). 0 < t_Quantity t \<and> t_Symbol t = ob_Symbol (s_book s)"
    "ob_Symbol (s_book (sys_match now s)) = ob_Symbol (s_book s)" by blast+
qed

section \<open>Runs with their trades\<close>

inductive sys_run :: "Trade list \<Rightarrow> Trade list \<Rightarrow> Sys \<Rightarrow> bool" where
  init: "sys_run [] [] (sys_init symbol exch h)"
| other: "sys_run tr lost s \<Longrightarrow> ord_ok x \<Longrightarrow> o_FilledQty x = 0 \<Longrightarrow> sys_run tr lost (sys_other x s)"
| touch: "sys_run tr lost s \<Longrightarrow> sys_idle p s \<Longrightarrow> ord_ok x \<Longrightarrow> o_FilledQty x = 0 \<Longrightarrow> sys_run tr lost (sys_touch p x s)"
| book: "sys_run tr lost s \<Longrightarrow> sys_idle p s \<Longrightarrow> admitted (s_heap s p) \<Longrightarrow> has_room s \<Longrightarrow> sys_run tr lost (sys_book now p s)"
| cancel: "sys_run tr lost s \<Longrightarrow> has_room s \<Longrightarrow> sys_run tr lost (sys_cancel now oid s)"
| matched: "sys_run tr lost s \<Longrightarrow> sys_run tr (lost @ sys_lost now s) (sys_match now s)"
| deliver: "sys_run tr lost s \<Longrightarrow> e_TradeCh (s_engine s) = t # rest \<Longrightarrow> sys_run (tr @ [t]) lost (sys_deliver s)"

lemma sys_run_reachable: "sys_run tr lost s \<Longrightarrow> reachable s"
  by (induction rule: sys_run.induct) (auto intro: reachable.init reachable.step [OF _ step.other]
    reachable.step [OF _ step.touch] reachable.step [OF _ step.book] reachable.step [OF _ step.cancel] reachable.step [OF _ step.matched] reachable.step [OF _ step.deliver])

lemma sys_run_place:
  assumes "sys_run tr lost s" "admitted x" "has_room s"
  shows "sys_run tr lost (sys_place now x s)"
proof -
  have "sys_run tr lost (sys_other x s)" by (rule sys_run.other [OF assms(1)]) (use admitted_ord_ok [OF assms(2)] in auto)
  moreover have "sys_idle (s_next s) (sys_other x s)"
    by (rule sys_idle_new [OF reachable_inv [OF sys_run_reachable [OF assms(1)]] admitted_ord_ok(2) [OF assms(2)]])
  ultimately show ?thesis unfolding sys_place_def
    by (rule sys_run.book) (use assms in \<open>simp_all add: sys_other_def has_room_def\<close>)
qed

text \<open>The runs in which the trades \<open>tr\<close> have been taken, whatever was dropped.\<close>

definition tracked :: "Trade list \<Rightarrow> Sys \<Rightarrow> bool" where
  "tracked tr s \<longleftrightarrow> (\<exists>lost. sys_run tr lost s)"

lemma tracked_reachable: "tracked tr s \<Longrightarrow> reachable s"
  using sys_run_reachable by (auto simp: tracked_def)

lemma tracked_init: "tracked [] (sys_init symbol exch h)"
  and tracked_other: "tracked tr s \<Longrightarrow> ord_ok x \<Longrightarrow> o_FilledQty x = 0 \<Longrightarrow> tracked tr (sys_other x s)"
  and tracked_touch: "tracked tr s \<Longrightarrow> sys_idle p s \<Longrightarrow> ord_ok x \<Longrightarrow> o_FilledQty x = 0 \<Longrightarrow> tracked tr (sys_touch p x s)"
  and tracked_book: "tracked tr s \<Longrightarrow> sys_idle p s \<Longrightarrow> admitted (s_heap s p) \<Longrightarrow> has_room s \<Longrightarrow> tracked tr (sys_book now p s)"
  and tracked_cancel: "tracked tr s \<Longrightarrow> has_room s \<Longrightarrow> tracked tr (sys_cancel now oid s)"
  and tracked_match: "tracked tr s \<Longrightarrow> tracked tr (sys_match now s)"
  and tracked_deliver: "tracked tr s \<Longrightarrow> e_TradeCh (s_engine s) = t # rest \<Longrightarrow> tracked (tr @ [t]) (sys_deliver s)"
  unfolding tracked_def by (blast intro: sys_run.intros)+

lemma tracked_place: "tracked tr s \<Longrightarrow> admitted x \<Longrightarrow> has_room s \<Longrightarrow> tracked tr (sys_place now x s)"
  using sys_run_place unfolding tracked_def by blast

text \<open>Adding to the book and cancelling touch neither the engine nor any filled quantity.\<close>

lemma sys_book_ledger:
  "s_engine (sys_book now p s) = s_engine s" "ob_Symbol (s_book (sys_book now p s)) = ob_Symbol (s_book s)"
  "side_filled buy (s_heap (sys_book now p s)) (s_next (sys_book now p s)) = side_filled buy (s_heap s) (s_next s)"
proof -
  obtain h ob err where add: "ob_Add now p (s_heap s, s_book s) = ((h, ob), err)" by (metis prod.collapse)
  have st: "sys_book now p s = s\<lparr>s_heap := h, s_book := ob\<rparr>" using add by (simp add: sys_book_def)
  have "o_FilledQty (h q) = o_FilledQty (s_heap s q) \<and> is_buy (h q) = is_buy (s_heap s q)" for q
    using add by (auto simp: ob_Add_def Let_def split: if_splits)
  then have "side_filled buy h (s_next s) = side_filled buy (s_heap s) (s_next s)" by (intro side_filled_cong) auto
  moreover have "ob_Symbol ob = ob_Symbol (s_book s)"
    using add by (auto simp: ob_Add_def send_event_def Let_def split: if_splits)
  ultimately show "s_engine (sys_book now p s) = s_engine s" "ob_Symbol (s_book (sys_book now p s)) = ob_Symbol (s_book s)"
    "side_filled buy (s_heap (sys_book now p s)) (s_next (sys_book now p s)) = side_filled buy (s_heap s) (s_next s)"
    by (simp_all add: st)
qed

lemma sys_cancel_ledger:
  "s_engine (sys_cancel now oid s) = s_engine s" "ob_Symbol (s_book (sys_cancel now oid s)) = ob_Symbol (s_book s)"
  "side_filled buy (s_heap (sys_cancel now oid s)) (s_next (sys_cancel now oid s)) = side_filled buy (s_heap s) (s_next s)"
proof -
  obtain h ob err where c: "ob_Cancel now oid (s_heap s, s_book s) = ((h, ob), err)" by (metis prod.collapse)
  have st: "sys_cancel now oid s = s\<lparr>s_heap := h, s_book := ob\<rparr>" using c by (simp add: sys_cancel_def)
  have h: "o_FilledQty (h p) = o_FilledQty (s_heap s p) \<and> is_buy (h p) = is_buy (s_heap s p)" for p
    using c by (auto simp: ob_Cancel_def Let_def split: option.splits if_splits)
  moreover have "ob_Symbol ob = ob_Symbol (s_book s)"
    using c by (auto simp: ob_Cancel_def send_event_def Let_def split: option.splits if_splits)
  moreover have "side_filled buy h (s_next s) = side_filled buy (s_heap s) (s_next s)"
    by (rule side_filled_cong) (simp add: h)
  ultimately show "s_engine (sys_cancel now oid s) = s_engine s" "ob_Symbol (s_book (sys_cancel now oid s)) = ob_Symbol (s_book s)"
    "side_filled buy (s_heap (sys_cancel now oid s)) (s_next (sys_cancel now oid s)) = side_filled buy (s_heap s) (s_next s)"
    by (simp_all add: st)
qed

definition ledger :: "Trade list \<Rightarrow> Trade list \<Rightarrow> Sys \<Rightarrow> bool" where
  "ledger tr lost s \<longleftrightarrow>
     (\<Sum>t\<leftarrow>tr @ e_TradeCh (s_engine s) @ lost. t_Quantity t) = side_filled True (s_heap s) (s_next s) \<and>
     (\<forall>t \<in> set (tr @ e_TradeCh (s_engine s) @ lost). 0 < t_Quantity t \<and> t_Symbol t = ob_Symbol (s_book s)) \<and>
     length (e_TradeCh (s_engine s)) \<le> trade_cap"

lemma ledger_same:
  assumes "ledger tr lost s" "s_engine s' = s_engine s" "ob_Symbol (s_book s') = ob_Symbol (s_book s)"
    "side_filled True (s_heap s') (s_next s') = side_filled True (s_heap s) (s_next s)"
  shows "ledger tr lost s'"
  using assms by (simp add: ledger_def)

lemma sys_run_ledger: "sys_run tr lost s \<Longrightarrow> ledger tr lost s"
proof (induction rule: sys_run.induct)
  case (init symbol exch h)
  show ?case by (simp add: ledger_def sys_init_def NewMEngine_def engine_Start_def side_filled_def)
next
  case (other tr lost s x)
  have "side_filled True ((s_heap s)(s_next s := x)) (s_next s) = side_filled True (s_heap s) (s_next s)"
    by (rule side_filled_cong) simp
  with other show ?case by (intro ledger_same [OF other.IH]) (simp_all add: sys_other_def side_filled_Suc)
next
  case (touch tr lost s p x)
  have "side_filled True ((s_heap s)(p := x)) (s_next s) = side_filled True (s_heap s) (s_next s)"
    by (rule side_filled_unfilled) (use touch.hyps in \<open>auto simp: sys_idle_def\<close>)
  then show ?case by (intro ledger_same [OF touch.IH]) (simp_all add: sys_touch_def)
next
  case (book tr lost s p now)
  show ?case by (rule ledger_same [OF book.IH]) (use sys_book_ledger in auto)
next
  case (cancel tr lost s now oid)
  show ?case by (rule ledger_same [OF cancel.IH]) (use sys_cancel_ledger in auto)
next
  case (matched tr lost s now)
  note M = sys_match_trades [OF reachable_inv [OF sys_run_reachable [OF matched.hyps]], where now = now]
  let ?ts = "sys_trades now s" let ?ch = "e_TradeCh (s_engine s)" let ?n = "trade_cap - length (e_TradeCh (s_engine s))"
  have cap: "length ?ch \<le> trade_cap" using matched.IH by (simp add: ledger_def)
  have ch: "e_TradeCh (s_engine (sys_match now s)) = ?ch @ take ?n ?ts"
    unfolding M(1) by (rule fold_try_send [OF cap])
  have split: "take ?n ?ts @ sys_lost now s = ?ts" by (simp add: sys_lost_def)
  have sum: "(\<Sum>t\<leftarrow>take ?n ?ts. t_Quantity t) + (\<Sum>t\<leftarrow>sys_lost now s. t_Quantity t) = (\<Sum>t\<leftarrow>?ts. t_Quantity t)"
    using arg_cong [OF split, of "\<lambda>xs. \<Sum>t\<leftarrow>xs. t_Quantity t"] by simp
  have set: "set (take ?n ?ts) \<subseteq> set ?ts" "set (sys_lost now s) \<subseteq> set ?ts"
    by (auto simp: sys_lost_def dest: in_set_takeD in_set_dropD)
  show ?case
    using matched.IH M(2) [where buy = True] M(3) set cap sum unfolding ledger_def ch M(4) by (auto simp: algebra_simps)
next
  case (deliver tr lost s t rest)
  then show ?case by (simp add: ledger_def sys_deliver_def)
qed

section \<open>The balance\<close>

text \<open>Trades and fills agree: in every run of a symbol, the trades taken from the engine's channel, those
  waiting in it and those dropped because it was full are all positive and of this symbol, and
  their quantities add up to what the buy orders have filled and to what the sell orders have filled.
  A trade can only be dropped; none is invented or duplicated.\<close>

lemma trades_account_for_fills:
  assumes "sys_run tr lost s"
  shows "(\<Sum>t\<leftarrow>tr @ e_TradeCh (s_engine s) @ lost. t_Quantity t) = side_filled buy (s_heap s) (s_next s) \<and>
    (\<forall>t \<in> set (tr @ e_TradeCh (s_engine s) @ lost). 0 < t_Quantity t \<and> t_Symbol t = ob_Symbol (s_book s))"
  using sys_run_ledger [OF assms] reachable_inv [OF sys_run_reachable [OF assms]]
  by (cases buy) (auto simp: ledger_def sys_inv_def)

lemma trades_account_for_fills_witness:
  "\<exists>lost. (\<Sum>t\<leftarrow>e_TradeCh (s_engine ex_sys3) @ lost. t_Quantity t) = side_filled False (s_heap ex_sys3) (s_next ex_sys3)"
proof -
  have room: "has_room ex_sys0" "has_room ex_sys1"
    by (simp_all add: has_room_def event_cap_def ex_sys1) (simp add: ex_sys0_def sys_eval)
  have "sys_run [] [] ex_sys0" unfolding ex_sys0_def by (rule sys_run.init)
  then obtain lost where "sys_run [] lost ex_sys1" unfolding ex_sys1_def
    using sys_run_place [OF _ ex_admitted(1) room(1)] sys_run.matched by blast
  then obtain lost where "sys_run [] lost ex_sys3" unfolding ex_sys3_def ex_sys2_def
    using sys_run_place [OF _ ex_admitted(2) room(2)] sys_run.matched by blast
  from trades_account_for_fills [OF this, of False] show ?thesis by auto
qed

end
