(* ===== verification/OMS_Correct.thy ===== *)
theory OMS_Correct
  imports OMS Shared_Heap Engine_Trades
begin

text \<open>
  The service as a transition system: every interleaving of requests, matching, forwarding, consumers,
  price quotes and GTT scans over all symbols, with placements as a whole or piece by piece. The composition theorem: seen from one symbol, with
  the other symbols' orders hidden, every reachable state of the service is a reachable state of
  the single-symbol system, so the theorems of that system hold for each book of the service.
\<close>

section \<open>What placing an order does\<close>

text \<open>The two outcomes of \<^verbatim>\<open>PlaceOrder\<close>: an error, after which no book has changed and the object carries
  at most a new status; or the accepted order in the book of its symbol.\<close>

definition accepted :: "instant \<Rightarrow> Order \<Rightarrow> Order" where
  "accepted now order = UpdateStatus now StatusOpen ''Order accepted'' (order\<lparr>o_RemainingQty := o_Quantity order\<rparr>)"

lemma accepted_simps [simp]:
  "o_OrderID (accepted now x) = o_OrderID x" "o_Symbol (accepted now x) = o_Symbol x"
  "o_ClientID (accepted now x) = o_ClientID x" "o_Quantity (accepted now x) = o_Quantity x"
  "o_FilledQty (accepted now x) = o_FilledQty x" "o_RemainingQty (accepted now x) = o_Quantity x"
  "o_Price (accepted now x) = o_Price x" "o_Status (accepted now x) = StatusOpen"
  "o_Side (accepted now x) = o_Side x" "o_OrderType (accepted now x) = o_OrderType x"
  by (simp_all add: accepted_def)

definition same_core :: "('r, 'd) OMS \<Rightarrow> ('r, 'd) OMS \<Rightarrow> bool" where
  "same_core w w' \<longleftrightarrow> om_engines w' = om_engines w \<and> om_gttManager w' = om_gttManager w \<and>
     om_posMgr w' = om_posMgr w \<and> om_tradeCh w' = om_tradeCh w \<and> om_next w' = om_next w"

lemma SaveOrder_finite: "SaveOrder R x s = (s', None) \<Longrightarrow> o_Price x \<noteq> NaN"
  by (auto simp: SaveOrder_def marshal_order_def split: if_splits)

lemma book_order_cases [case_names failed booked]:
  assumes "book_order E now p amount w = (w', err)"
  obtains (failed) y where "err \<noteq> None" "same_core w w'" "om_orderBooks w' = om_orderBooks w"
      "om_heap w' = (om_heap w)(p := y)" "y = accepted now (om_heap w p)"
      "om_wsHub w' = om_wsHub w" "om_postgres w' = om_postgres w"
  | (booked) book h ob where "err = None" "same_core w w'" "o_Price (om_heap w p) \<noteq> NaN"
      "om_orderBooks w (o_Symbol (om_heap w p)) = Some book"
      "ob_Add now p ((om_heap w)(p := accepted now (om_heap w p)), book) = ((h, ob), None)"
      "om_heap w' = h" "om_orderBooks w' = (om_orderBooks w)(o_Symbol (om_heap w p) \<mapsto> ob)"
      "SaveOrder (en_redis E) (accepted now (om_heap w p)) (om_redis w) = (om_redis w', None)"
      "om_postgres w' = map_option (SaveOrderAsync p) (om_postgres w)"
      "om_wsHub w' = BroadcastOrderUpdate now (o_ClientID (om_heap w p)) (placed_payload (om_heap w' p)) (om_wsHub w)"
proof -
  let ?x = "accepted now (om_heap w p)"
  obtain s serr where save: "SaveOrder (en_redis E) ?x (om_redis w) = (s, serr)" by fastforce
  have numeric: "o_Price (om_heap w p) \<noteq> NaN" if "serr = None"
    using SaveOrder_finite [of "en_redis E" ?x "om_redis w" s] save that by simp
  show thesis
  proof (cases "serr = None \<and> (\<exists>book st. om_orderBooks w (o_Symbol (om_heap w p)) = Some book \<and>
      ob_Add now p ((om_heap w)(p := ?x), book) = (st, None))")
    case True
    then obtain book h ob where b: "om_orderBooks w (o_Symbol (om_heap w p)) = Some book"
      "ob_Add now p ((om_heap w)(p := ?x), book) = ((h, ob), None)" and [simp]: "serr = None" by fastforce
    show thesis
      by (rule booked [OF _ _ _ b])
        (use assms b save numeric in \<open>auto simp: book_order_def put_order_def put_book_def accepted_def
          same_core_def Let_def\<close>)
  next
    case False
    show thesis
    proof (rule failed)
      show "err \<noteq> None" "same_core w w'" "om_orderBooks w' = om_orderBooks w" "om_heap w' = (om_heap w)(p := ?x)"
        "om_wsHub w' = om_wsHub w" "om_postgres w' = om_postgres w"
        using assms save False
        by (auto simp: book_order_def put_order_def release_margin_def same_core_def accepted_def [symmetric] Let_def
            split: option.splits prod.splits)
    qed simp
  qed
qed

lemma reject_order_simps [simp]:
  "same_core w0 (reject_order E now p msg w) = same_core w0 w" "om_orderBooks (reject_order E now p msg w) = om_orderBooks w"
  "om_heap (reject_order E now p msg w) = (om_heap w)(p := UpdateStatus now StatusRejected msg (om_heap w p))"
  "om_wsHub (reject_order E now p msg w) = om_wsHub w" "om_postgres (reject_order E now p msg w) = om_postgres w"
  by (simp_all add: reject_order_def put_order_def same_core_def Let_def)

lemma same_core_redis [simp]: "same_core w (w\<lparr>om_redis := s\<rparr>)" "same_core (w\<lparr>om_redis := s\<rparr>) w' = same_core w w'"
  by (simp_all add: same_core_def)

lemma same_core_refl [simp]: "same_core w w"
  by (simp add: same_core_def)

text \<open>The stages of \<^verbatim>\<open>PlaceOrder\<close>: no market data, a failed check, no margin, or the final booking.\<close>

definition service_checks :: "Order \<Rightarrow> f64 \<Rightarrow> risk_error option" where
  "service_checks order ltp =
     (case ValidateBasics order of
        Some e \<Rightarrow> Some e
      | None \<Rightarrow>
          (case (if o_OrderType order = Limit then CheckPriceBand order ltp else None) of
             Some e \<Rightarrow> Some e
           | None \<Rightarrow> CheckFreezeQty order))"

abbreviation order_ltp :: "('r, 'd) env \<Rightarrow> ('r, 'd) feed \<Rightarrow> addr \<Rightarrow> ('r, 'd) OMS \<Rightarrow> f64" where
  "order_ltp E f p w \<equiv> GetLTP E f (o_Symbol (om_heap w p)) w"

definition margin_required :: "('r, 'd) env \<Rightarrow> ('r, 'd) feed \<Rightarrow> addr \<Rightarrow> ('r, 'd) OMS \<Rightarrow> f64" where
  "margin_required E f p w =
     order_margin (if o_OrderType (om_heap w p) = Market then order_ltp E f p w else o_Price (om_heap w p))
       (o_Quantity (om_heap w p)) (om_heap w p)"

lemma PlaceOrder_staged:
  "PlaceOrder E now f p w =
     (let order = om_heap w p; ltp = order_ltp E f p w in
      if feq ltp (Fin 0) \<and> o_OrderType order = Market then (w, Some (NoMarketData (o_Symbol order)))
      else case service_checks order ltp of
        Some e \<Rightarrow> (reject_order E now p (risk_error_string e) w, Some (RejectedByRisk e))
      | None \<Rightarrow>
          let (s, merr) = redis_BlockMargin (en_redis E) (o_ClientID order) (margin_required E f p w) (om_redis w)
          in case merr of
               Some e \<Rightarrow> (reject_order E now p (store_error_string (en_text E) e) (w\<lparr>om_redis := s\<rparr>), Some (RejectedByStore e))
             | None \<Rightarrow> book_order E now p (margin_required E f p w) (w\<lparr>om_redis := s\<rparr>))"
  unfolding PlaceOrder_def service_checks_def margin_required_def Let_def by (simp split: option.split prod.split)

lemma PlaceOrder_stages:
  obtains (no_data) "feq (order_ltp E f p w) (Fin 0)" "o_OrderType (om_heap w p) = Market"
      "PlaceOrder E now f p w = (w, Some (NoMarketData (o_Symbol (om_heap w p))))"
  | (checks) e where "service_checks (om_heap w p) (order_ltp E f p w) = Some e"
      "PlaceOrder E now f p w = (reject_order E now p (risk_error_string e) w, Some (RejectedByRisk e))"
  | (no_margin) e s where "service_checks (om_heap w p) (order_ltp E f p w) = None"
      "redis_BlockMargin (en_redis E) (o_ClientID (om_heap w p)) (margin_required E f p w) (om_redis w) = (s, Some e)"
      "PlaceOrder E now f p w =
        (reject_order E now p (store_error_string (en_text E) e) (w\<lparr>om_redis := s\<rparr>), Some (RejectedByStore e))"
  | (blocked) s where "service_checks (om_heap w p) (order_ltp E f p w) = None"
      "redis_BlockMargin (en_redis E) (o_ClientID (om_heap w p)) (margin_required E f p w) (om_redis w) = (s, None)"
      "PlaceOrder E now f p w = book_order E now p (margin_required E f p w) (w\<lparr>om_redis := s\<rparr>)"
proof (cases "feq (order_ltp E f p w) (Fin 0) \<and> o_OrderType (om_heap w p) = Market")
  case True
  then show thesis by (intro no_data) (auto simp: PlaceOrder_staged Let_def)
next
  case data: False
  obtain s merr where block: "redis_BlockMargin (en_redis E) (o_ClientID (om_heap w p)) (margin_required E f p w)
      (om_redis w) = (s, merr)" by fastforce
  show thesis
  proof (cases "service_checks (om_heap w p) (order_ltp E f p w)")
    case (Some e)
    show thesis by (rule checks [OF Some]) (use data Some in \<open>auto simp: PlaceOrder_staged Let_def\<close>)
  next
    case None
    show thesis
    proof (cases merr)
      case e: (Some e)
      show thesis by (rule no_margin [OF None block [unfolded e]]) (use data None block e in \<open>auto simp: PlaceOrder_staged Let_def\<close>)
    next
      case ok: None
      show thesis by (rule blocked [OF None block [unfolded ok]])
        (use data None block ok in \<open>auto simp: PlaceOrder_staged Let_def\<close>)
    qed
  qed
qed

lemma service_checks_basics: "service_checks x ltp = None \<Longrightarrow> validateBasics x = None"
  by (auto simp: service_checks_def ValidateBasics_def split: option.splits)

lemma PlaceOrder_cases [case_names failed booked]:
  assumes "PlaceOrder E now f p w = (w', err)"
  obtains (failed) y where "err \<noteq> None" "same_core w w'" "om_orderBooks w' = om_orderBooks w"
      "om_heap w' = (om_heap w)(p := y)" "o_FilledQty y = o_FilledQty (om_heap w p)"
      "o_Symbol y = o_Symbol (om_heap w p)" "o_OrderID y = o_OrderID (om_heap w p)"
      "om_wsHub w' = om_wsHub w" "om_postgres w' = om_postgres w"
  | (booked) book h ob where "err = None" "same_core w w'" "o_Price (om_heap w p) \<noteq> NaN"
      "validateBasics (om_heap w p) = None"
      "om_orderBooks w (o_Symbol (om_heap w p)) = Some book"
      "ob_Add now p ((om_heap w)(p := accepted now (om_heap w p)), book) = ((h, ob), None)"
      "om_heap w' = h" "om_orderBooks w' = (om_orderBooks w)(o_Symbol (om_heap w p) \<mapsto> ob)"
      "om_postgres w' = map_option (SaveOrderAsync p) (om_postgres w)"
      "om_wsHub w' = BroadcastOrderUpdate now (o_ClientID (om_heap w p)) (placed_payload (om_heap w' p)) (om_wsHub w)"
proof (cases rule: PlaceOrder_stages [where E = E and now = now and f = f and p = p and w = w])
  case no_data
  then show thesis using assms by (intro failed [of "om_heap w p"]) auto
next
  case (checks e)
  then show thesis using assms
    by (intro failed [of "UpdateStatus now StatusRejected (risk_error_string e) (om_heap w p)"]) auto
next
  case (no_margin e s)
  then show thesis using assms
    by (intro failed [of "UpdateStatus now StatusRejected (store_error_string (en_text E) e) (om_heap w p)"]) auto
next
  case (blocked s)
  from blocked(3) assms have "book_order E now p (margin_required E f p w) (w\<lparr>om_redis := s\<rparr>) = (w', err)" by simp
  then show thesis
  proof (cases rule: book_order_cases)
    case (failed y)
    show thesis by (rule that(1) [of y]) (use failed in auto)
  next
    case (booked book h ob)
    show thesis by (rule that(2) [of book h ob]) (use booked service_checks_basics [OF blocked(1)] in auto)
  qed
qed

lemma booked_admitted:
  assumes "validateBasics x = None" "in64 (o_Quantity x)" "o_FilledQty x = 0" "o_Price x \<noteq> NaN"
  shows "admitted (accepted now x)"
  using assms by (auto simp: admitted_def qty_ok_def validateBasics_def split: if_splits)

section \<open>One symbol of the service\<close>

text \<open>The order objects a symbol's system sees, and its state.\<close>

definition seen :: "string \<Rightarrow> ('r, 'd) OMS \<Rightarrow> addr set" where
  "seen s w = {p. p < om_next w \<and> o_Symbol (om_heap w p) = s \<and> ord_ok (om_heap w p)}"

definition view :: "string \<Rightarrow> OrderBook \<Rightarrow> MEngine \<Rightarrow> ('r, 'd) OMS \<Rightarrow> Sys" where
  "view s ob e w = \<lparr>s_heap = visible (seen s w) (om_heap w), s_book = ob, s_engine = e, s_next = om_next w\<rparr>"

text \<open>
  A symbol with a book: the book and its events refer to the symbol's orders, and its view is reached by
  a run of the single-symbol system in which the trades \<open>l\<close> have been forwarded. A symbol without one:
  none of its orders has traded.
\<close>

definition untraded :: "string \<Rightarrow> ('r, 'd) OMS \<Rightarrow> bool" where
  "untraded s w \<longleftrightarrow> (\<forall>p < om_next w. o_Symbol (om_heap w p) = s \<longrightarrow> o_FilledQty (om_heap w p) = 0)"

definition symbol_ok :: "Trade list \<Rightarrow> string \<Rightarrow> ('r, 'd) OMS \<Rightarrow> bool" where
  "symbol_ok l s w \<longleftrightarrow>
     (case (om_orderBooks w s, om_engines w s) of
        (Some ob, Some e) \<Rightarrow> ob_Symbol ob = s \<and> refs ob \<subseteq> seen s w \<and> tracked l (view s ob e w)
      | (None, None) \<Rightarrow> untraded s w \<and> l = []
      | _ \<Rightarrow> False)"

definition gtt_quantities :: "('r, 'd) OMS \<Rightarrow> bool" where
  "gtt_quantities w \<longleftrightarrow> (\<forall>k g. gm_orders (om_gttManager w) k = Some g \<longrightarrow> in64 (g_Quantity g))"

definition oms_inv :: "(string \<Rightarrow> Trade list) \<Rightarrow> ('r, 'd) OMS \<Rightarrow> bool" where
  "oms_inv L w \<longleftrightarrow> (\<forall>s. symbol_ok (L s) s w) \<and> gtt_quantities w"

lemma symbol_okE:
  assumes "symbol_ok l s w"
  obtains (book) ob e where "om_orderBooks w s = Some ob" "om_engines w s = Some e"
      "refs ob \<subseteq> seen s w" "tracked l (view s ob e w)" "ob_Symbol ob = s"
  | (no_book) "om_orderBooks w s = None" "om_engines w s = None" "untraded s w" "l = []"
  using assms by (auto simp: symbol_ok_def split: option.splits)

lemma oms_inv_bookE:
  assumes "oms_inv L w" "om_orderBooks w s = Some ob"
  obtains e where "om_engines w s = Some e" "refs ob \<subseteq> seen s w" "tracked (L s) (view s ob e w)" "ob_Symbol ob = s"
proof -
  from assms(1) have "symbol_ok (L s) s w" by (simp add: oms_inv_def)
  then show thesis using that assms(2) by (cases rule: symbol_okE) auto
qed

lemma oms_inv_engineE:
  assumes "oms_inv L w" "om_engines w s = Some e"
  obtains ob where "om_orderBooks w s = Some ob"
proof -
  from assms(1) have "symbol_ok (L s) s w" by (simp add: oms_inv_def)
  then show thesis using that assms(2) by (cases rule: symbol_okE) auto
qed

lemma symbol_ok_some:
  "om_orderBooks w s = Some ob \<Longrightarrow> om_engines w s = Some e \<Longrightarrow>
   symbol_ok l s w \<longleftrightarrow> ob_Symbol ob = s \<and> refs ob \<subseteq> seen s w \<and> tracked l (view s ob e w)"
  by (simp add: symbol_ok_def)

lemma oms_inv_someD:
  assumes "oms_inv L w" "om_orderBooks w s = Some ob" "om_engines w s = Some e"
  shows "ob_Symbol ob = s \<and> refs ob \<subseteq> seen s w \<and> tracked (L s) (view s ob e w)"
proof -
  from assms(1) have "symbol_ok (L s) s w" by (simp add: oms_inv_def)
  with symbol_ok_some [OF assms(2,3)] show ?thesis by blast
qed

text \<open>A symbol is unaffected by changes to the orders of other symbols.\<close>

lemma seen_cong:
  assumes "om_next w' = om_next w" "\<And>p. o_Symbol (om_heap w' p) = o_Symbol (om_heap w p)"
    and "\<And>p. o_Symbol (om_heap w p) = s \<Longrightarrow> om_heap w' p = om_heap w p"
  shows "seen s w' = seen s w" "visible (seen s w') (om_heap w') = visible (seen s w) (om_heap w)" "untraded s w' = untraded s w"
proof -
  show eq: "seen s w' = seen s w" using assms by (auto simp: seen_def)
  show "visible (seen s w') (om_heap w') = visible (seen s w) (om_heap w)"
    unfolding eq by (rule visible_cong) (use assms(3) in \<open>simp add: seen_def\<close>)
  show "untraded s w' = untraded s w" using assms by (auto simp: untraded_def)
qed

lemma symbol_ok_cong:
  assumes "symbol_ok l s w" "om_orderBooks w' s = om_orderBooks w s" "om_engines w' s = om_engines w s"
    and "om_next w' = om_next w" "\<And>p. o_Symbol (om_heap w' p) = o_Symbol (om_heap w p)"
    and "\<And>p. o_Symbol (om_heap w p) = s \<Longrightarrow> om_heap w' p = om_heap w p"
  shows "symbol_ok l s w'"
  using assms(1-4) seen_cong [OF assms(4-6)] by (simp add: symbol_ok_def view_def split: option.splits)

text \<open>A new object that does not reach the symbol's book.\<close>

lemma symbol_ok_other:
  assumes ok: "symbol_ok l s w" and same: "om_orderBooks w' s = om_orderBooks w s" "om_engines w' s = om_engines w s"
    and new: "om_next w' = Suc (om_next w)" "om_heap w' = (om_heap w)(om_next w := y)" "o_FilledQty y = 0"
  shows "symbol_ok l s w'"
  using ok
proof (cases rule: symbol_okE)
  case no_book
  then show ?thesis using same new by (auto simp: symbol_ok_def untraded_def less_Suc_eq)
next
  case (book ob e)
  let ?x = "if o_Symbol y = s \<and> ord_ok y then y else no_order"
  have seen: "seen s w' = (if o_Symbol y = s \<and> ord_ok y then insert (om_next w) (seen s w) else seen s w)"
    using new by (auto simp: seen_def less_Suc_eq)
  have "om_next w \<notin> seen s w" by (simp add: seen_def)
  then have "visible (seen s w') (om_heap w') = (visible (seen s w) (om_heap w))(om_next w := ?x)"
    unfolding seen new(2) by (intro ext) (simp add: visible_def)
  then have "view s ob e w' = sys_other ?x (view s ob e w)" using new by (simp add: view_def sys_other_def)
  moreover have "tracked l (sys_other ?x (view s ob e w))" using new(3) by (intro tracked_other book(4)) auto
  ultimately have "tracked l (view s ob e w')" by simp
  then show ?thesis using book(1-3,5) same seen by (auto simp: symbol_ok_def)
qed

text \<open>A step of the symbol's own system: book, engine and the book's orders change.\<close>

lemma oms_inv_book_step:
  assumes inv: "oms_inv L w" and ob: "om_orderBooks w s = Some ob" "om_engines w s = Some e"
    and w': "om_orderBooks w' = (om_orderBooks w)(s \<mapsto> ob1)" "om_engines w' = (om_engines w)(s \<mapsto> e1)"
      "om_heap w' = h1" "om_next w' = om_next w" "om_gttManager w' = om_gttManager w"
    and sym: "\<And>p. o_Symbol (h1 p) = o_Symbol (om_heap w p)"
    and frame: "\<And>p. p \<notin> seen s w \<Longrightarrow> h1 p = om_heap w p"
    and sub: "refs ob \<subseteq> seen s w \<Longrightarrow> refs ob1 \<subseteq> seen s w" "ob_Symbol ob1 = ob_Symbol ob"
    and step: "tracked (L s) (view s ob e w) \<Longrightarrow>
      tracked l \<lparr>s_heap = visible (seen s w) h1, s_book = ob1, s_engine = e1, s_next = om_next w\<rparr>" (is "_ \<Longrightarrow> tracked _ ?v")
  shows "oms_inv (L(s := l)) w'"
proof -
  have s: "refs ob \<subseteq> seen s w" "tracked (L s) (view s ob e w)" "ob_Symbol ob = s"
    using oms_inv_someD [OF inv ob] by blast+
  have r: "tracked l ?v" using s(2) by (rule step)
  have "ord_ok (visible (seen s w) h1 p)" if "p < om_next w" for p
    using reachable_inv [OF tracked_reachable [OF r]] that by (simp add: sys_inv_def heap_ok_def)
  then have keep: "ord_ok (h1 p)" if "p \<in> seen s w" for p
    using that visible_in [of p "seen s w" h1] by (metis (mono_tags, lifting) mem_Collect_eq seen_def)
  have seen: "seen s w' = seen s w"
  proof (intro set_eqI)
    fix p show "p \<in> seen s w' \<longleftrightarrow> p \<in> seen s w"
    proof (cases "p \<in> seen s w")
      case True
      then show ?thesis using keep [of p] sym [of p] w'(3,4) by (auto simp: seen_def)
    qed (use frame [of p] w'(3,4) in \<open>simp add: seen_def\<close>)
  qed
  have "view s ob1 e1 w' = ?v" using w' seen by (simp add: view_def)
  then have "symbol_ok l s w'" using r s(3) sub(1) [OF s(1)] sub(2) w' seen by (auto simp: symbol_ok_def)
  moreover have "symbol_ok (L t) t w'" if "t \<noteq> s" for t
  proof (rule symbol_ok_cong)
    show "symbol_ok (L t) t w" using inv by (simp add: oms_inv_def)
    show "om_heap w' p = om_heap w p" if "o_Symbol (om_heap w p) = t" for p
      using frame [of p] s(1) that \<open>t \<noteq> s\<close> w'(3) by (auto simp: seen_def)
  qed (use that w' sym in auto)
  ultimately have "\<forall>t. symbol_ok ((L(s := l)) t) t w'" by (metis fun_upd_apply)
  then show ?thesis using inv w'(5) by (simp add: oms_inv_def gtt_quantities_def)
qed

text \<open>An order object that no book refers to and that has not traded: its placement may still change it.\<close>

definition idle_order :: "addr \<Rightarrow> ('r, 'd) OMS \<Rightarrow> bool" where
  "idle_order p w \<longleftrightarrow> p < om_next w \<and> o_FilledQty (om_heap w p) = 0 \<and>
     (\<forall>s ob. om_orderBooks w s = Some ob \<longrightarrow> p \<notin> refs ob)"

lemma idle_order_view:
  assumes "idle_order p w" "om_orderBooks w s = Some ob"
  shows "sys_idle p (view s ob e w)"
proof -
  have "o_FilledQty (visible (seen s w) (om_heap w) p) = 0"
    using assms(1) by (cases "p \<in> seen s w") (simp_all add: idle_order_def)
  then show ?thesis using assms by (auto simp: sys_idle_def idle_order_def view_def)
qed

lemma symbol_ok_touch:
  assumes ok: "symbol_ok l s w" and idle: "idle_order p w"
    and w': "om_orderBooks w' = om_orderBooks w" "om_engines w' = om_engines w" "om_next w' = om_next w"
      "om_heap w' = (om_heap w)(p := y)"
    and y: "o_Symbol y = o_Symbol (om_heap w p)" "o_FilledQty y = 0"
  shows "symbol_ok l s w'"
proof (cases "o_Symbol y = s")
  case False
  then show ?thesis using w' y by (intro symbol_ok_cong [OF ok]) auto
next
  case s: True
  from ok show ?thesis
  proof (cases rule: symbol_okE)
    case no_book
    then show ?thesis using w' y by (auto simp: symbol_ok_def untraded_def)
  next
    case (book ob e)
    let ?x = "if ord_ok y then y else no_order"
    have out: "p \<notin> refs ob" "p < om_next w" using idle book(1) by (auto simp: idle_order_def)
    have seen: "seen s w' = (if ord_ok y then insert p (seen s w) else seen s w - {p})"
      using w' y s out by (auto simp: seen_def)
    have "visible (seen s w') (om_heap w') = (visible (seen s w) (om_heap w))(p := ?x)"
      unfolding seen w'(4) by (intro ext) (simp add: visible_def)
    then have "view s ob e w' = sys_touch p ?x (view s ob e w)" using w' by (simp add: view_def sys_touch_def)
    moreover have "tracked l (sys_touch p ?x (view s ob e w))"
      using y(2) by (intro tracked_touch [OF book(4) idle_order_view [OF idle book(1)]]) auto
    ultimately have "tracked l (view s ob e w')" by simp
    moreover have "refs ob \<subseteq> seen s w'" using book(3) out seen by auto
    ultimately show ?thesis using book w' by (simp add: symbol_ok_def)
  qed
qed

lemma oms_inv_touch:
  assumes "oms_inv L w" "idle_order p w"
    and "om_orderBooks w' = om_orderBooks w" "om_engines w' = om_engines w" "om_next w' = om_next w"
      "om_heap w' = (om_heap w)(p := y)" "om_gttManager w' = om_gttManager w"
    and "o_Symbol y = o_Symbol (om_heap w p)" "o_FilledQty y = 0"
  shows "oms_inv L w'"
  using assms symbol_ok_touch [of _ _ w p w' y] by (simp add: oms_inv_def gtt_quantities_def)

lemma oms_inv_same:
  assumes "oms_inv L w" "om_orderBooks w' = om_orderBooks w" "om_engines w' = om_engines w"
    and "om_next w' = om_next w" "om_heap w' = om_heap w" "gtt_quantities w'"
  shows "oms_inv L w'"
  using assms symbol_ok_cong [of _ _ w w'] by (simp add: oms_inv_def)

section \<open>The operations keep the invariant\<close>

definition room :: "string \<Rightarrow> ('r, 'd) OMS \<Rightarrow> bool" where
  "room s w \<longleftrightarrow> (\<forall>ob. om_orderBooks w s = Some ob \<longrightarrow> length (ob_EventCh ob) < event_cap)"

text \<open>Adding a new object to a book does not depend on the rest of the heap.\<close>

abbreviation on_book :: "instant \<Rightarrow> Order \<Rightarrow> Order" where
  "on_book now x \<equiv> UpdateStatus now StatusOpen ''Order placed on book'' x"

lemma ob_Add_new:
  assumes "ob_Add now p (h(p := x), ob) = ((h1, ob1), None)"
  shows "h1 = h(p := on_book now x)" "ob_Add now p (h'(p := x), ob) = ((h'(p := on_book now x), ob1), None)"
    "refs ob1 \<subseteq> insert p (refs ob)"
proof -
  have fresh: "ob_orders ob (o_OrderID x) = None"
    using assms by (cases "ob_orders ob (o_OrderID x)") (auto simp: ob_Add_def Let_def)
  then show "h1 = h(p := on_book now x)" "ob_Add now p (h'(p := x), ob) = ((h'(p := on_book now x), ob1), None)"
    using assms by (auto simp: ob_Add_def Let_def)
  show "refs ob1 \<subseteq> insert p (refs ob)"
    using Add_orders [of ob "h(p := x)" p now h1 ob1] fresh assms by (auto simp: refs_def)
qed

lemma oms_inv_unbooked:
  assumes "oms_inv L w" "om_orderBooks w' = om_orderBooks w" "om_engines w' = om_engines w"
    "om_next w' = Suc (om_next w)" "om_heap w' = (om_heap w)(om_next w := y)" "o_FilledQty y = 0"
    "om_gttManager w' = om_gttManager w"
  shows "oms_inv L w'"
  using assms symbol_ok_other [of _ _ w w' y] by (simp add: oms_inv_def gtt_quantities_def)

text \<open>Adding an idle, admitted order to its book.\<close>

lemma oms_inv_book_at:
  assumes inv: "oms_inv L w" and idle: "idle_order p w" and x: "admitted (om_heap w p)"
    and ob: "om_orderBooks w (o_Symbol (om_heap w p)) = Some ob" and room: "room (o_Symbol (om_heap w p)) w"
    and add: "ob_Add now p (om_heap w, ob) = ((h, ob1), None)"
    and w': "om_heap w' = h" "om_orderBooks w' = (om_orderBooks w)(o_Symbol (om_heap w p) \<mapsto> ob1)"
      "om_engines w' = om_engines w" "om_next w' = om_next w" "om_gttManager w' = om_gttManager w"
  shows "oms_inv L w'"
proof -
  let ?x = "om_heap w p" let ?s = "o_Symbol (om_heap w p)"
  from add have "ob_Add now p ((om_heap w)(p := ?x), ob) = ((h, ob1), None)" by simp
  note A = ob_Add_new [OF this]
  obtain e where e: "om_engines w ?s = Some e" and r: "tracked (L ?s) (view ?s ob e w)"
    using oms_inv_bookE [OF inv ob] .
  have p: "p \<in> seen ?s w" using idle admitted_ord_ok(1) [OF x] by (simp add: idle_order_def seen_def)
  have vis: "(visible (seen ?s w) (om_heap w))(p := ?x) = visible (seen ?s w) (om_heap w)" using p by (auto simp: visible_def)
  have "has_room (view ?s ob e w)" using room ob by (simp add: has_room_def room_def view_def)
  moreover have "admitted (s_heap (view ?s ob e w) p)" using x p by (simp add: view_def)
  ultimately have "tracked (L ?s) (sys_book now p (view ?s ob e w))"
    by (intro tracked_book [OF r idle_order_view [OF idle ob]])
  moreover have "sys_book now p (view ?s ob e w) =
      \<lparr>s_heap = visible (seen ?s w) h, s_book = ob1, s_engine = e, s_next = om_next w\<rparr>"
    using A(2) [of "visible (seen ?s w) (om_heap w)", unfolded vis] visible_upd [OF p, of "om_heap w" "on_book now ?x"]
    by (simp add: sys_book_def view_def A(1))
  ultimately have T: "tracked (L ?s) \<lparr>s_heap = visible (seen ?s w) h, s_book = ob1, s_engine = e, s_next = om_next w\<rparr>" by simp
  have "oms_inv (L(?s := L ?s)) w'"
  proof (rule oms_inv_book_step [OF inv ob e])
    show "refs ob1 \<subseteq> seen ?s w" if "refs ob \<subseteq> seen ?s w" using that A(3) p by blast
    show "ob_Symbol ob1 = ob_Symbol ob"
      using add by (auto simp: ob_Add_def send_event_def Let_def split: if_splits)
    show "h q = om_heap w q" if "q \<notin> seen ?s w" for q using that p A(1) by auto
    show "tracked (L ?s) \<lparr>s_heap = visible (seen ?s w) h, s_book = ob1, s_engine = e, s_next = om_next w\<rparr>" by (rule T)
  qed (use w' e A(1) in \<open>auto simp: fun_upd_idem\<close>)
  then show ?thesis by simp
qed

lemma idle_order_alloc:
  assumes "oms_inv L w" "o_FilledQty x = 0"
  shows "idle_order (om_next w) (alloc_order x w)"
proof -
  have "om_next w \<notin> refs ob" if ob: "om_orderBooks w s = Some ob" for s ob
  proof -
    obtain e where "refs ob \<subseteq> seen s w" using oms_inv_bookE [OF assms(1) ob] by blast
    then show ?thesis by (auto simp: seen_def)
  qed
  then show ?thesis using assms(2) by (auto simp: idle_order_def alloc_order_def)
qed

lemma oms_inv_alloc: "oms_inv L w \<Longrightarrow> o_FilledQty x = 0 \<Longrightarrow> oms_inv L (alloc_order x w)"
  by (rule oms_inv_unbooked [where y = x]) (simp_all add: alloc_order_def)

lemma oms_inv_booked:
  assumes inv: "oms_inv L w" and x: "admitted x" and ob: "om_orderBooks w (o_Symbol x) = Some ob"
    and room: "room (o_Symbol x) w"
    and add: "ob_Add now (om_next w) ((om_heap w)(om_next w := x), ob) = ((h, ob1), None)"
    and w': "om_heap w' = h" "om_orderBooks w' = (om_orderBooks w)(o_Symbol x \<mapsto> ob1)"
      "om_engines w' = om_engines w" "om_next w' = Suc (om_next w)" "om_gttManager w' = om_gttManager w"
  shows "oms_inv L w'"
proof (rule oms_inv_book_at)
  have filled: "o_FilledQty x = 0" using x by (rule admitted_ord_ok)
  show "oms_inv L (alloc_order x w)" by (rule oms_inv_alloc [OF inv filled])
  show "idle_order (om_next w) (alloc_order x w)" by (rule idle_order_alloc [OF inv filled])
qed (use x ob room add w' in \<open>simp_all add: alloc_order_def room_def\<close>)

lemma alloc_simps [simp]:
  "om_orderBooks (alloc_order x w) = om_orderBooks w" "om_engines (alloc_order x w) = om_engines w"
  "om_gttManager (alloc_order x w) = om_gttManager w" "om_next (alloc_order x w) = Suc (om_next w)"
  "om_heap (alloc_order x w) = (om_heap w)(om_next w := x)" "om_redis (alloc_order x w) = om_redis w"
  by (simp_all add: alloc_order_def)

lemma place_new_gtt: "om_gttManager (fst (fst (place_new E now f x w))) = om_gttManager w"
proof -
  obtain w' err where po: "PlaceOrder E now f (om_next w) (alloc_order x w) = (w', err)" by fastforce
  then have "same_core (alloc_order x w) w'" by (cases rule: PlaceOrder_cases) auto
  with po show ?thesis by (simp add: place_new_def same_core_def Let_def)
qed

lemma oms_inv_place_new:
  assumes inv: "oms_inv L w" and x: "in64 (o_Quantity x)" "o_FilledQty x = 0" and room: "room (o_Symbol x) w"
  shows "oms_inv L (fst (fst (place_new E now f x w)))"
proof -
  obtain w' err where po: "PlaceOrder E now f (om_next w) (alloc_order x w) = (w', err)" by fastforce
  then have "fst (fst (place_new E now f x w)) = w'" by (simp add: place_new_def Let_def)
  moreover from po have "oms_inv L w'"
  proof (cases rule: PlaceOrder_cases)
    case (failed y)
    then show ?thesis using x by (intro oms_inv_unbooked [OF inv, of w' y]) (simp_all add: same_core_def)
  next
    case (booked book h ob)
    have "admitted (accepted now x)" using booked x by (intro booked_admitted) simp_all
    then show ?thesis using booked room
      by (intro oms_inv_booked [OF inv, of "accepted now x" book now h ob w']) (simp_all add: same_core_def)
  qed
  ultimately show ?thesis by simp
qed

lemma oms_inv_recover:
  assumes inv: "oms_inv L w" and x: "admitted x" and room: "room (o_Symbol x) w"
  shows "oms_inv L (recover_order now x w)"
proof (cases "om_orderBooks w (o_Symbol x)")
  case None
  then show ?thesis
    using admitted_ord_ok(2) [OF x] by (intro oms_inv_unbooked [OF inv, of _ x]) (simp_all add: recover_order_def Let_def)
next
  case (Some ob)
  obtain h ob1 err where add: "ob_Add now (om_next w) ((om_heap w)(om_next w := x), ob) = ((h, ob1), err)"
    by (metis prod.collapse)
  show ?thesis
  proof (cases err)
    case None
    show ?thesis
      by (rule oms_inv_booked [OF inv x Some room add [unfolded None]])
        (use Some add in \<open>simp_all add: recover_order_def put_book_def Let_def\<close>)
  next
    case (Some e)
    then have "(h, ob1) = ((om_heap w)(om_next w := x), ob)"
      using add by (auto simp: ob_Add_def Let_def split: if_splits)
    then show ?thesis
      using \<open>om_orderBooks w (o_Symbol x) = Some ob\<close> add admitted_ord_ok(2) [OF x]
      by (intro oms_inv_unbooked [OF inv, of _ x]) (auto simp: recover_order_def put_book_def Let_def)
  qed
qed

text \<open>Cancelling goes to the book of the stored order's symbol.\<close>

definition margin_released :: "('r, 'd) env \<Rightarrow> Order \<Rightarrow> ('r, 'd) OMS \<Rightarrow> f64" where
  "margin_released E order w =
     order_margin (if o_OrderType order = Market then redis_GetLTP (en_redis E) (o_Symbol order) (om_redis w)
       else o_Price order) (o_RemainingQty order) order"

lemma CancelOrder_cases [case_names failed cancelled]:
  assumes "CancelOrder E now oid w = (w', err)"
  obtains (failed) "w' = w" "err \<noteq> None"
  | (cancelled) order book h ob uerr where "redis_GetOrder (en_redis E) oid (om_redis w) = Inr order"
      "om_orderBooks w (o_Symbol order) = Some book" "ob_Cancel now oid (om_heap w, book) = ((h, ob), None)"
      "om_heap w' = h" "om_orderBooks w' = (om_orderBooks w)(o_Symbol order \<mapsto> ob)" "same_core w w'"
      "UpdateOrderStatus (en_redis E) now oid StatusCancelled ''Cancelled by user''
        (fst (redis_ReleaseMargin (en_redis E) (o_ClientID order) (margin_released E order w) (om_redis w))) = (om_redis w', uerr)"
      "err = map_option StoreFailed uerr" "om_wsHub w' = om_wsHub w" "om_postgres w' = om_postgres w"
proof (cases "redis_GetOrder (en_redis E) oid (om_redis w)")
  case (Inl e)
  then show thesis using assms by (intro failed) (auto simp: CancelOrder_def)
next
  case (Inr order)
  show thesis
  proof (cases "om_orderBooks w (o_Symbol order)")
    case None
    then show thesis using assms Inr by (intro failed) (auto simp: CancelOrder_def)
  next
    case (Some book)
    obtain h ob berr where c: "ob_Cancel now oid (om_heap w, book) = ((h, ob), berr)" by (metis prod.collapse)
    show thesis
    proof (cases berr)
      case None
      obtain s uerr where u: "UpdateOrderStatus (en_redis E) now oid StatusCancelled ''Cancelled by user''
          (fst (redis_ReleaseMargin (en_redis E) (o_ClientID order) (margin_released E order w) (om_redis w))) = (s, uerr)"
        by fastforce
      have w': "w' = (put_book (o_Symbol order) (h, ob) w)\<lparr>om_redis := s\<rparr>" "err = map_option StoreFailed uerr"
        using assms Inr Some c None u
        by (auto simp: CancelOrder_def put_book_def release_margin_def margin_released_def Let_def split: if_splits)
      show thesis
        by (rule that(2) [OF Inr Some c [unfolded None]]) (use w' u in \<open>simp_all add: put_book_def same_core_def\<close>)
    next
      case e: (Some e)
      then show thesis using assms Inr Some c by (intro failed) (auto simp: CancelOrder_def)
    qed
  qed
qed

lemma oms_inv_cancel_book:
  assumes inv: "oms_inv L w" and ob: "om_orderBooks w s = Some book" and room: "room s w"
    and cancel: "ob_Cancel now oid (om_heap w, book) = ((h, ob), None)"
    and w': "om_heap w' = h" "om_orderBooks w' = (om_orderBooks w)(s \<mapsto> ob)" "om_engines w' = om_engines w"
      "om_next w' = om_next w" "om_gttManager w' = om_gttManager w"
  shows "oms_inv L w'"
proof -
  obtain e where e: "om_engines w s = Some e" and refs: "refs book \<subseteq> seen s w" and r: "tracked (L s) (view s book e w)"
    using oms_inv_bookE [OF inv ob] .
  have book: "book_inv (visible (seen s w) (om_heap w)) book"
    using reachable_inv [OF tracked_reachable [OF r]] by (simp add: sys_inv_def view_def)
  have known: "p \<in> refs book" if "ob_orders book oid = Some p" for p
    using that book_invD(4) [OF book] by (auto simp: refs_def)
  have vis: "ob_Cancel now oid (visible (seen s w) (om_heap w), book) = ((visible (seen s w) h, ob), None)"
  proof -
    have "set (resting book) \<subseteq> seen s w" using refs by (simp add: refs_def)
    moreover have "p \<in> seen s w" if "ob_orders book oid = Some p" for p using known [OF that] refs by blast
    ultimately show ?thesis using ob_Cancel_visible [of book "seen s w" oid now "om_heap w"] cancel by simp
  qed
  have room1: "has_room (view s book e w)" using room ob by (simp add: has_room_def room_def view_def)
  have "oms_inv (L(s := L s)) w'"
  proof (rule oms_inv_book_step [OF inv ob e])
    have "refs ob \<subseteq> refs book" using Cancel_orders(1,2,4) [OF book vis] by (fastforce simp: refs_def)
    then show "refs ob \<subseteq> seen s w" using refs by blast
    show "h q = om_heap w q" if "q \<notin> seen s w" for q
      using ob_Cancel_frame(2) [OF cancel known] that refs by blast
    show "tracked (L s) \<lparr>s_heap = visible (seen s w) h, s_book = ob, s_engine = e, s_next = om_next w\<rparr>"
      using tracked_cancel [OF r room1, of now oid] by (simp add: sys_cancel_def view_def vis)
    show "ob_Symbol ob = ob_Symbol book" using sys_cancel_ledger(2) [of now oid "view s book e w"]
      by (simp add: sys_cancel_def view_def vis)
  qed (use w' e ob_Cancel_frame(1) [OF cancel known] in \<open>auto simp: fun_upd_idem\<close>)
  then show ?thesis by simp
qed

lemma oms_inv_cancel:
  assumes inv: "oms_inv L w" and room: "\<And>s. room s w"
  shows "oms_inv L (fst (CancelOrder E now oid w))"
proof -
  obtain w' err where c: "CancelOrder E now oid w = (w', err)" by fastforce
  then have "oms_inv L w'"
  proof (cases rule: CancelOrder_cases)
    case failed
    with inv show ?thesis by simp
  next
    case (cancelled order book h ob uerr)
    show ?thesis
      by (rule oms_inv_cancel_book [OF inv cancelled(2) room cancelled(3)]) (use cancelled in \<open>auto simp: same_core_def\<close>)
  qed
  with c show ?thesis by simp
qed

lemma oms_inv_cancel_only:
  assumes "oms_inv L w" "om_orderBooks w s = Some book" "room s w"
  shows "oms_inv L (put_book s (fst (ob_Cancel now oid (om_heap w, book))) w)"
proof -
  obtain h ob err where c: "ob_Cancel now oid (om_heap w, book) = ((h, ob), err)" by (metis prod.collapse)
  show ?thesis
  proof (cases err)
    case None
    show ?thesis by (rule oms_inv_cancel_book [OF assms c [unfolded None]]) (simp_all add: put_book_def c)
  next
    case (Some e)
    then have "(h, ob) = (om_heap w, book)" using c by (auto simp: ob_Cancel_def Let_def split: option.splits if_splits)
    then have "put_book s (fst (ob_Cancel now oid (om_heap w, book))) w = w"
      using assms(2) by (simp add: put_book_def c fun_upd_idem)
    with assms(1) show ?thesis by simp
  qed
qed

lemma oms_inv_match:
  assumes inv: "oms_inv L w"
  shows "oms_inv L (match_symbol now s w)"
proof -
  from inv have "symbol_ok (L s) s w" by (simp add: oms_inv_def)
  then show ?thesis
  proof (cases rule: symbol_okE)
    case no_book
    with inv show ?thesis by (simp add: match_symbol_def)
  next
    case (book ob e)
    obtain h ob1 e1 where m: "matchLoop_step now (om_heap w, ob, e) = (h, ob1, e1)" by (metis prod.collapse)
    note F = matchLoop_step_frame [OF m]
    have "matchLoop_step now (visible (seen s w) (om_heap w), ob, e) = (visible (seen s w) h, ob1, e1)"
      using matchLoop_step_visible [OF book(3), of now "om_heap w" e] m by simp
    then have M: "sys_match now (view s ob e w) = \<lparr>s_heap = visible (seen s w) h, s_book = ob1, s_engine = e1, s_next = om_next w\<rparr>"
      by (simp add: sys_match_def view_def)
    have sym: "ob_Symbol ob1 = ob_Symbol ob"
      using sys_match_trades(4) [OF reachable_inv [OF tracked_reachable [OF book(4)]], of now] M by (simp add: view_def)
    have T: "tracked (L s) \<lparr>s_heap = visible (seen s w) h, s_book = ob1, s_engine = e1, s_next = om_next w\<rparr>"
      using tracked_match [OF book(4), of now] by (simp add: M)
    have "oms_inv (L(s := L s)) (match_symbol now s w)"
    proof (rule oms_inv_book_step [OF inv book(1,2) _ _ _ _ _ F(1) _ _ sym T])
      show "h p = om_heap w p" if "p \<notin> seen s w" for p using F(2) [of p] book(3) that by blast
      show "refs ob1 \<subseteq> seen s w" if "refs ob \<subseteq> seen s w" using F(3) that by blast
    qed (use book(1,2) m in \<open>simp_all add: match_symbol_def put_book_def\<close>)
    then show ?thesis by simp
  qed
qed

text \<open>The trades of one symbol in a list of trades.\<close>

definition by_symbol :: "Trade list \<Rightarrow> string \<Rightarrow> Trade list" where
  "by_symbol ts s = filter (\<lambda>t. t_Symbol t = s) ts"

lemma by_symbol_simps [simp]:
  "by_symbol [] = (\<lambda>_. [])"
  "by_symbol (ts @ [t]) = (by_symbol ts)(t_Symbol t := by_symbol ts (t_Symbol t) @ [t])"
  by (auto simp: by_symbol_def fun_eq_iff)

lemma forward_trade_cases:
  obtains (idle) "forward_trade s w = w"
  | (moved) e trade rest where "om_engines w s = Some e" "e_TradeCh e = trade # rest" "length (om_tradeCh w) < oms_trade_cap"
      "forward_trade s w = w\<lparr>om_tradeCh := om_tradeCh w @ [trade], om_engines := (om_engines w)(s \<mapsto> e\<lparr>e_TradeCh := rest\<rparr>)\<rparr>"
proof (cases "\<exists>e trade rest. om_engines w s = Some e \<and> e_TradeCh e = trade # rest \<and> length (om_tradeCh w) < oms_trade_cap")
  case False
  then have "forward_trade s w = w" by (auto simp: forward_trade_def split: option.splits list.splits)
  then show thesis by (rule idle)
next
  case True
  then obtain e trade rest where "om_engines w s = Some e" "e_TradeCh e = trade # rest" "length (om_tradeCh w) < oms_trade_cap"
    by blast
  then show thesis by (rule moved) (simp add: forward_trade_def \<open>om_engines w s = Some e\<close> \<open>e_TradeCh e = trade # rest\<close>
      \<open>length (om_tradeCh w) < oms_trade_cap\<close>)
qed

lemma oms_inv_forward:
  assumes inv: "oms_inv (by_symbol hs) w"
  shows "\<exists>new. om_tradeCh (forward_trade s w) = om_tradeCh w @ new \<and> oms_inv (by_symbol (hs @ new)) (forward_trade s w)"
proof (cases rule: forward_trade_cases [where s = s and w = w])
  case idle
  with inv show ?thesis by (intro exI [of _ "[]"]) simp
next
  case (moved e trade rest)
  obtain ob where ob: "om_orderBooks w s = Some ob" using oms_inv_engineE [OF inv moved(1)] .
  have tr: "tracked (by_symbol hs s) (view s ob e w)" and sym: "ob_Symbol ob = s"
    using oms_inv_someD [OF inv ob moved(1)] by blast+
  obtain lost where "sys_run (by_symbol hs s) lost (view s ob e w)" using tr by (auto simp: tracked_def)
  from sys_run_ledger [OF this] have trade: "t_Symbol trade = s"
    using moved(2) sym by (simp add: ledger_def view_def)
  have "tracked (by_symbol hs s @ [trade]) \<lparr>s_heap = visible (seen s w) (om_heap w), s_book = ob,
      s_engine = e\<lparr>e_TradeCh := rest\<rparr>, s_next = om_next w\<rparr>"
    using tracked_deliver [OF tr, of trade rest] moved(2) by (simp add: sys_deliver_def view_def)
  then have "oms_inv ((by_symbol hs)(s := by_symbol hs s @ [trade])) (forward_trade s w)"
    by (intro oms_inv_book_step [OF inv ob moved(1)]) (use ob in \<open>simp_all add: moved(4) fun_upd_idem\<close>)
  then show ?thesis using trade by (intro exI [of _ "[trade]"]) (simp add: moved(4))
qed

text \<open>A new symbol starts from an empty book; its orders so far, if any, never reached one.\<close>

lemma tracked_skip:
  assumes "\<And>p. p < n \<Longrightarrow> ord_ok (h p) \<and> o_FilledQty (h p) = 0"
  shows "tracked [] ((sys_init s exch h)\<lparr>s_next := n\<rparr>)"
  using assms
proof (induction n)
  case 0
  show ?case using tracked_init [of s exch h] by (simp add: sys_init_def)
next
  case (Suc n)
  then have "tracked [] ((sys_init s exch h)\<lparr>s_next := n\<rparr>)" by simp
  then have "tracked [] (sys_other (h n) ((sys_init s exch h)\<lparr>s_next := n\<rparr>))"
    using Suc.prems [of n] by (intro tracked_other) auto
  then show ?case by (simp add: sys_other_def sys_init_def)
qed

lemma oms_inv_AddSymbol:
  assumes inv: "oms_inv L w"
  shows "oms_inv L (AddSymbol s exch w)"
proof (cases "om_orderBooks w s")
  case (Some ob)
  with inv show ?thesis by (simp add: AddSymbol_def)
next
  case None
  let ?w = "AddSymbol s exch w" let ?h = "visible (seen s w) (om_heap w)"
  from inv have "symbol_ok (L s) s w" by (simp add: oms_inv_def)
  then have un: "untraded s w" "L s = []" using None by (cases rule: symbol_okE; simp)+
  have "ord_ok (?h p) \<and> o_FilledQty (?h p) = 0" if "p < om_next w" for p
    using un(1) that by (cases "p \<in> seen s w") (auto simp: untraded_def seen_def)
  then have "tracked [] ((sys_init s exch ?h)\<lparr>s_next := om_next w\<rparr>)" by (rule tracked_skip)
  then have "symbol_ok (L s) s ?w"
    using None un(2) by (simp add: symbol_ok_def AddSymbol_def view_def seen_def sys_init_def refs_def NewOrderBook_def level_orders_def)
  moreover have "symbol_ok (L t) t ?w" if "t \<noteq> s" for t
    by (rule symbol_ok_cong [of _ t w]) (use inv that None in \<open>simp_all add: oms_inv_def AddSymbol_def\<close>)
  ultimately have "\<forall>t. symbol_ok (L t) t ?w" by metis
  then show ?thesis using inv None by (simp add: oms_inv_def gtt_quantities_def AddSymbol_def)
qed

text \<open>
  Room for \<open>n\<close> more events in every book. The service keeps the contract that the GTT manager has with
  its order placer: placing an order keeps the invariant and uses up the room for one event.
\<close>

definition spare :: "nat \<Rightarrow> ('r, 'd) OMS \<Rightarrow> bool" where
  "spare n w \<longleftrightarrow> (\<forall>s ob. om_orderBooks w s = Some ob \<longrightarrow> length (ob_EventCh ob) + n \<le> event_cap)"

lemma spare_room: "spare (Suc n) w \<Longrightarrow> room s w"
  by (fastforce simp: spare_def room_def)

lemma spare_less: "spare (Suc n) w \<Longrightarrow> spare n w"
  by (fastforce simp: spare_def)

lemma ob_Add_events:
  assumes "ob_Add now p st = ((h, ob), None)"
  shows "length (ob_EventCh ob) = Suc (length (ob_EventCh (snd st)))"
  using assms by (cases st) (auto simp: ob_Add_def send_event_def Let_def split: if_splits)

lemma spare_place_new:
  assumes "spare (Suc n) w"
  shows "spare n (fst (fst (place_new E now f x w)))"
proof -
  obtain w' err where po: "PlaceOrder E now f (om_next w) (alloc_order x w) = (w', err)" by fastforce
  then have "spare n w'"
  proof (cases rule: PlaceOrder_cases)
    case (failed y)
    then show ?thesis using spare_less [OF assms] by (simp add: spare_def)
  next
    case (booked book h ob)
    then show ?thesis using assms ob_Add_events [OF booked(6)] spare_less [OF assms]
      by (auto simp: spare_def)
  qed
  with po show ?thesis by (simp add: place_new_def Let_def)
qed

interpretation placer: order_placer "place_new E now f" "\<lambda>n w. oms_inv L w \<and> spare n w" for E now f L
  by unfold_locales (auto intro: oms_inv_place_new spare_place_new spare_room spare_less)

lemma oms_inv_gtt_scan:
  assumes inv: "oms_inv L w" and spare: "spare (length keys) w"
  shows "oms_inv L (gtt_scan E now f keys w)"
proof -
  let ?st = "scan (place_new E now f) (\<lambda>w s. redis_GetLTP (en_redis E) s (om_redis w)) now keys (om_gttManager w, w)"
  have "quantities (om_gttManager w)" using inv by (simp add: oms_inv_def gtt_quantities_def quantities_def)
  then have S: "quantities (fst ?st)" "oms_inv L (snd ?st)"
    using placer.scan_ready [where m = "om_gttManager w" and n = 0 and keys = keys and w = w] inv spare by simp_all
  from S(2) have "oms_inv L ((snd ?st)\<lparr>om_gttManager := fst ?st\<rparr>)"
    by (rule oms_inv_same) (use S(1) in \<open>simp_all add: gtt_quantities_def quantities_def\<close>)
  then show ?thesis by (simp add: gtt_scan_def Let_def case_prod_unfold)
qed

section \<open>Runs of the service\<close>

text \<open>
  Adding to a book and cancelling proceed when the book's event channel has room, as the blocking send
  does. Recovery takes the stored orders one at a time; they are orders as \<^verbatim>\<open>PlaceOrder\<close> stored them:
  a positive quantity, nothing filled, a numeric price. The last rules are the steps of what runs
  beside the service: the hub's loop and pumps, the archive's writer, and other clients of the two
  databases.
\<close>

text \<open>
  \<^verbatim>\<open>PlaceOrder\<close> and \<^verbatim>\<open>CancelOrder\<close> hold no lock of their own, so other goroutines run between their calls to
  Redis, book, archive and hub. The pieces of the placement of the object at \<open>p\<close>:
\<close>

inductive place_step :: "('r, 'd) env \<Rightarrow> addr \<Rightarrow> ('r, 'd) OMS \<Rightarrow> ('r, 'd) OMS \<Rightarrow> bool" for E p where
  block: "place_step E p w (w\<lparr>om_redis := fst (redis_BlockMargin (en_redis E) c amount (om_redis w))\<rparr>)"
| release: "place_step E p w (release_margin E c amount w)"
| save: "place_step E p w (w\<lparr>om_redis := fst (SaveOrder (en_redis E) (om_heap w p) (om_redis w))\<rparr>)"
| status: "idle_order p w \<Longrightarrow> place_step E p w (put_order p (UpdateStatus now st msg (om_heap w p)) w)"
| accept: "idle_order p w \<Longrightarrow> place_step E p w (put_order p (accepted now (om_heap w p)) w)"
| book: "idle_order p w \<Longrightarrow> admitted (om_heap w p) \<Longrightarrow> om_orderBooks w (o_Symbol (om_heap w p)) = Some ob \<Longrightarrow>
    room (o_Symbol (om_heap w p)) w \<Longrightarrow>
    place_step E p w (put_book (o_Symbol (om_heap w p)) (fst (ob_Add now p (om_heap w, ob))) w)"
| announce: "p < om_next w \<Longrightarrow>
    place_step E p w (w\<lparr>om_postgres := map_option (SaveOrderAsync p) (om_postgres w),
      om_wsHub := BroadcastOrderUpdate now (o_ClientID (om_heap w p)) (placed_payload (om_heap w p)) (om_wsHub w)\<rparr>)"

inductive oms_step :: "('r, 'd) env \<Rightarrow> ('r, 'd) OMS \<Rightarrow> ('r, 'd) OMS \<Rightarrow> bool" for E where
  place: "in64 (o_Quantity x) \<Longrightarrow> o_FilledQty x = 0 \<Longrightarrow> room (o_Symbol x) w \<Longrightarrow>
    oms_step E w (fst (fst (place_new E now f x w)))"
| cancel: "(\<And>s. room s w) \<Longrightarrow> oms_step E w (fst (CancelOrder E now oid w))"
| alloc: "in64 (o_Quantity x) \<Longrightarrow> o_FilledQty x = 0 \<Longrightarrow> oms_step E w (alloc_order x w)"
| stage: "place_step E p w w' \<Longrightarrow> oms_step E w w'"
| cancel_book: "om_orderBooks w s = Some ob \<Longrightarrow> room s w \<Longrightarrow>
    oms_step E w (put_book s (fst (ob_Cancel now oid (om_heap w, ob))) w)"
| recover: "admitted x \<Longrightarrow> room (o_Symbol x) w \<Longrightarrow> oms_step E w (recover_order now x w)"
| matched: "oms_step E w (match_symbol now s w)"
| forward: "oms_step E w (forward_trade s w)"
| consume_trade: "oms_step E w (consumeTrades_step E now w)"
| consume_position: "oms_step E w (consumePositionEvents_step now w)"
| consume_gtt: "oms_step E w (consumeGTTEvents_step now w)"
| quote: "oms_step E w (snd (on_quote E q ((now, keys), w)))"
| register: "oms_step E w (fst (RegisterClient E clientID balance w))"
| add_symbol: "oms_step E w (AddSymbol s exch w)"
| gtt_add: "in64 (g_Quantity g) \<Longrightarrow>
    oms_step E w (w\<lparr>om_gttManager := fst (fst (gtt_Add now g (om_gttManager w)))\<rparr>)"
| gtt_cancel: "oms_step E w (w\<lparr>om_gttManager := fst (gtt_Cancel now k (om_gttManager w))\<rparr>)"
| gtt_scan: "spare (length keys) w \<Longrightarrow> oms_step E w (gtt_scan E now f keys w)"
| refresh: "oms_step E w (refresh_position E k w)"
| hub: "hub_step (om_wsHub w) hub \<Longrightarrow> oms_step E w (w\<lparr>om_wsHub := hub\<rparr>)"
| archive: "om_postgres w = Some d \<Longrightarrow> asyncWriter_step (en_pg E) (om_heap w) ev d = Some (d', jobs) \<Longrightarrow>
    oms_step E w (w\<lparr>om_postgres := Some d'\<rparr>)"
| redis: "oms_step E w (w\<lparr>om_redis := r\<rparr>)"
| database: "oms_step E w (w\<lparr>om_postgres := map_option (\<lambda>d. d\<lparr>db_state := z\<rparr>) (om_postgres w)\<rparr>)"

inductive oms_reachable :: "('r, 'd) env \<Rightarrow> ('r, 'd) OMS \<Rightarrow> bool" for E where
  start: "oms_reachable E (snd (NewOMS E simMode objs h r pgDB))"
| step: "oms_reachable E w \<Longrightarrow> oms_step E w w' \<Longrightarrow> oms_reachable E w'"

inductive_cases oms_stepE: "oms_step E w w'"

lemma oms_inv_NewOMS: "oms_inv (\<lambda>_. []) (snd (NewOMS E simMode objs h r pgDB))"
  by (simp add: oms_inv_def NewOMS_def symbol_ok_def untraded_def gtt_quantities_def NewGManager_def)

lemma oms_inv_quiet:
  assumes "oms_inv L w" "om_orderBooks w' = om_orderBooks w" "om_engines w' = om_engines w"
    and "om_next w' = om_next w" "om_heap w' = om_heap w" "quantities (om_gttManager w')"
  shows "oms_inv L w'"
  by (rule oms_inv_same [OF assms(1-5)]) (use assms(6) in \<open>simp add: gtt_quantities_def quantities_def\<close>)

lemma oms_inv_stage:
  assumes "place_step E p w w'" "oms_inv L w"
  shows "oms_inv L w'"
  using assms(1)
proof (cases rule: place_step.cases)
  case (status now st msg)
  then show ?thesis
    by (intro oms_inv_touch [OF assms(2), where p = p and y = "UpdateStatus now st msg (om_heap w p)"]) (simp_all add: put_order_def idle_order_def)
next
  case (accept now)
  then show ?thesis
    by (intro oms_inv_touch [OF assms(2), where p = p and y = "accepted now (om_heap w p)"]) (simp_all add: put_order_def idle_order_def)
next
  case (book ob now)
  obtain h ob1 err where add: "ob_Add now p (om_heap w, ob) = ((h, ob1), err)" by (metis prod.collapse)
  show ?thesis
  proof (cases err)
    case None
    show ?thesis
      by (rule oms_inv_book_at [OF assms(2) book(2-5) add [unfolded None]]) (simp_all add: book(1) put_book_def add)
  next
    case (Some e)
    then have "(h, ob1) = (om_heap w, ob)" using add by (auto simp: ob_Add_def Let_def split: if_splits)
    then have "w' = w" using book(4) by (simp add: book(1) put_book_def add fun_upd_idem)
    with assms(2) show ?thesis by simp
  qed
qed (rule oms_inv_same [OF assms(2)]; use assms(2) in \<open>simp add: release_margin_def oms_inv_def gtt_quantities_def\<close>)+

text \<open>Apart from forwarding, no step hands out trades.\<close>

lemma oms_inv_step:
  assumes "oms_step E w w'" and inv: "oms_inv L w" and other: "\<And>s. w' \<noteq> forward_trade s w"
  shows "oms_inv L w'"
proof -
  have q: "quantities (om_gttManager w)" using inv by (simp add: oms_inv_def gtt_quantities_def quantities_def)
  note quiet = oms_inv_quiet [OF inv]
  from assms(1) show ?thesis
  proof (cases rule: oms_step.cases)
    case (forward s)
    with other show ?thesis by blast
  next
    case (stage p)
    then show ?thesis using oms_inv_stage inv by blast
  next
    case (alloc x)
    then show ?thesis using oms_inv_alloc [OF inv] by simp
  next
    case (cancel_book s ob now oid)
    then show ?thesis using oms_inv_cancel_only [OF inv] by simp
  next
    case (consume_trade now)
    show ?thesis unfolding consume_trade
      by (rule quiet) (use q in \<open>simp_all add: consumeTrades_step_def Let_def split: list.split sum.split\<close>)
  next
    case (consume_position now)
    show ?thesis unfolding consume_position
      by (rule quiet) (use q in \<open>simp_all add: consumePositionEvents_step_def Let_def split: list.split\<close>)
  next
    case (consume_gtt now)
    show ?thesis unfolding consume_gtt
      by (rule quiet) (use q in \<open>simp_all add: consumeGTTEvents_step_def quantities_def Let_def split: list.split option.split\<close>)
  next
    case (quote q now keys)
    show ?thesis unfolding quote by (rule quiet) (use \<open>quantities _\<close> in \<open>simp_all add: on_quote_def Let_def\<close>)
  next
    case (refresh k)
    show ?thesis unfolding refresh by (rule quiet) (use q in \<open>simp_all add: refresh_position_def split: option.split\<close>)
  next
    case (register clientID balance)
    show ?thesis unfolding register
      by (rule quiet) (use q in \<open>simp_all add: RegisterClient_def Let_def split: prod.split option.split\<close>)
  next
    case (gtt_add g now)
    show ?thesis unfolding gtt_add(1)
      by (rule quiet) (use q gtt_add(2) in \<open>auto simp: gtt_Add_def quantities_def Let_def\<close>)
  next
    case (gtt_cancel now k)
    show ?thesis unfolding gtt_cancel
      by (rule quiet) (use q in \<open>auto simp: gtt_Cancel_def quantities_def split: option.split\<close>)
  next
    case (hub h)
    show ?thesis unfolding hub(1) by (rule quiet) (use q in simp_all)
  next
    case (archive d ev d' jobs)
    show ?thesis unfolding archive(1) by (rule quiet) (use q in simp_all)
  next
    case (redis r)
    show ?thesis unfolding redis by (rule quiet) (use q in simp_all)
  next
    case (database z)
    show ?thesis unfolding database by (rule quiet) (use q in simp_all)
  qed (use inv in \<open>auto intro: oms_inv_place_new oms_inv_cancel oms_inv_recover oms_inv_match
      oms_inv_AddSymbol oms_inv_gtt_scan\<close>)
qed

lemma oms_reachable_inv: "oms_reachable E w \<Longrightarrow> \<exists>hs. oms_inv (by_symbol hs) w"
proof (induction rule: oms_reachable.induct)
  case (start simMode objs h r pgDB)
  show ?case using oms_inv_NewOMS by (intro exI [of _ "[]"]) simp
next
  case (step w w')
  then obtain hs where inv: "oms_inv (by_symbol hs) w" by blast
  show ?case
  proof (cases "\<exists>s. w' = forward_trade s w")
    case True
    then show ?thesis using oms_inv_forward [OF inv] by blast
  qed (use oms_inv_step [OF step.hyps(2) inv] in blast)
qed

lemma oms_reachable_bookE:
  assumes "oms_reachable E w" "om_orderBooks w s = Some ob"
  obtains e where "om_engines w s = Some e" "refs ob \<subseteq> seen s w" "reachable (view s ob e w)"
proof -
  obtain hs where "oms_inv (by_symbol hs) w" using oms_reachable_inv [OF assms(1)] by blast
  then show thesis using assms(2) that tracked_reachable by (elim oms_inv_bookE) auto
qed

section \<open>Placing an order, piece by piece\<close>

lemma idle_order_same:
  "idle_order p w \<Longrightarrow> om_orderBooks w' = om_orderBooks w \<Longrightarrow> om_next w' = om_next w \<Longrightarrow>
   o_FilledQty (om_heap w' p) = o_FilledQty (om_heap w p) \<Longrightarrow> idle_order p w'"
  by (simp add: idle_order_def)

lemma reject_order_stages:
  assumes "idle_order p w"
  shows "(place_step E p)\<^sup>*\<^sup>* w (reject_order E now p msg w)"
proof -
  let ?w = "put_order p (UpdateStatus now StatusRejected msg (om_heap w p)) w"
  have "place_step E p w ?w" by (rule place_step.status [OF assms])
  moreover have "place_step E p ?w (reject_order E now p msg w)"
    using place_step.save [of E p ?w] by (simp add: reject_order_def Let_def)
  ultimately show ?thesis by (meson converse_rtranclp_into_rtranclp rtranclp.rtrancl_refl)
qed

lemma book_order_stages:
  assumes idle: "idle_order p w" and qty: "in64 (o_Quantity (om_heap w p))" and valid: "validateBasics (om_heap w p) = None"
    and room: "room (o_Symbol (om_heap w p)) w"
  shows "(place_step E p)\<^sup>*\<^sup>* w (fst (book_order E now p amount w))"
proof -
  let ?x = "om_heap w p" let ?s = "o_Symbol (om_heap w p)"
  let ?w1 = "put_order p (accepted now ?x) w"
  obtain s serr where save: "SaveOrder (en_redis E) (accepted now ?x) (om_redis w) = (s, serr)" by fastforce
  let ?w2 = "?w1\<lparr>om_redis := s\<rparr>"
  have "place_step E p w ?w1" by (rule place_step.accept [OF idle])
  moreover have "place_step E p ?w1 ?w2" using place_step.save [of E p ?w1] by (simp add: put_order_def save)
  ultimately have two: "(place_step E p)\<^sup>*\<^sup>* w ?w2" by (meson converse_rtranclp_into_rtranclp rtranclp.rtrancl_refl)
  show ?thesis
  proof (cases "serr = None \<and> (\<exists>book st. om_orderBooks w ?s = Some book \<and>
      ob_Add now p ((om_heap w)(p := accepted now ?x), book) = (st, None))")
    case False
    then have "fst (book_order E now p amount w) = release_margin E (o_ClientID ?x) amount ?w2"
      using save by (auto simp: book_order_def put_order_def accepted_def [symmetric] Let_def split: option.splits prod.splits)
    with two place_step.release [of E p ?w2] show ?thesis by (metis rtranclp.rtrancl_into_rtrancl)
  next
    case True
    then obtain book st where b: "om_orderBooks w ?s = Some book" "serr = None"
      "ob_Add now p ((om_heap w)(p := accepted now ?x), book) = (st, None)" by blast
    let ?w3 = "put_book ?s st ?w2"
    have "o_Price ?x \<noteq> NaN" using SaveOrder_finite [of "en_redis E" "accepted now ?x" "om_redis w" s] save b(2) by simp
    then have "admitted (accepted now ?x)" using idle qty valid by (intro booked_admitted) (simp_all add: idle_order_def)
    moreover have "idle_order p ?w2" using idle by (rule idle_order_same) (simp_all add: put_order_def)
    moreover have "room ?s ?w2" using room by (simp add: room_def put_order_def)
    ultimately have "place_step E p ?w2 ?w3"
      using place_step.book [of p ?w2 book E now] b by (simp add: put_order_def)
    moreover have "o_ClientID (om_heap ?w3 p) = o_ClientID ?x" "om_next ?w3 = om_next w"
      using b(3) by (auto simp: ob_Add_def put_book_def put_order_def Let_def split: if_splits)
    then have "place_step E p ?w3 (fst (book_order E now p amount w))"
      using place_step.announce [of p ?w3 E now] idle save b
      by (simp add: book_order_def put_order_def accepted_def [symmetric] Let_def idle_order_def)
    ultimately show ?thesis using two by (meson rtranclp.rtrancl_into_rtrancl)
  qed
qed

section \<open>Properties\<close>


text \<open>C9: The service is a composition of independent symbols: in every reachable state of the service, for
  every symbol with a book, hiding the orders of other symbols leaves a reachable state of the
  single-symbol system, and the book and its events refer only to orders of their symbol.\<close>

theorem oms_refines_symbol_systems:
  assumes "oms_reachable E w" "om_orderBooks w s = Some ob"
  shows "\<exists>e. om_engines w s = Some e \<and> reachable (view s ob e w) \<and> refs ob \<subseteq> seen s w"
  using oms_reachable_bookE [OF assms] by blast

text \<open>Two orders of one symbol, recovered and matched.\<close>

definition ex_env :: "(Mem, statement list) env" where
  "ex_env = \<lparr>en_redis = mem_redis, en_pg = ex_pg, en_text = (\<lambda>_. [])\<rparr>"

definition ex_oms0 :: "(Mem, statement list) OMS" where
  "ex_oms0 = AddSymbol ''RELIANCE'' NSE
     (snd (NewOMS ex_env True (\<lambda>_. ex_client) (\<lambda>_. no_order) mem_empty None))"

definition ex_stored :: "string \<Rightarrow> OrderSide \<Rightarrow> rat \<Rightarrow> int \<Rightarrow> Order" where
  "ex_stored oid side price qty = (ex_new_order oid side price qty)\<lparr>o_Symbol := ''RELIANCE''\<rparr>"

definition ex_oms1 :: "(Mem, statement list) OMS" where
  "ex_oms1 = recover_order 3 (ex_stored ''S2'' Sell 2510 50) (recover_order 2 (ex_stored ''B1'' Buy 2505 120) ex_oms0)"

definition ex_oms2 :: "(Mem, statement list) OMS" where
  "ex_oms2 = match_symbol 5 ''RELIANCE'' (match_symbol 4 ''RELIANCE'' ex_oms1)"

lemma ex_stored_simps [simp]:
  "o_OrderID (ex_stored i s p q) = i" "o_Side (ex_stored i s p q) = s" "o_Price (ex_stored i s p q) = Fin p"
  "o_Quantity (ex_stored i s p q) = q" "o_RemainingQty (ex_stored i s p q) = q" "o_FilledQty (ex_stored i s p q) = 0"
  "o_OrderType (ex_stored i s p q) = Limit" "o_Symbol (ex_stored i s p q) = ''RELIANCE''"
  by (simp_all add: ex_stored_def)

lemmas oms_eval = recover_order_def match_symbol_def put_book_def ex_oms0_def NewOMS_def AddSymbol_def sys_eval

lemma ex_admitted_stored: "0 < q \<Longrightarrow> q < 1000 \<Longrightarrow> admitted (ex_stored i s p q)"
  by (simp add: admitted_def qty_ok_def in64_def)

lemma ex_oms_reachable: "oms_reachable ex_env ex_oms0" "oms_reachable ex_env ex_oms1" "oms_reachable ex_env ex_oms2"
proof -
  show 0: "oms_reachable ex_env ex_oms0"
    unfolding ex_oms0_def by (intro oms_reachable.step [OF oms_reachable.start oms_step.add_symbol])
  show 1: "oms_reachable ex_env ex_oms1"
    unfolding ex_oms1_def
    by (intro oms_reachable.step [OF _ oms_step.recover] 0 ex_admitted_stored)
      (simp_all add: room_def event_cap_def oms_eval)
  show "oms_reachable ex_env ex_oms2"
    unfolding ex_oms2_def by (intro oms_reachable.step [OF _ oms_step.matched] 1)
qed

lemma ex_oms2_book:
  "\<exists>ob. om_orderBooks ex_oms2 ''RELIANCE'' = Some ob \<and> ob_EventCh ob = [] \<and>
     level_orders (ob_bids ob) = [0] \<and> level_orders (ob_asks ob) = [1]"
  "IsActive (om_heap ex_oms2 0)" "IsActive (om_heap ex_oms2 1)"
  by (simp_all add: ex_oms2_def ex_oms1_def oms_eval)


theorem oms_refines_symbol_systems_witness:
  "\<exists>ob e. om_orderBooks ex_oms2 ''RELIANCE'' = Some ob \<and> om_engines ex_oms2 ''RELIANCE'' = Some e \<and>
     reachable (view ''RELIANCE'' ob e ex_oms2)"
  using oms_refines_symbol_systems [OF ex_oms_reachable(3)] ex_oms2_book(1) by blast

text \<open>No book of the service stays crossed: in every reachable state, a book whose new orders have all
  been processed has no active buy order at or above the price of an active sell order; every
  order in a book or its event queue has sound quantities.\<close>

lemma oms_books_not_crossed:
  assumes "oms_reachable E w" "om_orderBooks w s = Some ob"
    and "\<forall>ev \<in> set (ob_EventCh ob). ev_Type ev \<noteq> EventNewOrder"
    and "b \<in> set (level_orders (ob_bids ob))" "a \<in> set (level_orders (ob_asks ob))"
    and "IsActive (om_heap w b)" "IsActive (om_heap w a)"
  shows "\<not> fle (o_Price (om_heap w a)) (o_Price (om_heap w b)) \<and> ord_ok (om_heap w a) \<and> ord_ok (om_heap w b)"
proof -
  obtain e where e: "refs ob \<subseteq> seen s w" "reachable (view s ob e w)"
    using oms_reachable_bookE [OF assms(1,2)] .
  have ab: "a \<in> seen s w" "b \<in> seen s w" using e(1) assms(4,5) by (auto simp: refs_def)
  have "crossed_pending (s_heap (view s ob e w)) ob" using reachable_inv [OF e(2)] by (simp add: sys_inv_def view_def)
  moreover have "\<not> pending p ob" for p using assms(3) by (auto simp: pending_def)
  ultimately have "\<not> crossing (s_heap (view s ob e w)) ob b a" by (auto simp: crossed_pending_def)
  then show ?thesis using assms(4-7) ab by (simp add: crossing_def view_def) (simp add: seen_def)
qed

lemma oms_books_not_crossed_witness:
  "\<not> fle (o_Price (om_heap ex_oms2 1)) (o_Price (om_heap ex_oms2 0))"
proof -
  obtain ob where ob: "om_orderBooks ex_oms2 ''RELIANCE'' = Some ob" "ob_EventCh ob = []"
    "level_orders (ob_bids ob) = [0]" "level_orders (ob_asks ob) = [1]"
    using ex_oms2_book(1) by blast
  show ?thesis
    using oms_books_not_crossed [OF ex_oms_reachable(3) ob(1), of 0 1] ob(2-4) ex_oms2_book(2,3) by simp
qed

end
