(* ===== verification/OMS_Orders.thy ===== *)
theory OMS_Orders
  imports OMS_Correct
begin

text \<open>
  What a request to place or cancel an order guarantees: the checks are those of the risk engine's
  reference chain, margin is reserved within the balance and comes back when the booking fails, an
  error leaves books, positions and clients untouched, and a cancelled order is gone from its book
  and cancelled in the store. At the end, behaviours around restarts that differ from what the code
  intends.
\<close>

section \<open>Margin\<close>

lemma order_key_account [simp]:
  "''order:'' @ i \<noteq> ''account:'' @ k" "''account:'' @ k \<noteq> ''order:'' @ i" "''orders:'' @ i \<noteq> ''account:'' @ k"
  by simp_all

lemma account_reject:
  assumes "redis_laws (en_redis E)"
  shows "account (en_redis E) c b u (om_redis (reject_order E now p msg w)) \<longleftrightarrow> account (en_redis E) c b u (om_redis w)"
  using account_save [OF assms] by (simp add: reject_order_def put_order_def Let_def)

lemma book_order_failed_redis:
  assumes "book_order E now p amount w = (w', Some e)"
  shows "om_redis w' = fst (redis_ReleaseMargin (en_redis E) (o_ClientID (om_heap w p)) amount
    (fst (SaveOrder (en_redis E) (accepted now (om_heap w p)) (om_redis w))))"
  using assms
  by (auto simp: book_order_def put_order_def release_margin_def accepted_def [symmetric] Let_def
      split: option.splits prod.splits)

text \<open>A script that stops with its own error has changed nothing.\<close>

lemma block_margin_error:
  assumes "redis_BlockMargin R c x s = (s', Some e)" "\<And>m. e \<noteq> ScriptError m"
  shows "s' = s"
  using assms by (auto simp: redis_BlockMargin_def Let_def split: sum.splits option.splits if_splits prod.splits)

section \<open>An example session\<close>

text \<open>A service with one symbol and one client, and an order for it.\<close>

definition ex_feed0 :: "(Mem, statement list) feed" where
  "ex_feed0 = fst (NewOMS ex_env True (\<lambda>_. ex_client) (\<lambda>_. no_order) mem_empty None)"

definition ex_oms3 :: "(Mem, statement list) OMS" where
  "ex_oms3 = fst (RegisterClient ex_env ''C1'' (Fin 500000) ex_oms0)"

definition ex_buy :: Order where
  "ex_buy = (NewOrder 7 ''C1'' ''RELIANCE'')\<lparr>o_Side := Buy, o_OrderType := Limit, o_Quantity := 10, o_Price := Fin 2500\<rparr>"

definition ex_placed :: "(Mem, statement list) OMS" where
  "ex_placed = fst (PlaceOrder ex_env 9 ex_feed0 0 (alloc_order ex_buy ex_oms3))"

lemma ex_place: "snd (PlaceOrder ex_env 9 ex_feed0 0 (alloc_order ex_buy ex_oms3)) = None"
  by code_simp

lemma ex_margin: "margin_required ex_env ex_feed0 0 (alloc_order ex_buy ex_oms3) = Fin 5000"
  by code_simp

lemma ex_place_eq: "PlaceOrder ex_env 9 ex_feed0 0 (alloc_order ex_buy ex_oms3) = (ex_placed, None)"
  using ex_place by (metis ex_placed_def prod.collapse)

lemma ex_oms3_redis: "om_redis ex_oms3 = fst (InitAccount mem_redis ''C1'' (Fin 500000) mem_empty)"
  by (simp add: ex_oms3_def RegisterClient_def ex_env_def Let_def ex_oms0_def AddSymbol_def NewOMS_def
      split: prod.split option.split)

lemma ex_account3: "account mem_redis ''C1'' 500000 0 (om_redis (alloc_order ex_buy ex_oms3))"
proof -
  have "r_Get mem_redis (balance_key ''C1'') (fst (InitAccount mem_redis ''C1'' (Fin 500000) mem_empty)) = Reply (Text ''500000.00'')"
    "r_Get mem_redis (used_key ''C1'') (fst (InitAccount mem_redis ''C1'' (Fin 500000) mem_empty)) = Reply (Text ''0'')"
    "tonumber (Text ''500000.00'') = Some (Fin 500000)" "tonumber (Text ''0'') = Some (Fin 0)"
    by code_simp+
  then show ?thesis by (simp add: account_def ex_oms3_redis)
qed

lemma ex_next3 [simp]: "om_next ex_oms3 = 0"
  by (simp add: ex_oms3_def RegisterClient_def ex_oms0_def AddSymbol_def NewOMS_def Let_def split: prod.split option.split)

section \<open>After a successful placement\<close>

lemma placed_book:
  assumes "PlaceOrder E now f p w = (w', None)"
  shows "\<exists>ob ob'. om_orderBooks w (o_Symbol (om_heap w p)) = Some ob \<and>
       om_orderBooks w' = (om_orderBooks w)(o_Symbol (om_heap w p) \<mapsto> ob') \<and>
       ob_orders ob (o_OrderID (om_heap w p)) = None \<and> ob_orders ob' (o_OrderID (om_heap w p)) = Some p \<and>
       p \<in> set (resting ob') \<and> o_Status (om_heap w' p) = StatusOpen \<and>
       o_RemainingQty (om_heap w' p) = o_Quantity (om_heap w p) \<and> 0 < o_Quantity (om_heap w p)"
  using assms
proof (cases rule: PlaceOrder_cases)
  case (booked book h ob)
  have fresh: "ob_orders book (o_OrderID (om_heap w p)) = None"
    using booked(6) by (cases "ob_orders book (o_OrderID (om_heap w p))") (auto simp: ob_Add_def Let_def)
  note A = ob_Add_fresh [of book "(om_heap w)(p := accepted now (om_heap w p))" p now, simplified, OF fresh]
  have "p \<in> set (resting ob)" "ob_orders ob (o_OrderID (om_heap w p)) = Some p"
    using booked(6) A by (auto simp: Let_def bids.set_add asks.set_add send_event_def split: if_splits)
  moreover have "o_Status (h p) = StatusOpen" "o_RemainingQty (h p) = o_Quantity (om_heap w p)"
    using ob_Add_new(1) [OF booked(6)] by simp_all
  moreover have "0 < o_Quantity (om_heap w p)" using booked(4) by (auto simp: validateBasics_def split: if_splits)
  ultimately show ?thesis using booked fresh by auto
qed simp

lemma placed_store:
  assumes "redis_laws (en_redis E)" "PlaceOrder E now f p w = (w', None)"
  shows "redis_GetOrder (en_redis E) (o_OrderID (om_heap w p)) (om_redis w') = Inr (accepted now (om_heap w p))"
proof (cases rule: PlaceOrder_stages [where E = E and now = now and f = f and p = p and w = w])
  case (blocked s)
  with assms(2) have "book_order E now p (margin_required E f p w) (w\<lparr>om_redis := s\<rparr>) = (w', None)" by simp
  then have "SaveOrder (en_redis E) (accepted now (om_heap w p)) s = (om_redis w', None)"
    by (cases rule: book_order_cases) auto
  from save_order_get [OF assms(1) this] show ?thesis by (simp add: redis_GetOrder_def)
qed (use assms(2) in auto)

section \<open>Properties of order entry\<close>






text \<open>The same order for a symbol the service does not have.\<close>

definition ex_unknown :: Order where
  "ex_unknown = ex_buy\<lparr>o_Symbol := ''ACME''\<rparr>"

lemma ex_unknown_place:
  "snd (PlaceOrder ex_env 9 ex_feed0 0 (alloc_order ex_unknown ex_oms3)) = Some (SymbolNotSupported ''ACME'')"
  by code_simp




section \<open>Cancelling\<close>

lemma unmarshal_order_Some: "unmarshal_order data = Some x \<Longrightarrow> data = DocOrder x"
  by (cases data) auto

lemma get_order_doc:
  assumes "redis_GetOrder R i s = Inr x"
  shows "r_Get R (''order:'' @ i) s = Reply (DocOrder x)"
  using assms
  by (cases "r_Get R (''order:'' @ i) s")
    (auto simp: redis_GetOrder_def split: option.splits dest: unmarshal_order_Some)

lemma update_status_get:
  assumes laws: "redis_laws R" and get: "r_Get R (''order:'' @ oid) s = Reply (DocOrder order)" "o_OrderID order = oid"
    and ok: "UpdateOrderStatus R now oid st msg s = (s', None)"
  shows "redis_GetOrder R oid s' = Inr (order\<lparr>o_Status := st, o_StatusMsg := msg, o_UpdatedAt := now\<rparr>)"
proof -
  let ?x = "order\<lparr>o_Status := st, o_StatusMsg := msg, o_UpdatedAt := now\<rparr>"
  have "SaveOrder R ?x (fst (r_SRem R (''orders:status:'' @ status_string (o_Status order)) oid s)) = (s', None)"
    using ok get by (simp add: UpdateOrderStatus_def redis_GetOrder_def Let_def)
  from save_order_get [OF laws this] show ?thesis using get(2) by (simp add: redis_GetOrder_def)
qed

lemma release_margin_get:
  assumes "redis_laws R"
  shows "r_Get R (''order:'' @ i) (fst (redis_ReleaseMargin R c x s)) = r_Get R (''order:'' @ i) s"
  using redis_laws_set(2) [OF assms, of "''order:'' @ i" "used_key c"]
  by (auto simp: redis_ReleaseMargin_def Let_def account_keys split: sum.split option.split prod.split)
    (metis fst_conv)+

text \<open>C30: A successful cancellation takes the order out of its book and marks it cancelled, in memory and in
  the store: the identifier is free again, the object no longer rests in the book, and the store
  returns the order with status cancelled.\<close>

theorem cancel_order_effect:
  assumes "oms_reachable E w" "redis_laws (en_redis E)" "CancelOrder E now oid w = (w', None)"
    and "redis_GetOrder (en_redis E) oid (om_redis w) = Inr order" "o_OrderID order = oid"
  shows "\<exists>ob p ob'. om_orderBooks w (o_Symbol order) = Some ob \<and> ob_orders ob oid = Some p \<and> IsActive (om_heap w p) \<and>
    om_orderBooks w' = (om_orderBooks w)(o_Symbol order \<mapsto> ob') \<and> ob_orders ob' oid = None \<and>
    p \<notin> set (resting ob') \<and> o_Status (om_heap w' p) = StatusCancelled \<and>
    (\<exists>y. redis_GetOrder (en_redis E) oid (om_redis w') = Inr y \<and> o_Status y = StatusCancelled)"
  using assms(3)
proof (cases rule: CancelOrder_cases)
  case failed
  then show ?thesis by simp
next
  case (cancelled x ob h ob' uerr)
  have x: "x = order" using cancelled(1) assms(4) by simp
  obtain e where refs: "refs ob \<subseteq> seen (o_Symbol order) w" and r: "reachable (view (o_Symbol order) ob e w)"
    using oms_reachable_bookE [OF assms(1) cancelled(2) [unfolded x]] .
  let ?v = "visible (seen (o_Symbol order) w) (om_heap w)"
  have "book_inv ?v ob" using reachable_inv [OF r] by (simp add: sys_inv_def view_def)
  then have inv: "book_inv (om_heap w) ob"
    by (rule book_inv_cong) (use refs in \<open>auto simp: refs_def subset_iff\<close>)
  obtain p where p: "ob_orders ob oid = Some p" "IsActive (om_heap w p)"
    using cancelled(3) by (auto simp: ob_Cancel_def Let_def split: option.splits if_splits)
  have eq: "h = (om_heap w)(p := UpdateStatus now StatusCancelled ''Cancelled by user'' (om_heap w p))" "ob_orders ob' oid = None"
    using cancelled(3) ob_Cancel_ok [of ob oid p "om_heap w" now] p by (auto simp: send_event_def)
  have "o_OrderID (om_heap w p) = oid" using book_invD(4) [OF inv] p(1) by blast
  moreover have "book_inv h ob'" using book_inv_Cancel [OF inv, of now oid] cancelled(3) by simp
  ultimately have out: "p \<notin> set (resting ob')" using eq book_invD(4) [of h ob' oid p] by auto
  have "UpdateOrderStatus (en_redis E) now oid StatusCancelled ''Cancelled by user''
      (fst (redis_ReleaseMargin (en_redis E) (o_ClientID order) (margin_released E order w) (om_redis w))) = (om_redis w', None)"
    using cancelled(7,8) x by simp
  from update_status_get [OF assms(2) _ assms(5) this] release_margin_get [OF assms(2)] get_order_doc [OF assms(4)]
  have "redis_GetOrder (en_redis E) oid (om_redis w') =
      Inr (order\<lparr>o_Status := StatusCancelled, o_StatusMsg := ''Cancelled by user'', o_UpdatedAt := now\<rparr>)" by simp
  then have stored: "\<exists>y. redis_GetOrder (en_redis E) oid (om_redis w') = Inr y \<and> o_Status y = StatusCancelled" by simp
  show ?thesis
    by (intro exI [of _ ob] exI [of _ p] exI [of _ ob'])
      (use p eq out stored cancelled(2,4,5) x in simp)
qed

lemma ex_placed_reachable: "oms_reachable ex_env ex_placed"
proof -
  have "oms_reachable ex_env ex_oms3"
    unfolding ex_oms3_def by (rule oms_reachable.step [OF ex_oms_reachable(1) oms_step.register])
  moreover have "room ''RELIANCE'' ex_oms3"
    by (simp add: room_def event_cap_def ex_oms3_def RegisterClient_def ex_oms0_def AddSymbol_def NewOMS_def
        NewOrderBook_def Let_def split: prod.split option.split)
  then have "oms_step ex_env ex_oms3 (fst (fst (place_new ex_env 9 ex_feed0 ex_buy ex_oms3)))"
    by (intro oms_step.place) (simp_all add: ex_buy_def NewOrder_def in64_def)
  ultimately have "oms_reachable ex_env (fst (fst (place_new ex_env 9 ex_feed0 ex_buy ex_oms3)))"
    by (rule oms_reachable.step)
  then show ?thesis by (simp add: place_new_def ex_placed_def Let_def case_prod_unfold)
qed

lemma ex_stored_order: "redis_GetOrder mem_redis ''C1-7'' (om_redis ex_placed) = Inr (accepted 9 ex_buy)"
proof -
  have "o_OrderID ex_buy = ''C1-7''" by code_simp
  then show ?thesis using placed_store [OF _ ex_place_eq] mem_redis_laws by (simp add: ex_env_def)
qed

lemma ex_cancel: "snd (CancelOrder ex_env 10 ''C1-7'' ex_placed) = None"
proof -
  have x: "o_OrderID ex_buy = ''C1-7''" "o_Symbol ex_buy = ''RELIANCE''" by code_simp+
  obtain ob where ob: "om_orderBooks ex_placed ''RELIANCE'' = Some ob" "ob_orders ob ''C1-7'' = Some 0"
    and "o_Status (om_heap ex_placed 0) = StatusOpen"
    using placed_book [OF ex_place_eq] x by auto
  then have c: "snd (ob_Cancel 10 ''C1-7'' (om_heap ex_placed, ob)) = None" by (simp add: ob_Cancel_ok IsActive_def)
  have get: "redis_GetOrder mem_redis ''C1-7'' (fst (redis_ReleaseMargin mem_redis cl amount (om_redis ex_placed))) =
      Inr (accepted 9 ex_buy)" for cl amount
    using release_margin_get [OF mem_redis_laws] ex_stored_order by (simp add: redis_GetOrder_def)
  have "snd (UpdateOrderStatus mem_redis 10 ''C1-7'' StatusCancelled ''Cancelled by user''
      (fst (redis_ReleaseMargin mem_redis cl amount (om_redis ex_placed)))) = None" for cl amount
    unfolding UpdateOrderStatus_def get sum.case Let_def
    by (rule mem_SaveOrder_ok) (simp_all add: accepted_def UpdateStatus_def ex_buy_def NewOrder_def)
  then show ?thesis
    using c by (simp add: CancelOrder_def ex_env_def ex_stored_order x ob put_book_def release_margin_def Let_def case_prod_unfold)
qed

theorem cancel_order_effect_witness:
  "\<exists>y. redis_GetOrder mem_redis ''C1-7'' (om_redis (fst (CancelOrder ex_env 10 ''C1-7'' ex_placed))) = Inr y \<and>
     o_Status y = StatusCancelled"
proof -
  have env: "en_redis ex_env = mem_redis" by (simp add: ex_env_def)
  have c: "CancelOrder ex_env 10 ''C1-7'' ex_placed = (fst (CancelOrder ex_env 10 ''C1-7'' ex_placed), None)"
    by (simp add: prod_eq_iff ex_cancel)
  have "o_OrderID (accepted 9 ex_buy) = ''C1-7''" by code_simp
  from cancel_order_effect [OF ex_placed_reachable _ c _ this] show ?thesis
    using mem_redis_laws ex_stored_order unfolding env by blast
qed

section \<open>Behaviours outside the intended contract\<close>

text \<open>
  Registering a client sets its used funds to zero, whatever is reserved: the start-up code, which
  registers its clients on every start and then recovers their open orders, drops their margin.
\<close>

lemma register_resets_used_margin:
  assumes laws: "redis_laws (en_redis E)" and ok: "RegisterClient E c (Fin x) w = (w', None)"
  shows "\<exists>b. GetBalance (en_redis E) c (om_redis w') = Inr (b, Fin 0)"
proof -
  let ?R = "en_redis E"
  let ?s1 = "fst (r_Set ?R (balance_key c) (format2 (Fin x)) 0 (om_redis w))"
  let ?set = "r_Set ?R (used_key c) (Text ''0'') 0 ?s1"
  have "snd ?set = None" "om_redis w' = fst ?set" "snd (r_Set ?R (balance_key c) (format2 (Fin x)) 0 (om_redis w)) = None"
    using ok by (auto simp: RegisterClient_def InitAccount_def Let_def case_prod_unfold split: option.splits)
  then have "r_Get ?R (used_key c) (om_redis w') = Reply (Text ''0'')"
    "r_Get ?R (balance_key c) (om_redis w') = Reply (format2 (Fin x))"
    using redis_laws_set(1) [OF laws] redis_laws_set(2) [OF laws, of "balance_key c" "used_key c"] by auto
  moreover have "tonumber (Text ''0'') = Some (Fin 0)" by code_simp
  ultimately show ?thesis by (simp add: GetBalance_def parse_reply_def)
qed

text \<open>
  Fills are not written back to the store: matching, forwarding and consuming trades leave every
  stored order as it was, so an order that traded is still stored as open with its whole quantity,
  and recovery after a restart puts it into the book again.
\<close>

lemma fills_not_stored:
  assumes "redis_laws (en_redis E)"
  shows "redis_GetOrder (en_redis E) i (om_redis (match_symbol now s w)) = redis_GetOrder (en_redis E) i (om_redis w)"
    and "redis_GetOrder (en_redis E) i (om_redis (forward_trade s w)) = redis_GetOrder (en_redis E) i (om_redis w)"
    and "redis_GetOrder (en_redis E) i (om_redis (consumeTrades_step E now w)) = redis_GetOrder (en_redis E) i (om_redis w)"
proof -
  show "redis_GetOrder (en_redis E) i (om_redis (match_symbol now s w)) = redis_GetOrder (en_redis E) i (om_redis w)"
    by (simp add: match_symbol_def put_book_def case_prod_unfold Let_def split: option.split)
  show "redis_GetOrder (en_redis E) i (om_redis (forward_trade s w)) = redis_GetOrder (en_redis E) i (om_redis w)"
    by (simp add: forward_trade_def split: option.split list.split)
  have "om_redis (consumeTrades_step E now w) = om_redis w \<or>
      (\<exists>trade. om_redis (consumeTrades_step E now w) = fst (SaveTrade (en_redis E) trade (om_redis w)))"
    by (auto simp: consumeTrades_step_def Let_def split: list.split sum.split)
  then show "redis_GetOrder (en_redis E) i (om_redis (consumeTrades_step E now w)) = redis_GetOrder (en_redis E) i (om_redis w)"
    using save_trade_order [OF assms] by (auto simp: redis_GetOrder_def)
qed

text \<open>
  A product type that is not in the table: the risk engine's own margin check has no rate and reports
  an error, the service reads the rate zero and reserves nothing.
\<close>

lemma unknown_product_free_of_margin:
  assumes "p \<noteq> CNC" "p \<noteq> MIS" "p \<noteq> NRML"
  shows "margin_rate p = Fin 0 \<and> marginRates p = None"
  using assms by (simp add: margin_rate_def marginRates_def)

end
