(* ===== verification/Handlers_Correct.thy ===== *)
theory Handlers_Correct
  imports Handlers OMS_Orders
begin

text \<open>
  The HTTP interface as a whole: the routing table is unambiguous, every request is a step of the
  service, reading requests are safe, failing requests leave the trading state alone, and an
  accepted order can be read back under the identifier of the response.
\<close>

section \<open>An example request\<close>

definition ex_body :: PlaceOrderRequest where
  "ex_body =
     \<lparr>por_ClientID = ''C1'', por_Symbol = ''RELIANCE'', por_Exchange = [], por_Side = Buy, por_OrderType = Limit,
      por_ProductType = [], por_Validity = [], por_Quantity = 10, por_Price = Fin 2500, por_TriggerPrice = Fin 0\<rparr>"

definition ex_request :: "string \<Rightarrow> string list \<Rightarrow> Request" where
  "ex_request meth path =
     \<lparr>rq_method = meth, rq_path = path, rq_order = Inr ex_body, rq_gtt = Inl ''EOF'', rq_client_id = [], rq_upgrade = None\<rparr>"

section \<open>Routing\<close>

text \<open>Two patterns that a common path matches.\<close>

fun overlap :: "segment list \<Rightarrow> segment list \<Rightarrow> bool" where
  "overlap [] [] \<longleftrightarrow> True"
| "overlap (Lit a # ps) (Lit b # qs) \<longleftrightarrow> a = b \<and> overlap ps qs"
| "overlap (_ # ps) (_ # qs) \<longleftrightarrow> overlap ps qs"
| "overlap _ _ \<longleftrightarrow> False"

lemma overlap_common: "list_all2 seg_matches ps path \<Longrightarrow> list_all2 seg_matches qs path \<Longrightarrow> overlap ps qs"
  by (induction ps qs arbitrary: path rule: overlap.induct) (auto simp: list_all2_Cons1 list_all2_Cons2)

definition conflict :: "string \<times> segment list \<times> endpoint \<Rightarrow> string \<times> segment list \<times> endpoint \<Rightarrow> bool" where
  "conflict r s \<longleftrightarrow> fst r = fst s \<and> overlap (fst (snd r)) (fst (snd s))"

lemma methods_get_post_delete: "r \<in> set Router \<Longrightarrow> fst r \<in> {''GET'', ''POST'', ''DELETE''}"
  by (auto simp: Router_def)

lemma route_conflict:
  assumes "r \<in> set Router" "s \<in> set Router" "route_matches meth path r" "route_matches meth path s"
  shows "conflict r s"
  using assms methods_get_post_delete [OF assms(1)] methods_get_post_delete [OF assms(2)]
  by (auto simp: route_matches_def method_matches_def path_matches_def conflict_def intro: overlap_common)

lemma Router_no_conflicts: "sorted_wrt (\<lambda>r s. \<not> conflict r s) Router"
  by (simp add: Router_def conflict_def)

lemma filter_at_most_one:
  assumes "sorted_wrt (\<lambda>x y. \<not> (P x \<and> P y)) xs"
  shows "length (filter P xs) \<le> 1"
  using assms
proof (induction xs)
  case (Cons x xs)
  then show ?case by (cases "P x") (auto simp: filter_empty_conv)
qed simp

text \<open>The routing table is unambiguous: no request, whatever its method and path, matches two of the
  registered patterns, so registration order does not matter and the multiplexer accepts all
  patterns.\<close>

lemma router_unambiguous: "length (filter (route_matches meth path) Router) \<le> 1"
proof (rule filter_at_most_one)
  show "sorted_wrt (\<lambda>r s. \<not> (route_matches meth path r \<and> route_matches meth path s)) Router"
    using Router_no_conflicts
    by (rule sorted_wrt_mono_rel [rotated]) (use route_conflict in blast)
qed

text \<open>The endpoint a request reaches, with the value of its wildcard.\<close>

definition route :: "Request \<Rightarrow> (endpoint \<times> string) option" where
  "route rq = map_option (\<lambda>(meth, pat, ep). (ep, PathValue pat (rq_path rq)))
     (find (route_matches (rq_method rq) (rq_path rq)) Router)"

lemma serve_cases:
  obtains (served) ep v where "route rq = Some (ep, v)"
      "serve E now f gkeys pkeys rq w = dispatch E now f gkeys pkeys ep v rq w"
  | (refused) st msg where "route rq = None" "st \<in> {404, 405}"
      "serve E now f gkeys pkeys rq w = (w, writeJSON st (BText msg))"
proof (cases "find (route_matches (rq_method rq) (rq_path rq)) Router")
  case None
  then show thesis by (cases "list_ex (path_matches (rq_path rq)) Router") (auto simp: serve_def route_def intro: refused)
next
  case (Some r)
  then show thesis by (cases r) (auto simp: serve_def route_def intro: served)
qed

lemma route_entry:
  assumes "route rq = Some (ep, v)"
  shows "\<exists>meth pat. (meth, pat, ep) \<in> set Router \<and> route_matches (rq_method rq) (rq_path rq) (meth, pat, ep)"
proof -
  from assms obtain meth pat where r: "find (route_matches (rq_method rq) (rq_path rq)) Router = Some (meth, pat, ep)"
    by (auto simp: route_def)
  then have "(meth, pat, ep) \<in> set Router \<and> route_matches (rq_method rq) (rq_path rq) (meth, pat, ep)"
    unfolding find_Some_iff by (metis nth_mem)
  then show ?thesis by blast
qed

lemma cancel_route:
  assumes "route rq = Some (ep, v)" "ep = CancelOrderEP"
  shows "rq_method rq = ''DELETE'' \<and> hd (rq_path rq) = ''orders''"
proof -
  from assms obtain meth pat where r: "(meth, pat, CancelOrderEP) \<in> set Router"
    "route_matches (rq_method rq) (rq_path rq) (meth, pat, CancelOrderEP)"
    by (auto dest: route_entry)
  then have "meth = ''DELETE''" "pat = [Lit ''orders'', Wild]" by (auto simp: Router_def)
  with r(2) show ?thesis by (auto simp: route_matches_def method_matches_def path_matches_def list_all2_Cons1)
qed

definition writes :: "endpoint \<Rightarrow> bool" where
  "writes ep \<longleftrightarrow> ep \<in> {PlaceOrderEP, CancelOrderEP, PlaceGTTEP, CancelGTTEP, EODSettlementEP}"

lemma get_reads:
  assumes "route rq = Some (ep, v)" "rq_method rq \<in> {''GET'', ''HEAD''}"
  shows "\<not> writes ep"
  using route_entry [OF assms(1)] assms(2) by (auto simp: Router_def writes_def route_matches_def method_matches_def)

section \<open>Reading requests\<close>

text \<open>Two states that differ at most in the last prices of positions and in the hub.\<close>

definition same_but_prices :: "('r, 'd) OMS \<Rightarrow> ('r, 'd) OMS \<Rightarrow> bool" where
  "same_but_prices w w' \<longleftrightarrow>
     (\<exists>m hub. w' = w\<lparr>om_posMgr := m, om_wsHub := hub\<rparr> \<and> pm_eventCh m = pm_eventCh (om_posMgr w) \<and>
       (\<forall>k. map_option (\<lambda>pos. pos\<lparr>pos_LastPrice := Fin 0\<rparr>) (pm_positions m k) =
            map_option (\<lambda>pos. pos\<lparr>pos_LastPrice := Fin 0\<rparr>) (pm_positions (om_posMgr w) k)))"

lemma same_but_prices_refl [simp]: "same_but_prices w w"
  unfolding same_but_prices_def by (intro exI [of _ "om_posMgr w"] exI [of _ "om_wsHub w"]) simp

lemma same_but_prices_hub [simp]: "same_but_prices w (w\<lparr>om_wsHub := hub\<rparr>)"
  unfolding same_but_prices_def by (intro exI [of _ "om_posMgr w"] exI [of _ hub]) simp

lemma same_but_prices_trans: "same_but_prices w w1 \<Longrightarrow> same_but_prices w1 w2 \<Longrightarrow> same_but_prices w w2"
  unfolding same_but_prices_def by fastforce

lemma same_but_prices_refresh: "same_but_prices w (refresh_position E k w)"
proof (cases "pm_positions (om_posMgr w) k")
  case (Some pos)
  then show ?thesis unfolding same_but_prices_def
    by (intro exI [of _ "put_position k (refreshed E w pos) (om_posMgr w)"] exI [of _ "om_wsHub w"])
      (simp add: refresh_position_def put_position_def refreshed_def Let_def)
qed (simp add: refresh_position_def)

lemma report_positions_steps:
  assumes "\<And>w k. P w \<Longrightarrow> P (refresh_position E k w)"
  shows "P w \<Longrightarrow> P (fst (report_positions E ks w))"
proof (induction ks arbitrary: w)
  case (Cons k ks)
  from Cons.IH [OF assms [OF Cons.prems], of k] Cons.IH [OF Cons.prems] show ?case
    by (simp add: Let_def case_prod_unfold split: option.split)
qed simp

lemma same_but_prices_report: "same_but_prices w (fst (report_positions E ks w))"
  by (rule report_positions_steps) (auto intro: same_but_prices_trans same_but_prices_refresh)

lemma handleGetPositions_fst:
  "fst (handleGetPositions E pkeys c w) = fst (report_positions E (client_keys pkeys c (om_posMgr w)) w)"
  by (simp add: handleGetPositions_def split: prod.split)

lemma reading_endpoint:
  assumes "\<not> writes ep"
  shows "same_but_prices w (fst (dispatch E now f gkeys pkeys ep v rq w))"
  using assms
  by (cases ep) (auto simp: writes_def dispatch_def handleWebSocket_def handleGetPositions_fst same_but_prices_report
      split: option.split)



section \<open>Every request is a step of the service\<close>

text \<open>The decoder reads quantities as 64-bit integers.\<close>

definition decoded_ok :: "Request \<Rightarrow> bool" where
  "decoded_ok rq \<longleftrightarrow>
     (case rq_order rq of Inl _ \<Rightarrow> True | Inr req \<Rightarrow> in64 (por_Quantity req)) \<and>
     (case rq_gtt rq of Inl _ \<Rightarrow> True | Inr req \<Rightarrow> in64 (pgr_Quantity req))"

lemma request_order_simps [simp]:
  "o_Quantity (request_order now req) = por_Quantity req" "o_FilledQty (request_order now req) = 0"
  "o_Symbol (request_order now req) = por_Symbol req" "o_ClientID (request_order now req) = por_ClientID req"
  "o_OrderID (request_order now req) = generateOrderID (por_ClientID req) now"
  by (simp_all add: request_order_def NewOrder_def)

lemma request_gtt_simps [simp]: "g_Quantity (request_gtt req) = pgr_Quantity req"
  by (simp add: request_gtt_def)

lemma handlePlaceOrder_fst:
  "fst (handlePlaceOrder E now f (Inr req) w) = fst (fst (place_new E now f (request_order now req) w))"
  by (simp add: handlePlaceOrder_def Let_def split: prod.split option.split)

lemma handleCancelOrder_fst: "fst (handleCancelOrder E now v w) = fst (CancelOrder E now v w)"
  by (simp add: handleCancelOrder_def Let_def split: prod.split option.split)

lemma handlePlaceGTT_fst:
  "fst (handlePlaceGTT now (Inr req) w) = w\<lparr>om_gttManager := fst (fst (gtt_Add now (request_gtt req) (om_gttManager w)))\<rparr>"
  by (simp add: handlePlaceGTT_def Let_def split: prod.split option.split)

lemma handleCancelGTT_fst: "fst (handleCancelGTT now v w) = w\<lparr>om_gttManager := fst (gtt_Cancel now v (om_gttManager w))\<rparr>"
  by (simp add: handleCancelGTT_def Let_def split: prod.split option.split)

lemma ServeWS_reachable:
  "oms_reachable E w \<Longrightarrow> ServeWS c (om_wsHub w) = Some hub \<Longrightarrow> oms_reachable E (w\<lparr>om_wsHub := hub\<rparr>)"
  by (rule oms_reachable.step [OF _ oms_step.hub [OF hub_step.serve]])

text \<open>The settlement writes to the database and leaves the archive's queue alone.\<close>

lemma RunEODSettlement_fst: "\<exists>z. fst (RunEODSettlement P date d) = d\<lparr>db_state := z\<rparr>"
proof (cases "pg_EODRows P date (db_state d)")
  case (Inl e)
  then show ?thesis by (intro exI [of _ "db_state d"]) (simp add: RunEODSettlement_def)
qed (auto simp: RunEODSettlement_def split: prod.split)

lemma handleEODSettlement_fst:
  "\<exists>z. fst (handleEODSettlement E now w) = w\<lparr>om_postgres := map_option (\<lambda>d. d\<lparr>db_state := z\<rparr>) (om_postgres w)\<rparr>"
proof (cases "om_postgres w")
  case None
  then show ?thesis by (simp add: handleEODSettlement_def)
next
  case (Some d)
  obtain z where "fst (RunEODSettlement (en_pg E) now d) = d\<lparr>db_state := z\<rparr>" using RunEODSettlement_fst [of "en_pg E" now d] by (elim exE)
  with Some show ?thesis
    by (intro exI [of _ z]) (cases "RunEODSettlement (en_pg E) now d",
      simp add: handleEODSettlement_def Let_def split: sum.split)
qed

lemma dispatch_reachable:
  assumes "oms_reachable E w" "\<And>s. room s w" "decoded_ok rq"
  shows "oms_reachable E (fst (dispatch E now f gkeys pkeys ep v rq w))"
proof (cases ep)
  case PlaceOrderEP
  show ?thesis
  proof (cases "rq_order rq")
    case (Inr req)
    with assms(3) have "in64 (o_Quantity (request_order now req))" by (simp add: decoded_ok_def)
    from oms_reachable.step [OF assms(1) oms_step.place [OF this _ assms(2)]] Inr show ?thesis
      by (simp add: PlaceOrderEP dispatch_def handlePlaceOrder_fst)
  qed (simp add: PlaceOrderEP dispatch_def handlePlaceOrder_def assms(1))
next
  case CancelOrderEP
  from oms_reachable.step [OF assms(1) oms_step.cancel [OF assms(2)]] show ?thesis
    by (simp add: CancelOrderEP dispatch_def handleCancelOrder_fst)
next
  case PlaceGTTEP
  show ?thesis
  proof (cases "rq_gtt rq")
    case (Inr req)
    with assms(3) have "in64 (g_Quantity (request_gtt req))" by (simp add: decoded_ok_def)
    from oms_reachable.step [OF assms(1) oms_step.gtt_add [OF this]] Inr show ?thesis
      by (simp add: PlaceGTTEP dispatch_def handlePlaceGTT_fst)
  qed (simp add: PlaceGTTEP dispatch_def handlePlaceGTT_def assms(1))
next
  case CancelGTTEP
  from oms_reachable.step [OF assms(1) oms_step.gtt_cancel] show ?thesis
    by (simp add: CancelGTTEP dispatch_def handleCancelGTT_fst)
next
  case EODSettlementEP
  obtain z where "fst (handleEODSettlement E now w) = w\<lparr>om_postgres := map_option (\<lambda>d. d\<lparr>db_state := z\<rparr>) (om_postgres w)\<rparr>"
    using handleEODSettlement_fst [of E now w] by (elim exE)
  with oms_reachable.step [OF assms(1) oms_step.database [where z = z]] show ?thesis
    by (simp add: EODSettlementEP dispatch_def)
next
  case GetPositionsEP
  have "oms_reachable E (fst (report_positions E ks w))" for ks
    by (rule report_positions_steps [of "oms_reachable E"]) (auto intro: oms_reachable.step oms_step.refresh assms(1))
  then show ?thesis by (simp add: GetPositionsEP dispatch_def handleGetPositions_fst)
qed (use assms(1) ServeWS_reachable [OF assms(1)] in \<open>auto simp: dispatch_def handleWebSocket_def split: option.split\<close>)

text \<open>C15: Every request is a step of the service: whatever the method, path and body, answering a request in
  a reachable state with room in the event queues leads to a reachable state again, so the
  guarantees for reachable states hold after any sequence of requests.\<close>

theorem requests_keep_reachable:
  assumes "oms_reachable E w" "\<And>s. room s w" "decoded_ok rq"
  shows "oms_reachable E (fst (serve E now f gkeys pkeys rq w))"
proof (cases rule: serve_cases [where rq = rq and E = E and now = now and f = f and gkeys = gkeys and pkeys = pkeys and w = w])
  case (served ep v)
  then show ?thesis using dispatch_reachable [OF assms] by simp
qed (use assms(1) in simp)

lemma ex_room: "room s ex_oms3"
  by (simp add: room_def event_cap_def ex_oms3_def RegisterClient_def ex_oms0_def AddSymbol_def NewOMS_def
      NewOrderBook_def Let_def split: prod.split option.split)

lemma ex_oms3_reachable: "oms_reachable ex_env ex_oms3"
  unfolding ex_oms3_def by (rule oms_reachable.step [OF ex_oms_reachable(1) oms_step.register])

theorem requests_keep_reachable_witness:
  "oms_reachable ex_env (fst (serve ex_env 9 ex_feed0 [] [] (ex_request ''POST'' [''orders'']) ex_oms3))"
proof (rule requests_keep_reachable [OF ex_oms3_reachable ex_room])
  show "decoded_ok (ex_request ''POST'' [''orders''])" by (simp add: decoded_ok_def ex_request_def ex_body_def in64_def)
qed

section \<open>Failing requests\<close>

lemma dispatch_error:
  assumes "dispatch E now f gkeys pkeys ep v rq w = (w', rs)" "400 \<le> rs_status rs" "ep \<noteq> CancelOrderEP"
  shows "om_orderBooks w' = om_orderBooks w \<and> om_engines w' = om_engines w \<and> om_gttManager w' = om_gttManager w \<and>
    om_tradeCh w' = om_tradeCh w"
proof -
  have reading: ?thesis if "\<not> writes ep"
    using reading_endpoint [OF that, of w E now f gkeys pkeys v rq] assms(1) by (auto simp: same_but_prices_def)
  show ?thesis
  proof (cases ep)
    case PlaceOrderEP
    show ?thesis
    proof (cases "rq_order rq")
      case (Inr req)
      let ?w = "alloc_order (request_order now req) w"
      obtain w1 err where place: "PlaceOrder E now f (om_next w) ?w = (w1, err)" by fastforce
      with assms(1,2) Inr have w1: "w1 = w'" and "err \<noteq> None"
        by (auto simp: PlaceOrderEP dispatch_def handlePlaceOrder_def place_new_def writeJSON_def Let_def split: option.splits)
      from place this(2) show ?thesis unfolding w1
        by (cases rule: PlaceOrder_cases) (simp_all add: same_core_def alloc_order_def)
    qed (use assms(1) in \<open>simp add: PlaceOrderEP dispatch_def handlePlaceOrder_def\<close>)
  next
    case PlaceGTTEP
    then show ?thesis using assms(1,2)
      by (auto simp: dispatch_def handlePlaceGTT_def gtt_Add_def writeJSON_def Let_def split: sum.splits if_splits)
  next
    case CancelGTTEP
    then show ?thesis using assms(1,2)
      by (auto simp: dispatch_def handleCancelGTT_def gtt_Cancel_def writeJSON_def Let_def split: option.splits if_splits)
  next
    case EODSettlementEP
    obtain z where "fst (handleEODSettlement E now w) = w\<lparr>om_postgres := map_option (\<lambda>d. d\<lparr>db_state := z\<rparr>) (om_postgres w)\<rparr>"
      using handleEODSettlement_fst [of E now w] by (elim exE)
    then have "w' = w\<lparr>om_postgres := map_option (\<lambda>d. d\<lparr>db_state := z\<rparr>) (om_postgres w)\<rparr>" using assms(1) by (simp add: EODSettlementEP dispatch_def prod_eq_iff)
    then show ?thesis by simp
  qed (use reading assms(3) in \<open>simp_all add: writes_def\<close>)
qed

text \<open>C33: A failing request leaves the trading state alone: unless it is the cancellation of an order, a
  request answered with an error status changes no book, no engine, no GTT order and no queued
  trade.\<close>

theorem failed_requests_keep_books:
  assumes "serve E now f gkeys pkeys rq w = (w', rs)" "400 \<le> rs_status rs"
    and "\<not> (rq_method rq = ''DELETE'' \<and> hd (rq_path rq) = ''orders'')"
  shows "om_orderBooks w' = om_orderBooks w \<and> om_engines w' = om_engines w \<and> om_gttManager w' = om_gttManager w \<and>
    om_tradeCh w' = om_tradeCh w"
proof (cases rule: serve_cases [where rq = rq and E = E and now = now and f = f and gkeys = gkeys and pkeys = pkeys and w = w])
  case (served ep v)
  have "ep \<noteq> CancelOrderEP" using cancel_route [OF served(1)] assms(3) by blast
  then show ?thesis using dispatch_error [of E now f gkeys pkeys ep v rq w w' rs] served(2) assms(1,2) by simp
qed (use assms(1) in simp)

theorem failed_requests_keep_books_witness:
  "om_orderBooks (fst (serve ex_env 9 ex_feed0 [] [] (ex_request ''POST'' [''gtt'']) ex_oms3)) = om_orderBooks ex_oms3"
proof -
  have rs: "snd (serve ex_env 9 ex_feed0 [] [] (ex_request ''POST'' [''gtt'']) ex_oms3) = writeError 400 ''invalid body: EOF''"
    by (simp add: ex_request_def serve_def Router_def route_matches_def method_matches_def path_matches_def dispatch_def
        handlePlaceGTT_def)
  then have "400 \<le> rs_status (snd (serve ex_env 9 ex_feed0 [] [] (ex_request ''POST'' [''gtt'']) ex_oms3))"
    by (simp add: writeError_def writeJSON_def)
  from failed_requests_keep_books [OF prod.collapse [symmetric] this] show ?thesis by (simp add: ex_request_def)
qed

section \<open>Reading back an accepted order\<close>

lemma placed_id:
  assumes "PlaceOrder E now f p w = (w', None)"
  shows "o_OrderID (om_heap w' p) = o_OrderID (om_heap w p)"
  using assms
proof (cases rule: PlaceOrder_cases)
  case (booked book h ob)
  then show ?thesis using ob_Add_new(1) [OF booked(6)] by simp
qed simp

lemma route_place_order:
  assumes "rq_method rq = ''POST''" "rq_path rq = [''orders'']"
  shows "serve E now f gkeys pkeys rq w = handlePlaceOrder E now f (rq_order rq) w"
  using assms by (simp add: serve_def Router_def route_matches_def method_matches_def path_matches_def dispatch_def)

lemma route_get_order:
  assumes "rq_method rq = ''GET''" "rq_path rq = [''orders'', v]" "v \<noteq> []"
  shows "serve E now f gkeys pkeys rq w = (w, handleGetOrder E v w)"
  using assms by (simp add: serve_def Router_def route_matches_def method_matches_def path_matches_def dispatch_def)


lemma ex_post_placed: "snd (PlaceOrder ex_env 9 ex_feed0 0 (alloc_order (request_order 9 ex_body) ex_oms3)) = None"
  by code_simp


end
