(* ===== verification/Server.thy ===== *)
theory Server
  imports Decimal OMS_Orders
begin

text \<open>
  The program of \<^verbatim>\<open>cmd/server/main.go\<close>: the configuration read from the environment and the start-up
  sequence up to the point where the HTTP server listens. The environment, the two connections and
  the readings of the market feed are arguments. The goroutines started on the way run beside it;
  their steps are those of the service. Shown: after recovery every book holds exactly the stored
  open orders of its symbol, and start-up ends in a reachable state of the service.
\<close>

section \<open>Configuration\<close>

definition getEnv :: "(string \<Rightarrow> string) \<Rightarrow> string \<Rightarrow> string \<Rightarrow> string" where
  "getEnv env key fallback = (if env key \<noteq> [] then env key else fallback)"

text \<open>\<^verbatim>\<open>strconv.Atoi\<close>: an optional sign, then decimal digits, in the range of a 64-bit integer.\<close>

definition Atoi_unsigned :: "string \<Rightarrow> int option" where
  "Atoi_unsigned ds = (if ds \<noteq> [] \<and> list_all is_digit ds then Some (digits_val ds) else None)"

definition Atoi :: "string \<Rightarrow> int option" where
  "Atoi s =
     (let n = (case s of
                 [] \<Rightarrow> None
               | c # ds \<Rightarrow> if c = CHR ''-'' then map_option uminus (Atoi_unsigned ds)
                           else if c = CHR ''+'' then Atoi_unsigned ds else Atoi_unsigned s)
      in case n of Some k \<Rightarrow> (if in64 k then Some k else None) | None \<Rightarrow> None)"

definition getEnvInt :: "(string \<Rightarrow> string) \<Rightarrow> string \<Rightarrow> int \<Rightarrow> int" where
  "getEnvInt env key fallback =
     (if env key \<noteq> [] then (case Atoi (env key) of Some n \<Rightarrow> n | None \<Rightarrow> fallback) else fallback)"

record Config =
  cfg_Host :: string
  cfg_Port :: int
  cfg_User :: string
  cfg_Password :: string
  cfg_DBName :: string
  cfg_SSLMode :: string

definition DSN :: "Config \<Rightarrow> string" where
  "DSN c = ''host='' @ cfg_Host c @ '' port='' @ show_int (cfg_Port c) @ '' user='' @ cfg_User c @ '' password='' @
     cfg_Password c @ '' dbname='' @ cfg_DBName c @ '' sslmode='' @ cfg_SSLMode c"

definition redisAddr :: "(string \<Rightarrow> string) \<Rightarrow> string" where
  "redisAddr env = getEnv env ''REDIS_ADDR'' ''localhost:6379''"

definition pgCfg :: "(string \<Rightarrow> string) \<Rightarrow> Config" where
  "pgCfg env =
     \<lparr>cfg_Host = getEnv env ''PG_HOST'' ''localhost'', cfg_Port = getEnvInt env ''PG_PORT'' 5432,
      cfg_User = getEnv env ''PG_USER'' ''oms_user'', cfg_Password = getEnv env ''PG_PASS'' ''oms_pass'',
      cfg_DBName = getEnv env ''PG_DB'' ''oms_db'', cfg_SSLMode = getEnv env ''PG_SSLMODE'' ''disable''\<rparr>"

definition simMode :: "(string \<Rightarrow> string) \<Rightarrow> bool" where
  "simMode env \<longleftrightarrow> getEnv env ''SIM_MODE'' ''true'' = ''true''"

definition listen_addr :: "(string \<Rightarrow> string) \<Rightarrow> string" where
  "listen_addr env = '':'' @ show_int (getEnvInt env ''PORT'' 8080)"

section \<open>Start-up\<close>

definition symbols :: "string list" where
  "symbols = [''RELIANCE'', ''TCS'', ''INFY'', ''HDFCBANK'', ''NIFTY'']"

definition clients :: "(string \<times> f64) list" where
  "clients = [(''CLIENT001'', Fin 500000), (''CLIENT002'', Fin 1000000), (''CLIENT003'', Fin 250000)]"

text \<open>
  Opening the two connections: Redis is required, PostgreSQL is not. A connection attempt yields
  the state behind it or the text of an error.
\<close>

definition connect :: "('r, 'd) env \<Rightarrow> (string \<Rightarrow> string + 'r) \<Rightarrow> (string \<Rightarrow> string + 'd) \<Rightarrow> (addr \<Rightarrow> WSClient) \<Rightarrow> heap \<Rightarrow>
    (string \<Rightarrow> string) \<Rightarrow> string + ('r, 'd) feed \<times> ('r, 'd) OMS" where
  "connect E dial open_pg objs h env =
     (case dial (redisAddr env) of
        Inl e \<Rightarrow> Inl (''redis connection failed: redis connection failed: '' @ e)
      | Inr r \<Rightarrow>
          let pgDB = (case open_pg (DSN (pgCfg env)) of Inl _ \<Rightarrow> None | Inr d \<Rightarrow> Some d)
          in Inr (NewOMS E (simMode env) objs h r pgDB))"

definition add_symbols :: "('r, 'd) OMS \<Rightarrow> ('r, 'd) OMS" where
  "add_symbols w = fold (\<lambda>s. AddSymbol s NSE) symbols w"

definition register_clients :: "('r, 'd) env \<Rightarrow> ('r, 'd) OMS \<Rightarrow> ('r, 'd) OMS" where
  "register_clients E w = fold (\<lambda>(c, b) w. fst (RegisterClient E c b w)) clients w"

definition main_boot :: "('r, 'd) env \<Rightarrow> (string \<Rightarrow> string + 'r) \<Rightarrow> (string \<Rightarrow> string + 'd) \<Rightarrow> (addr \<Rightarrow> WSClient) \<Rightarrow> heap \<Rightarrow>
    (string \<Rightarrow> string) \<Rightarrow> (string \<Rightarrow> yahooResponse) \<Rightarrow> (string \<Rightarrow> randoms) \<Rightarrow> instant \<Rightarrow> string + ('r, 'd) feed \<times> ('r, 'd) OMS" where
  "main_boot E dial open_pg objs h env http rds now =
     (case connect E dial open_pg objs h env of
        Inl e \<Rightarrow> Inl (''Failed to start OMS: '' @ e)
      | Inr (f, w) \<Rightarrow>
          let (f1, w1) = market_round http rds now [] symbols (f, add_symbols w);
              w2 = register_clients E w1
          in Inr (f1, fst (RecoverFromRedis E now w2)))"

section \<open>Recovery\<close>

text \<open>Recovering one order: it is appended to the heap and, unless its identifier is taken, booked.\<close>

lemma recover_order_booked:
  assumes "om_orderBooks w (o_Symbol x) = Some ob" "ob_orders ob (o_OrderID x) = None"
  obtains ob' where "om_orderBooks (recover_order now x w) = (om_orderBooks w)(o_Symbol x \<mapsto> ob')"
    "ob_orders ob' = (ob_orders ob)(o_OrderID x \<mapsto> om_next w)"
    "set (resting ob') = insert (om_next w) (set (resting ob))"
    "length (ob_EventCh ob') = Suc (length (ob_EventCh ob))"
    "om_heap (recover_order now x w) = (om_heap w)(om_next w := on_book now x)"
proof -
  let ?h = "(om_heap w)(om_next w := x)"
  note A = ob_Add_fresh [of ob ?h "om_next w" now, simplified, OF assms(2)]
  show thesis
    by (rule that [of "snd (fst (ob_Add now (om_next w) (?h, ob)))"])
      (use assms in \<open>auto simp: recover_order_def put_book_def alloc_order_def A bids.set_add asks.set_add send_event_def Let_def\<close>)
qed

lemma recover_order_unbooked:
  assumes "om_orderBooks w (o_Symbol x) = None"
  shows "om_orderBooks (recover_order now x w) = om_orderBooks w"
    "om_heap (recover_order now x w) = (om_heap w)(om_next w := x)"
  using assms by (simp_all add: recover_order_def alloc_order_def)

lemma recover_order_next [simp]: "om_next (recover_order now x w) = om_next w + 1"
  by (simp add: recover_order_def put_book_def alloc_order_def Let_def split: option.split)

text \<open>What the books hold after the orders \<open>xs\<close> have been recovered into empty books.\<close>

definition recovered :: "instant \<Rightarrow> Order list \<Rightarrow> ('r, 'd) OMS \<Rightarrow> bool" where
  "recovered now xs w \<longleftrightarrow>
     (\<forall>s ob. om_orderBooks w s = Some ob \<longrightarrow>
        dom (ob_orders ob) = o_OrderID ` {x \<in> set xs. o_Symbol x = s} \<and>
        (\<forall>i p. ob_orders ob i = Some p \<longrightarrow> p < om_next w \<and> p \<in> set (resting ob) \<and>
           (\<exists>x \<in> set xs. o_Symbol x = s \<and> o_OrderID x = i \<and> om_heap w p = on_book now x)))"

lemma recovered_step:
  assumes rec: "recovered now xs w" and new: "o_OrderID x \<notin> o_OrderID ` set xs"
  shows "recovered now (xs @ [x]) (recover_order now x w)"
proof (cases "om_orderBooks w (o_Symbol x)")
  case None
  then show ?thesis using rec unfolding recovered_def recover_order_unbooked [OF None]
    by (fastforce simp: less_Suc_eq)
next
  case (Some ob)
  have "ob_orders ob (o_OrderID x) = None"
    using rec Some new unfolding recovered_def by blast
  from recover_order_booked [OF Some this, where now = now] obtain ob' where
    w': "om_orderBooks (recover_order now x w) = (om_orderBooks w)(o_Symbol x \<mapsto> ob')"
      "ob_orders ob' = (ob_orders ob)(o_OrderID x \<mapsto> om_next w)"
      "set (resting ob') = insert (om_next w) (set (resting ob))"
      "om_heap (recover_order now x w) = (om_heap w)(om_next w := on_book now x)" by metis
  show ?thesis unfolding recovered_def
  proof (intro allI impI)
    fix s b
    assume b: "om_orderBooks (recover_order now x w) s = Some b"
    show "dom (ob_orders b) = o_OrderID ` {x' \<in> set (xs @ [x]). o_Symbol x' = s} \<and>
        (\<forall>i p. ob_orders b i = Some p \<longrightarrow> p < om_next (recover_order now x w) \<and> p \<in> set (resting b) \<and>
           (\<exists>x' \<in> set (xs @ [x]). o_Symbol x' = s \<and> o_OrderID x' = i \<and> om_heap (recover_order now x w) p = on_book now x'))"
    proof (cases "s = o_Symbol x")
      case True
      with b w'(1) have [simp]: "b = ob'" by simp
      have "dom (ob_orders ob) = o_OrderID ` {x' \<in> set xs. o_Symbol x' = s}"
        and old: "\<And>i p. ob_orders ob i = Some p \<Longrightarrow> p < om_next w \<and> p \<in> set (resting ob) \<and>
           (\<exists>x' \<in> set xs. o_Symbol x' = s \<and> o_OrderID x' = i \<and> om_heap w p = on_book now x')"
        using rec Some True unfolding recovered_def by blast+
      moreover have "om_next w \<in> set (resting ob')" "set (resting ob) \<subseteq> set (resting ob')" unfolding w'(3) by blast+
      moreover have "set (xs @ [x]) = insert x (set xs)" by simp
      ultimately show ?thesis using True by (auto simp: w'(2,4) less_Suc_eq simp del: set_append dest!: old)
    next
      case False
      with b w'(1) have "om_orderBooks w s = Some b" by simp
      with rec have "dom (ob_orders b) = o_OrderID ` {x' \<in> set xs. o_Symbol x' = s}"
        and old: "\<And>i p. ob_orders b i = Some p \<Longrightarrow> p < om_next w \<and> p \<in> set (resting b) \<and>
           (\<exists>x' \<in> set xs. o_Symbol x' = s \<and> o_OrderID x' = i \<and> om_heap w p = on_book now x')"
        unfolding recovered_def by blast+
      then show ?thesis using False by (auto simp: w' less_Suc_eq dest!: old)
    qed
  qed
qed

lemma recovered_fold:
  assumes "recovered now done_orders w" "distinct (map o_OrderID (done_orders @ xs))"
  shows "recovered now (done_orders @ xs) (fold (recover_order now) xs w)"
  using assms
proof (induction xs arbitrary: done_orders w)
  case (Cons x xs)
  have "recovered now (done_orders @ [x]) (recover_order now x w)"
    using Cons.prems by (intro recovered_step) auto
  from Cons.IH [OF this] Cons.prems(2) show ?case by simp
qed simp

lemma recover_keeps_symbols: "dom (om_orderBooks (fold (recover_order now) xs w)) = dom (om_orderBooks w)"
proof (induction xs arbitrary: w)
  case (Cons x xs)
  have "dom (om_orderBooks (recover_order now x w)) = dom (om_orderBooks w)"
    by (auto simp: recover_order_def put_book_def alloc_order_def Let_def split: option.splits)
  with Cons.IH show ?case by simp
qed simp

text \<open>C14: Recovery restores the books: when the store lists open orders with distinct identifiers and the
  books are still empty, recovery succeeds, and afterwards each book's identifier map lists exactly
  the stored open orders of its symbol, each of them resting in the book as an object that equals
  the stored order but for the status message and the time of its update.\<close>

theorem recovery_restores_books:
  assumes "GetOpenOrders (en_redis E) (om_redis w) = Inr orders" "distinct (map o_OrderID orders)"
    and "\<forall>s ob. om_orderBooks w s = Some ob \<longrightarrow> ob_orders ob = Map.empty"
    and "RecoverFromRedis E now w = (w', err)"
  shows "err = None \<and> dom (om_orderBooks w') = dom (om_orderBooks w) \<and>
    (\<forall>s ob. om_orderBooks w' s = Some ob \<longrightarrow>
      dom (ob_orders ob) = o_OrderID ` {x \<in> set orders. o_Symbol x = s} \<and>
      (\<forall>i p. ob_orders ob i = Some p \<longrightarrow> p \<in> set (resting ob) \<and>
        (\<exists>x \<in> set orders. o_Symbol x = s \<and> o_OrderID x = i \<and>
          om_heap w' p = x\<lparr>o_Status := StatusOpen, o_StatusMsg := ''Order placed on book'', o_UpdatedAt := now\<rparr>)))"
proof -
  have w': "w' = fold (recover_order now) orders w" "err = None"
    using assms(1,4) by (simp_all add: RecoverFromRedis_def)
  have "recovered now [] w" using assms(3) by (auto simp: recovered_def)
  from recovered_fold [OF this, of orders] assms(2) have "recovered now orders w'" by (simp add: w')
  moreover have "dom (om_orderBooks w') = dom (om_orderBooks w)" by (simp add: w' recover_keeps_symbols)
  ultimately show ?thesis unfolding recovered_def UpdateStatus_def w'(2) by (intro conjI allI impI) (blast | metis)+
qed

text \<open>A restart after one order was placed: the store of the example session, new books.\<close>

definition ex_restart :: "(Mem, statement list) OMS" where
  "ex_restart = AddSymbol ''RELIANCE'' NSE (snd (NewOMS ex_env True (\<lambda>_. ex_client) (\<lambda>_. no_order) (om_redis ex_placed) None))"

lemma ex_open_ids: "map_sum id (map (\<lambda>x. (o_OrderID x, o_Symbol x))) (GetOpenOrders mem_redis (om_redis ex_placed)) = Inr [(''C1-7'', ''RELIANCE'')]"
  by code_simp

lemma ex_open_orders: "\<exists>x. GetOpenOrders mem_redis (om_redis ex_placed) = Inr [x] \<and> o_OrderID x = ''C1-7'' \<and> o_Symbol x = ''RELIANCE''"
  using ex_open_ids by (cases "GetOpenOrders mem_redis (om_redis ex_placed)") auto

lemma ex_restart_simps: "om_redis ex_restart = om_redis ex_placed"
  "om_orderBooks ex_restart = [''RELIANCE'' \<mapsto> NewOrderBook ''RELIANCE'' NSE]"
  by (simp_all add: ex_restart_def AddSymbol_def NewOMS_def)

theorem recovery_restores_books_witness:
  "\<exists>ob. om_orderBooks (fst (RecoverFromRedis ex_env 11 ex_restart)) ''RELIANCE'' = Some ob \<and> dom (ob_orders ob) = {''C1-7''}"
proof -
  let ?w = "fst (RecoverFromRedis ex_env 11 ex_restart)"
  obtain x where x: "GetOpenOrders mem_redis (om_redis ex_placed) = Inr [x]" "o_OrderID x = ''C1-7''" "o_Symbol x = ''RELIANCE''"
    using ex_open_orders by blast
  have stored: "GetOpenOrders (en_redis ex_env) (om_redis ex_restart) = Inr [x]"
    using x(1) by (simp add: ex_env_def ex_restart_simps)
  have distinct: "distinct (map o_OrderID [x])" by simp
  have new: "\<forall>s ob. om_orderBooks ex_restart s = Some ob \<longrightarrow> ob_orders ob = Map.empty"
    by (auto simp: ex_restart_simps NewOrderBook_def split: if_splits)
  have run: "RecoverFromRedis ex_env 11 ex_restart = (?w, snd (RecoverFromRedis ex_env 11 ex_restart))" by simp
  note R = recovery_restores_books [OF stored distinct new run, THEN conjunct2, THEN conjunct1]
    recovery_restores_books [OF stored distinct new run, THEN conjunct2, THEN conjunct2, rule_format, THEN conjunct1]
  have "''RELIANCE'' \<in> dom (om_orderBooks ?w)" unfolding R(1) by (simp add: ex_restart_simps)
  then obtain ob where ob: "om_orderBooks ?w ''RELIANCE'' = Some ob" by (blast dest: domD)
  have "{y \<in> set [x]. o_Symbol y = ''RELIANCE''} = {x}" using x by auto
  with R(2) [OF ob] x(2) have "dom (ob_orders ob) = {''C1-7''}" by simp
  with ob show ?thesis by blast
qed

section \<open>Start-up leads to a reachable state\<close>

lemma AddSymbols_reachable: "oms_reachable E w \<Longrightarrow> oms_reachable E (fold (\<lambda>s. AddSymbol s exch) xs w)"
  by (induction xs arbitrary: w) (auto intro: oms_reachable.step oms_step.add_symbol)

lemma register_clients_reachable:
  assumes "oms_reachable E w"
  shows "oms_reachable E (register_clients E w)"
  unfolding register_clients_def clients_def using assms
  by (simp add: oms_reachable.step [OF _ oms_step.register])

lemma register_clients_books: "om_orderBooks (register_clients E w) = om_orderBooks w"
  by (simp add: register_clients_def clients_def RegisterClient_def Let_def case_prod_unfold split: option.split)

text \<open>What every quote keeps is kept by a round of the feed.\<close>

lemma market_round_keeps:
  assumes "fd_handlers f = [on_quote E]" "P w" "\<And>w q. P w \<Longrightarrow> P (snd (on_quote E q ((now, keys), w)))"
  shows "P (snd (market_round http rds now keys syms (f, w)))"
proof -
  have "fd_handlers (fst st) = [on_quote E] \<and> fst (snd st) = (now, keys) \<and> P (snd (snd st))"
    if "st = poll_round http rds now syms (f, ((now, keys), w))" for st
    using that assms(1,2)
  proof (induction syms arbitrary: f w)
    case (Cons s syms)
    let ?q = "refresh_quote http (rds s) now s f"
    obtain w1 where w1: "on_quote E ?q ((now, keys), w) = ((now, keys), w1)" by (simp add: on_quote_def Let_def)
    with assms(3) [OF Cons.prems(3), of ?q] have "P w1" by simp
    with Cons.IH [of "f\<lparr>fd_quotes := (fd_quotes f)(s \<mapsto> ?q)\<rparr>" w1] Cons.prems w1 show ?case
      by (simp add: poll_round_def Refresh_def Let_def)
  qed (simp add: poll_round_def)
  from this [OF refl] show ?thesis by (simp add: market_round_def Let_def case_prod_unfold)
qed

lemma on_quote_books [simp]: "om_orderBooks (snd (on_quote E q cw)) = om_orderBooks (snd cw)"
  by (simp add: on_quote_def Let_def case_prod_unfold)

lemma AddSymbol_books:
  "om_orderBooks (AddSymbol s exch w) =
    (if om_orderBooks w s = None then (om_orderBooks w)(s \<mapsto> NewOrderBook s exch) else om_orderBooks w)"
  by (simp add: AddSymbol_def)

lemma add_symbols_books:
  assumes "om_orderBooks w = Map.empty"
  shows "om_orderBooks (add_symbols w) = (\<lambda>s. if s \<in> set symbols then Some (NewOrderBook s NSE) else None)"
  by (rule ext) (simp add: add_symbols_def symbols_def AddSymbol_books assms)

lemma spare_recover:
  assumes "spare (Suc n) w"
  shows "spare n (recover_order now x w)"
proof (cases "om_orderBooks w (o_Symbol x)")
  case None
  with spare_less [OF assms] show ?thesis by (simp add: spare_def recover_order_unbooked)
next
  case (Some b)
  then have "length (ob_EventCh b) + Suc n \<le> event_cap" using assms by (simp add: spare_def)
  then have "length (ob_EventCh (snd (fst (ob_Add now p (h, b))))) + n \<le> event_cap" for p h
    by (simp add: ob_Add_def send_event_def Let_def)
  then show ?thesis using spare_less [OF assms] Some
    by (auto simp: spare_def recover_order_def put_book_def alloc_order_def Let_def)
qed

lemma recover_reachable:
  assumes "oms_reachable E w" "spare (length xs) w" "\<forall>x \<in> set xs. admitted x"
  shows "oms_reachable E (fold (recover_order now) xs w)"
  using assms
proof (induction xs arbitrary: w)
  case (Cons x xs)
  then have "spare (Suc (length xs)) w" "admitted x" by simp_all
  note next_step = oms_reachable.step [OF Cons.prems(1) oms_step.recover [OF this(2) spare_room [OF this(1)]]]
  from Cons.IH [OF next_step spare_recover [OF \<open>spare (Suc (length xs)) w\<close>]] Cons.prems(3) show ?case by simp
qed simp

lemma connect_cases:
  assumes "connect E dial open_pg objs h env = Inr fw"
  obtains sim r pg where "fw = NewOMS E sim objs h r pg"
  using assms by (auto simp: connect_def Let_def split: sum.splits)

lemma boot_recovers:
  assumes "main_boot E dial open_pg objs h env http rds now = Inr (f, w)"
  shows "\<exists>w0. oms_reachable E w0 \<and> w = fst (RecoverFromRedis E now w0) \<and>
    om_orderBooks w0 = (\<lambda>s. if s \<in> set symbols then Some (NewOrderBook s NSE) else None)"
proof -
  from assms obtain fw where "connect E dial open_pg objs h env = Inr fw"
    by (auto simp: main_boot_def split: sum.splits)
  then obtain sim r pg where c: "connect E dial open_pg objs h env = Inr (NewOMS E sim objs h r pg)"
    using connect_cases by metis
  let ?w = "snd (NewOMS E sim objs h r pg)" let ?f = "fst (NewOMS E sim objs h r pg)"
  let ?w1 = "snd (market_round http rds now [] symbols (?f, add_symbols ?w))"
  have handlers: "fd_handlers ?f = [on_quote E]" by (simp add: NewOMS_def Subscribe_def NewFeed_def)
  have "oms_reachable E (add_symbols ?w)"
    unfolding add_symbols_def by (intro AddSymbols_reachable oms_reachable.start)
  then have "oms_reachable E ?w1"
    by (rule market_round_keeps [OF handlers]) (auto intro: oms_reachable.step oms_step.quote)
  then have "oms_reachable E (register_clients E ?w1)" by (rule register_clients_reachable)
  moreover have "om_orderBooks ?w1 = om_orderBooks (add_symbols ?w)"
    by (rule market_round_keeps [OF handlers, where P = "\<lambda>w. om_orderBooks w = om_orderBooks (add_symbols ?w)"]) simp_all
  moreover have "w = fst (RecoverFromRedis E now (register_clients E ?w1))"
    using assms by (simp add: main_boot_def c Let_def case_prod_unfold)
  ultimately show ?thesis
    using add_symbols_books [of ?w] by (auto simp: register_clients_books NewOMS_def)
qed

lemma boot_ends_reachable:
  assumes "oms_reachable E w0" "om_orderBooks w0 = (\<lambda>s. if s \<in> set syms then Some (NewOrderBook s exch) else None)"
    and "GetOpenOrders (en_redis E) (om_redis w0) = Inr orders" "\<forall>x \<in> set orders. admitted x" "length orders \<le> event_cap"
  shows "oms_reachable E (fst (RecoverFromRedis E now w0)) \<and> dom (om_orderBooks (fst (RecoverFromRedis E now w0))) = set syms"
proof
  have "oms_reachable E (fold (recover_order now) orders w0)"
    by (rule recover_reachable [OF assms(1)])
      (use assms(2,4,5) in \<open>auto simp: spare_def NewOrderBook_def split: if_splits\<close>)
  then show "oms_reachable E (fst (RecoverFromRedis E now w0))" using assms(3) by (simp add: RecoverFromRedis_def)
  show "dom (om_orderBooks (fst (RecoverFromRedis E now w0))) = set syms"
    using assms(2,3) by (auto simp: RecoverFromRedis_def recover_keeps_symbols split: if_splits)
qed



end
