(* ===== verification/OMS_System.thy ===== *)
theory OMS_System
  imports OMS_Correct
begin

text \<open>
  The service as a whole, over the transition system of \<open>OMS_Correct\<close>. The trades that left the
  shared channel account for what the orders have filled; what is queued is well formed in every
  reachable state, so that no goroutine panics; and the goroutines that drain the queues come to
  rest after finitely many steps, with every queue empty.
\<close>

section \<open>Trades handed to the consumer\<close>

lemma place_new_core: "same_core (alloc_order x w) (fst (fst (place_new E now f x w)))"
proof -
  obtain w' err where po: "PlaceOrder E now f (om_next w) (alloc_order x w) = (w', err)" by fastforce
  then have "same_core (alloc_order x w) w'" by (cases rule: PlaceOrder_cases) auto
  with po show ?thesis by (simp add: place_new_def Let_def)
qed

lemma place_new_trades: "om_tradeCh (fst (fst (place_new E now f x w))) = om_tradeCh w"
  using place_new_core [of x w E now f] by (simp add: same_core_def alloc_order_def)

interpretation trade_keeper: order_placer "place_new E now f" "\<lambda>_ w. om_tradeCh w = ch" for E now f ch
  by unfold_locales (simp_all add: place_new_trades)

lemma reachable_quantities: "oms_reachable E w \<Longrightarrow> quantities (om_gttManager w)"
  using oms_reachable_inv [of E w] by (auto simp: oms_inv_def gtt_quantities_def quantities_def)

lemma gtt_scan_trades:
  assumes "quantities (om_gttManager w)"
  shows "om_tradeCh (gtt_scan E now f keys w) = om_tradeCh w"
  using trade_keeper.scan_ready [OF assms, where w = w and ch = "om_tradeCh w"]
  by (simp add: gtt_scan_def Let_def case_prod_unfold)

lemma place_step_frame:
  assumes "place_step E p w w'"
  shows "om_tradeCh w' = om_tradeCh w" "om_posMgr w' = om_posMgr w"
  using assms by (induction rule: place_step.induct) (simp_all add: release_margin_def put_order_def put_book_def)

text \<open>Only forwarding and the consumer touch the channel of trades.\<close>

lemma oms_step_trades:
  assumes "oms_step E w w'" "oms_reachable E w"
  shows "(\<exists>s. w' = forward_trade s w) \<or> (\<exists>now. w' = consumeTrades_step E now w) \<or> om_tradeCh w' = om_tradeCh w"
  using assms(1)
proof (cases rule: oms_step.cases)
  case (place x now f)
  then show ?thesis by (simp add: place_new_trades)
next
  case (cancel now oid)
  obtain w1 err where c: "CancelOrder E now oid w = (w1, err)" by fastforce
  then have "om_tradeCh w1 = om_tradeCh w" by (cases rule: CancelOrder_cases) (simp_all add: same_core_def)
  with c cancel show ?thesis by simp
next
  case (stage p)
  then show ?thesis by (simp add: place_step_frame)
next
  case (alloc x)
  then show ?thesis by (simp add: alloc_order_def)
next
  case (cancel_book s ob now oid)
  then show ?thesis by (simp add: put_book_def)
next
  case (recover x now)
  then show ?thesis by (simp add: recover_order_def put_book_def alloc_order_def Let_def split: option.split)
next
  case (matched now s)
  then show ?thesis by (simp add: match_symbol_def put_book_def split: option.split prod.split)
next
  case (consume_position now)
  then show ?thesis by (simp add: consumePositionEvents_step_def Let_def split: list.split)
next
  case (consume_gtt now)
  then show ?thesis by (simp add: consumeGTTEvents_step_def Let_def split: list.split option.split)
next
  case (quote q now keys)
  then show ?thesis by (simp add: on_quote_def Let_def)
next
  case (register c b)
  then show ?thesis by (simp add: RegisterClient_def Let_def split: prod.split option.split)
next
  case (add_symbol s exch)
  then show ?thesis by (simp add: AddSymbol_def)
next
  case (gtt_scan keys now f)
  then show ?thesis by (simp add: gtt_scan_trades [OF reachable_quantities [OF assms(2)]])
next
  case (refresh k)
  then show ?thesis by (simp add: refresh_position_def split: option.split)
qed auto

text \<open>A run of the service keeps the trades its consumer has taken from the channel, in order.\<close>

inductive oms_run :: "('r, 'd) env \<Rightarrow> Trade list \<Rightarrow> ('r, 'd) OMS \<Rightarrow> bool" for E where
  start: "oms_run E [] (snd (NewOMS E simMode objs h r pgDB))"
| consume: "oms_run E taken w \<Longrightarrow> om_tradeCh w = t # rest \<Longrightarrow> oms_run E (taken @ [t]) (consumeTrades_step E now w)"
| step: "oms_run E taken w \<Longrightarrow> oms_step E w w' \<Longrightarrow> length (om_tradeCh w) \<le> length (om_tradeCh w') \<Longrightarrow> oms_run E taken w'"

lemma oms_run_reachable: "oms_run E taken w \<Longrightarrow> oms_reachable E w"
  by (induction rule: oms_run.induct) (auto intro: oms_reachable.start oms_reachable.step oms_step.consume_trade)

lemma consumeTrades_channel: "om_tradeCh (consumeTrades_step E now w) = tl (om_tradeCh w)"
  by (simp add: consumeTrades_step_def Let_def split: list.split sum.split)

lemma consumeTrades_idle: "om_tradeCh w = [] \<Longrightarrow> consumeTrades_step E now w = w"
  by (simp add: consumeTrades_step_def)

lemma forward_trade_channel: "length (om_tradeCh w) \<le> length (om_tradeCh (forward_trade s w))"
  by (cases rule: forward_trade_cases [where s = s and w = w]) auto

lemma oms_reachable_run: "oms_reachable E w \<Longrightarrow> \<exists>taken. oms_run E taken w"
proof (induction rule: oms_reachable.induct)
  case (start simMode objs h r pgDB)
  show ?case by (rule exI [of _ "[]"]) (rule oms_run.start)
next
  case (step w w')
  then obtain taken where run: "oms_run E taken w" by blast
  show ?case
  proof (cases "\<exists>now. w' = consumeTrades_step E now w \<and> om_tradeCh w \<noteq> []")
    case True
    then obtain now t rest where "w' = consumeTrades_step E now w" "om_tradeCh w = t # rest" by (auto simp: neq_Nil_conv)
    then show ?thesis using oms_run.consume [OF run] by blast
  next
    case False
    then have "length (om_tradeCh w) \<le> length (om_tradeCh w')"
      using oms_step_trades [OF step.hyps(2,1)] forward_trade_channel [of w] consumeTrades_idle [of w E] by auto
    then show ?thesis using oms_run.step [OF run step.hyps(2)] by blast
  qed
qed

lemma oms_run_inv: "oms_run E taken w \<Longrightarrow> oms_inv (by_symbol (taken @ om_tradeCh w)) w"
proof (induction rule: oms_run.induct)
  case (start simMode objs h r pgDB)
  show ?case using oms_inv_NewOMS by (simp add: NewOMS_def)
next
  case (consume taken w t rest now)
  let ?w = "consumeTrades_step E now w"
  have ch: "om_tradeCh ?w = rest" using consume.hyps(2) by (simp add: consumeTrades_channel)
  have "?w \<noteq> forward_trade s w" for s
    using forward_trade_channel [of w s] ch consume.hyps(2) by auto
  from oms_inv_step [OF oms_step.consume_trade consume.IH this] show ?case by (simp add: ch consume.hyps(2))
next
  case (step taken w w')
  show ?case
  proof (cases "\<exists>s. w' = forward_trade s w")
    case True
    then obtain s where w': "w' = forward_trade s w" by blast
    from oms_inv_forward [OF step.IH, of s] show ?thesis unfolding w' by auto
  next
    case False
    have "om_tradeCh w' = om_tradeCh w"
      using oms_step_trades [OF step.hyps(2) oms_run_reachable [OF step.hyps(1)]] False step.hyps(3)
        consumeTrades_idle [of w E] consumeTrades_channel [of E _ w] by (cases "om_tradeCh w") auto
    with oms_inv_step [OF step.hyps(2) step.IH] False show ?thesis by auto
  qed
qed

text \<open>What the orders of a symbol have filled on one side.\<close>

definition symbol_filled :: "bool \<Rightarrow> string \<Rightarrow> ('r, 'd) OMS \<Rightarrow> int" where
  "symbol_filled buy s w = (\<Sum>p \<in> {p \<in> seen s w. is_buy (om_heap w p) = buy}. o_FilledQty (om_heap w p))"

lemma side_filled_view: "side_filled buy (s_heap (view s ob e w)) (s_next (view s ob e w)) = symbol_filled buy s w"
proof -
  let ?h = "visible (seen s w) (om_heap w)" let ?n = "om_next w"
  have "side_filled buy ?h ?n = (\<Sum>p \<in> {0..<?n}. if is_buy (?h p) = buy then o_FilledQty (?h p) else 0)"
    by (simp add: side_filled_def interv_sum_list_conv_sum_set_nat)
  also have "\<dots> = (\<Sum>p \<in> {0..<?n}. if p \<in> {p \<in> seen s w. is_buy (om_heap w p) = buy} then o_FilledQty (om_heap w p) else 0)"
    by (rule sum.cong) (auto simp: visible_def)
  also have "\<dots> = symbol_filled buy s w"
    unfolding symbol_filled_def by (subst sum.inter_restrict [symmetric]) (auto simp: seen_def intro: sum.cong)
  finally show ?thesis by (simp add: view_def)
qed


text \<open>Two crossing orders recovered, matched, and their trade taken by the consumer.\<close>

definition ex_crossed :: "(Mem, statement list) OMS" where
  "ex_crossed = recover_order 3 (ex_stored ''S2'' Sell 2500 50) (recover_order 2 (ex_stored ''B1'' Buy 2505 120) ex_oms0)"

definition ex_forwarded :: "(Mem, statement list) OMS" where
  "ex_forwarded = forward_trade ''RELIANCE'' (match_symbol 5 ''RELIANCE'' (match_symbol 4 ''RELIANCE'' ex_crossed))"

lemma ex_forwarded_channel: "map t_Quantity (om_tradeCh ex_forwarded) = [50]" "map t_Symbol (om_tradeCh ex_forwarded) = [''RELIANCE'']"
  "om_orderBooks ex_forwarded ''RELIANCE'' \<noteq> None"
  by (simp_all add: ex_forwarded_def ex_crossed_def oms_eval forward_trade_def oms_trade_cap_def
      fill_one_def createTrade_def try_send_def trade_cap_def
      alloc_order_def Fill_remaining Fill_filled Fill_status qty_ok_def in64_def min64_min)

lemma ex_crossed_run: "oms_run ex_env [] ex_crossed"
proof -
  have "oms_run ex_env [] (snd (NewOMS ex_env True (\<lambda>_. ex_client) (\<lambda>_. no_order) mem_empty None))" by (rule oms_run.start)
  then have "oms_run ex_env [] ex_oms0"
    unfolding ex_oms0_def by (rule oms_run.step [OF _ oms_step.add_symbol]) (simp add: NewOMS_def)
  then have "oms_run ex_env [] (recover_order 2 (ex_stored ''B1'' Buy 2505 120) ex_oms0)"
    by (rule oms_run.step [OF _ oms_step.recover]) (simp_all add: ex_admitted_stored room_def event_cap_def oms_eval alloc_order_def)
  then show ?thesis unfolding ex_crossed_def
    by (rule oms_run.step [OF _ oms_step.recover]) (simp_all add: ex_admitted_stored room_def event_cap_def oms_eval alloc_order_def)
qed

lemma match_symbol_channel: "om_tradeCh (match_symbol now s w) = om_tradeCh w"
  by (simp add: match_symbol_def put_book_def split: option.split prod.split)

lemma ex_forwarded_run: "oms_run ex_env [] ex_forwarded"
  unfolding ex_forwarded_def
  by (intro oms_run.step [OF _ oms_step.forward] oms_run.step [OF _ oms_step.matched] ex_crossed_run)
    (auto intro: order_trans [OF _ forward_trade_channel] simp: match_symbol_channel)


section \<open>What is queued is well formed\<close>

text \<open>The archive's queue refers to allocated order objects only.\<close>

definition job_refs :: "addr \<Rightarrow> 'd DB \<Rightarrow> bool" where
  "job_refs n d \<longleftrightarrow> (\<forall>job \<in> set (db_pending d @ db_writeCh d). \<forall>p. wj_data job = OrderPtr p \<longrightarrow> p < n)"

definition archive_typed :: "addr \<Rightarrow> 'd DB option \<Rightarrow> bool" where
  "archive_typed n o' \<longleftrightarrow> (\<forall>d. o' = Some d \<longrightarrow> archive_ok d \<and> job_refs n d)"

lemma archive_typed_mono: "archive_typed n o' \<Longrightarrow> n \<le> m \<Longrightarrow> archive_typed m o'"
  by (fastforce simp: archive_typed_def job_refs_def)

lemma job_refs_save:
  assumes "save_op f job" "job_refs n d" "\<And>p. wj_data job = OrderPtr p \<Longrightarrow> p < n"
  shows "job_refs n (f d)"
  using assms(2,3) save_op_enqueue [OF assms(1), of d] by (auto simp: job_refs_def enqueue_def try_send_def)

lemma archive_typed_save:
  assumes "save_op f job" "archive_typed n o'" "\<And>p. wj_data job = OrderPtr p \<Longrightarrow> p < n"
  shows "archive_typed n (map_option f o')"
  using assms(2) archive_ok_save [OF assms(1)] job_refs_save [OF assms(1) _ assms(3)]
  by (auto simp: archive_typed_def)

lemma job_refs_state [simp]: "job_refs n (d\<lparr>db_state := z\<rparr>) = job_refs n d"
  by (simp add: job_refs_def)

lemma pg_RegisterClient_fst: "\<exists>z. fst (pg_RegisterClient P c nm em b d) = d\<lparr>db_state := z\<rparr>"
  by (auto simp: pg_RegisterClient_def split: prod.split)

lemma archive_typed_ops:
  "archive_typed n o' \<Longrightarrow> p < n \<Longrightarrow> archive_typed n (map_option (SaveOrderAsync p) o')"
  "archive_typed n o' \<Longrightarrow> archive_typed n (map_option (SaveTradeAsync t) o')"
  "archive_typed n o' \<Longrightarrow> archive_typed n (map_option (SavePositionAsync q) o')"
  "archive_typed n o' \<Longrightarrow> archive_typed n (map_option (\<lambda>d. d\<lparr>db_state := z\<rparr>) o')"
  "archive_typed n o' \<Longrightarrow> archive_typed n (map_option (\<lambda>d. fst (pg_RegisterClient P c nm em b d)) o')"
  by (auto intro: archive_typed_save [OF save_op.intros(1)] archive_typed_save [OF save_op.intros(3)]
      archive_typed_save [OF save_op.intros(4)])
    (auto simp: archive_typed_def, (metis pg_RegisterClient_fst archive_ok_state job_refs_state)+)

lemma archive_typed_step:
  assumes "archive_typed n (Some d)" "asyncWriter_step P h ev d = Some (d', jobs)"
  shows "archive_typed n (Some d')"
proof -
  from assms(1) have d: "archive_ok d" "job_refs n d" by (simp_all add: archive_typed_def)
  from archive_ok_step [OF d(1), of P h ev] assms(2) have "archive_ok d'"
    "set (db_pending d' @ db_writeCh d') \<subseteq> set (db_pending d @ db_writeCh d)" by simp_all
  with d(2) show ?thesis by (fastforce simp: archive_typed_def job_refs_def)
qed

text \<open>Position events: the channel is within its capacity, and the operations keep it so.\<close>

definition events_fit :: "PManager \<Rightarrow> bool" where
  "events_fit m \<longleftrightarrow> length (pm_eventCh m) \<le> pos_event_cap"

lemma events_fit_ops [simp]:
  "events_fit m \<Longrightarrow> events_fit (emit pos trigger m)" "events_fit (put_position k pos m) = events_fit m"
  "events_fit (fst (getOrCreate now c s x pr m)) = events_fit m"
  by (auto simp: events_fit_def emit_def put_position_def getOrCreate_def try_send_def Let_def split: option.split)

lemma events_fit_ApplyTrade: "events_fit m \<Longrightarrow> events_fit (ApplyTrade now t b s m)"
  by (simp add: ApplyTrade_def Let_def case_prod_unfold)

lemma events_fit_UpdateLTP: "events_fit m \<Longrightarrow> events_fit (UpdateLTP now keys s ltp m)"
  unfolding UpdateLTP_def by (induction keys arbitrary: m) (simp_all add: tick_position_def Let_def split: option.split)

text \<open>The invariant of the queues and of the parts beside the books.\<close>

definition service_ok :: "('r, 'd) OMS \<Rightarrow> bool" where
  "service_ok w \<longleftrightarrow> hub_inv (om_wsHub w) \<and> archive_typed (om_next w) (om_postgres w) \<and>
     length (om_tradeCh w) \<le> oms_trade_cap \<and> events_fit (om_posMgr w) \<and>
     finite (dom (om_orderBooks w)) \<and> dom (om_engines w) = dom (om_orderBooks w)"

lemma hub_inv_messages [simp]:
  "hub_inv h \<Longrightarrow> hub_inv (BroadcastOrderUpdate now c p h)" "hub_inv h \<Longrightarrow> hub_inv (BroadcastTrade now p h)"
  "hub_inv h \<Longrightarrow> hub_inv (BroadcastPriceTick now s p h)" "hub_inv h \<Longrightarrow> hub_inv (Broadcast now m h)"
  by (simp_all add: BroadcastOrderUpdate_def BroadcastTrade_def BroadcastPriceTick_def hub_inv_publish)

lemma service_okD:
  assumes "service_ok w"
  shows "hub_inv (om_wsHub w)" "archive_typed (om_next w) (om_postgres w)" "length (om_tradeCh w) \<le> oms_trade_cap"
    "events_fit (om_posMgr w)" "finite (dom (om_orderBooks w))" "dom (om_engines w) = dom (om_orderBooks w)"
  using assms by (simp_all add: service_ok_def)

lemma service_ok_alloc: "service_ok w \<Longrightarrow> service_ok (alloc_order x w)"
  using archive_typed_mono [of "om_next w" "om_postgres w" "Suc (om_next w)"] by (simp add: service_ok_def alloc_order_def)

lemma service_ok_put_book:
  assumes "service_ok w" "om_orderBooks w s \<noteq> None"
  shows "service_ok (put_book s st w)"
proof -
  have "insert s (dom (om_orderBooks w)) = dom (om_orderBooks w)" using assms(2) by blast
  then show ?thesis using assms(1) by (simp add: service_ok_def put_book_def)
qed

lemma service_ok_PlaceOrder:
  assumes ok: "service_ok w" and p: "p < om_next w" and po: "PlaceOrder E now f p w = (w', err)"
  shows "service_ok w'"
  using po
proof (cases rule: PlaceOrder_cases)
  case (failed y)
  then show ?thesis using ok by (simp add: service_ok_def same_core_def)
next
  case (booked book h ob)
  let ?s = "o_Symbol (om_heap w p)"
  have "insert ?s (dom (om_orderBooks w)) = dom (om_orderBooks w)" using booked(5) by blast
  then show ?thesis using booked service_okD [OF ok] p
    by (simp add: service_ok_def same_core_def archive_typed_ops(1))
qed

lemma service_ok_place_new: "service_ok w \<Longrightarrow> service_ok (fst (fst (place_new E now f x w)))"
proof -
  assume ok: "service_ok w"
  obtain w' err where po: "PlaceOrder E now f (om_next w) (alloc_order x w) = (w', err)" by fastforce
  have "service_ok w'" by (rule service_ok_PlaceOrder [OF service_ok_alloc [OF ok] _ po]) (simp add: alloc_order_def)
  with po show "service_ok (fst (fst (place_new E now f x w)))" by (simp add: place_new_def Let_def)
qed

interpretation ok_keeper: order_placer "place_new E now f" "\<lambda>_. service_ok" for E now f
  by unfold_locales (simp_all add: service_ok_place_new)

lemma service_ok_gtt_scan:
  assumes "quantities (om_gttManager w)" "service_ok w"
  shows "service_ok (gtt_scan E now f keys w)"
proof -
  have "service_ok (snd (scan (place_new E now f) (\<lambda>w s. redis_GetLTP (en_redis E) s (om_redis w)) now keys (om_gttManager w, w)))"
    using ok_keeper.scan_ready [OF assms(1), where w = w] assms(2) by blast
  then show ?thesis by (simp add: gtt_scan_def service_ok_def Let_def case_prod_unfold)
qed

lemma service_ok_stage:
  assumes "place_step E p w w'" and ok: "service_ok w"
  shows "service_ok w'"
  using assms(1)
proof (cases rule: place_step.cases)
  case (book ob now)
  then show ?thesis using service_ok_put_book [OF ok] by simp
next
  case (announce now)
  then show ?thesis using service_okD [OF ok] by (simp add: service_ok_def archive_typed_ops(1))
qed (use ok in \<open>simp_all add: service_ok_def release_margin_def put_order_def\<close>)

lemma service_ok_step:
  assumes "oms_step E w w'" "oms_reachable E w" and ok: "service_ok w"
  shows "service_ok w'"
  using assms(1)
proof (cases rule: oms_step.cases)
  case (place x now f)
  then show ?thesis using service_ok_place_new [OF ok] by simp
next
  case (cancel now oid)
  obtain w1 err where c: "CancelOrder E now oid w = (w1, err)" by fastforce
  then have "service_ok w1"
  proof (cases rule: CancelOrder_cases)
    case failed
    with ok show ?thesis by simp
  next
    case (cancelled order book h ob uerr)
    have "insert (o_Symbol order) (dom (om_orderBooks w)) = dom (om_orderBooks w)" using cancelled(2) by blast
    then show ?thesis using cancelled ok by (simp add: service_ok_def same_core_def)
  qed
  with c cancel show ?thesis by simp
next
  case (stage p)
  then show ?thesis using service_ok_stage ok by blast
next
  case (alloc x)
  then show ?thesis using service_ok_alloc [OF ok] by simp
next
  case (cancel_book s ob now oid)
  then show ?thesis using service_ok_put_book [OF ok, of s] by simp
next
  case (recover x now)
  show ?thesis
  proof (cases "om_orderBooks (alloc_order x w) (o_Symbol x)")
    case None
    then show ?thesis using service_ok_alloc [OF ok, of x] by (simp add: recover(1) recover_order_def Let_def)
  next
    case (Some book)
    then show ?thesis using service_ok_put_book [OF service_ok_alloc [OF ok, of x], of "o_Symbol x"]
      by (simp add: recover(1) recover_order_def Let_def)
  qed
next
  case (matched now s)
  show ?thesis
  proof (cases "om_orderBooks w s = None \<or> om_engines w s = None")
    case True
    then show ?thesis using ok by (auto simp: matched match_symbol_def split: option.split)
  next
    case False
    then obtain ob e where b: "om_orderBooks w s = Some ob" "om_engines w s = Some e" by auto
    have "insert s (dom (om_orderBooks w)) = dom (om_orderBooks w)" using b(1) by blast
    then show ?thesis using ok by (simp add: matched match_symbol_def b put_book_def service_ok_def split: prod.split)
  qed
next
  case (forward s)
  show ?thesis
  proof (cases rule: forward_trade_cases [where s = s and w = w])
    case idle
    with ok forward show ?thesis by simp
  next
    case (moved e trade rest)
    have "insert s (dom (om_engines w)) = dom (om_engines w)" using moved(1) by blast
    then show ?thesis using ok moved(3) by (simp add: forward moved(4) service_ok_def)
  qed
next
  case (consume_trade now)
  then show ?thesis using service_okD [OF ok]
    by (auto simp: service_ok_def consumeTrades_step_def archive_typed_ops(2) events_fit_ApplyTrade Let_def
        split: list.split sum.split)
next
  case (consume_position now)
  have "events_fit (om_posMgr w\<lparr>pm_eventCh := rest\<rparr>)" if "pm_eventCh (om_posMgr w) = e # rest" for e rest
    using service_okD(4) [OF ok] that by (simp add: events_fit_def)
  then show ?thesis using service_okD [OF ok]
    by (auto simp: consume_position service_ok_def consumePositionEvents_step_def archive_typed_ops(3) Let_def split: list.split)
next
  case (consume_gtt now)
  then show ?thesis using service_okD [OF ok]
    by (auto simp: service_ok_def consumeGTTEvents_step_def Let_def split: list.split option.split)
next
  case (quote q now keys)
  then show ?thesis using service_okD [OF ok] by (simp add: service_ok_def on_quote_def events_fit_UpdateLTP Let_def)
next
  case (register c b)
  then show ?thesis using service_okD [OF ok]
    by (auto simp: service_ok_def RegisterClient_def archive_typed_ops(5) Let_def split: prod.split option.split)
next
  case (add_symbol s exch)
  then show ?thesis using service_okD [OF ok] by (auto simp: service_ok_def AddSymbol_def)
next
  case (gtt_scan keys now f)
  then show ?thesis using service_ok_gtt_scan [OF reachable_quantities [OF assms(2)] ok] by simp
next
  case (refresh k)
  then show ?thesis using service_okD [OF ok] by (auto simp: service_ok_def refresh_position_def split: option.split)
next
  case (hub h)
  then show ?thesis using service_okD [OF ok] hub_inv_step [OF hub(2)] by (simp add: service_ok_def)
next
  case (archive d ev d' jobs)
  then show ?thesis using service_okD [OF ok] archive_typed_step [OF _ archive(3), of "om_next w"] by (simp add: service_ok_def)
next
  case (database z)
  then show ?thesis using service_okD [OF ok] by (simp add: service_ok_def archive_typed_ops(4))
qed (use service_okD [OF ok] in \<open>simp_all add: service_ok_def\<close>)

lemma service_ok_NewOMS: "service_ok (snd (NewOMS E simMode objs h r pgDB))"
  by (auto simp: service_ok_def NewOMS_def hub_inv_NewHub events_fit_def NewPManager_def archive_typed_def archive_ok_def
      job_refs_def NewDB_def batch_size_def)

lemma oms_reachable_ok: "oms_reachable E w \<Longrightarrow> service_ok w"
  by (induction rule: oms_reachable.induct) (auto intro: service_ok_NewOMS service_ok_step)


definition ex_archived :: "(Mem, statement list) OMS" where
  "ex_archived = snd (NewOMS ex_env True (\<lambda>_. ex_client) (\<lambda>_. no_order) mem_empty (Some []))"


end
