(* ===== verification/OMS_Drain.thy ===== *)
theory OMS_Drain
  imports OMS_System
begin

text \<open>
  The goroutines that empty queues, without new requests: matching, forwarding, the three consumers, the
  hub's loop, the clients' write pumps and the archive's writer. Their work terminates from every
  reachable state, and it cannot get stuck before every queue is empty.
\<close>

section \<open>The steps that drain a queue\<close>

inductive drain :: "('r, 'd) env \<Rightarrow> ('r, 'd) OMS \<Rightarrow> ('r, 'd) OMS \<Rightarrow> bool" for E where
  matched: "om_orderBooks w s = Some ob \<Longrightarrow> ob_EventCh ob \<noteq> [] \<Longrightarrow> drain E w (match_symbol now s w)"
| forward: "om_engines w s = Some e \<Longrightarrow> e_TradeCh e \<noteq> [] \<Longrightarrow> length (om_tradeCh w) < oms_trade_cap \<Longrightarrow>
    drain E w (forward_trade s w)"
| trade: "om_tradeCh w \<noteq> [] \<Longrightarrow> drain E w (consumeTrades_step E now w)"
| position: "pm_eventCh (om_posMgr w) \<noteq> [] \<Longrightarrow> drain E w (consumePositionEvents_step now w)"
| gtt: "gm_eventCh (om_gttManager w) \<noteq> [] \<Longrightarrow> drain E w (consumeGTTEvents_step now w)"
| loop_register: "h_register (om_wsHub w) \<noteq> [] \<Longrightarrow> run_register (om_wsHub w) = Some h \<Longrightarrow> drain E w (w\<lparr>om_wsHub := h\<rparr>)"
| loop_unregister: "h_unregister (om_wsHub w) \<noteq> [] \<Longrightarrow> run_unregister (om_wsHub w) = Some h \<Longrightarrow> drain E w (w\<lparr>om_wsHub := h\<rparr>)"
| loop_broadcast: "h_broadcast (om_wsHub w) \<noteq> [] \<Longrightarrow> enumerates keys (om_wsHub w) \<Longrightarrow>
    run_broadcast keys (om_wsHub w) = Some h \<Longrightarrow> drain E w (w\<lparr>om_wsHub := h\<rparr>)"
| write_pump: "c < h_next (om_wsHub w) \<Longrightarrow> c_send (h_obj (om_wsHub w) c) \<noteq> [] \<Longrightarrow>
    write_step c (om_wsHub w) = Some (h, frame) \<Longrightarrow> drain E w (w\<lparr>om_wsHub := h\<rparr>)"
| archive: "om_postgres w = Some d \<Longrightarrow> db_writeCh d \<noteq> [] \<Longrightarrow> \<not> db_stopped d \<Longrightarrow>
    asyncWriter_step (en_pg E) (om_heap w) Receive d = Some (d', jobs) \<Longrightarrow> drain E w (w\<lparr>om_postgres := Some d'\<rparr>)"

lemma drain_step: "drain E w w' \<Longrightarrow> oms_step E w w'"
  by (induction rule: drain.induct) (auto intro: oms_step.intros hub_step.intros)

lemma drain_reachable: "(drain E)\<^sup>*\<^sup>* w w' \<Longrightarrow> oms_reachable E w \<Longrightarrow> oms_reachable E w'"
  by (induction rule: rtranclp_induct) (auto intro: oms_reachable.step drain_step)

text \<open>At rest: every queue is empty. A stopped writer leaves its channel as it is.\<close>

definition at_rest :: "('r, 'd) OMS \<Rightarrow> bool" where
  "at_rest w \<longleftrightarrow> (\<forall>s ob. om_orderBooks w s = Some ob \<longrightarrow> ob_EventCh ob = []) \<and>
     (\<forall>s e. om_engines w s = Some e \<longrightarrow> e_TradeCh e = []) \<and>
     om_tradeCh w = [] \<and> pm_eventCh (om_posMgr w) = [] \<and> gm_eventCh (om_gttManager w) = [] \<and>
     h_register (om_wsHub w) = [] \<and> h_unregister (om_wsHub w) = [] \<and> h_broadcast (om_wsHub w) = [] \<and>
     (\<forall>c < h_next (om_wsHub w). c_send (h_obj (om_wsHub w) c) = []) \<and>
     (\<forall>d. om_postgres w = Some d \<and> \<not> db_stopped d \<longrightarrow> db_writeCh d = [])"

section \<open>Progress\<close>

lemma drain_progress:
  assumes reach: "oms_reachable E w" and busy: "\<not> at_rest w"
  shows "\<exists>w'. drain E w w'"
proof (rule ccontr)
  assume stuck: "\<not> (\<exists>w'. drain E w w')"
  note ok = service_okD [OF oms_reachable_ok [OF reach]]
  have ch: "om_tradeCh w = []" using stuck drain.trade by blast
  have "ob_EventCh ob = []" if "om_orderBooks w s = Some ob" for s ob using stuck drain.matched [OF that] by blast
  moreover have "e_TradeCh e = []" if "om_engines w s = Some e" for s e
    using stuck drain.forward [OF that] ch by (force simp: oms_trade_cap_def)
  moreover have "pm_eventCh (om_posMgr w) = []" "gm_eventCh (om_gttManager w) = []"
    using stuck drain.position drain.gtt by blast+
  moreover have "h_register (om_wsHub w) = []" "h_unregister (om_wsHub w) = []"
    using stuck drain.loop_register drain.loop_unregister run_register_ok [OF ok(1)] run_unregister_ok [OF ok(1)] by blast+
  moreover have "h_broadcast (om_wsHub w) = []"
  proof (rule ccontr)
    assume ne: "h_broadcast (om_wsHub w) \<noteq> []"
    have "finite (h_clients (om_wsHub w))" using ok(1) by (simp add: hub_inv_def)
    then obtain keys where "enumerates keys (om_wsHub w)" using finite_distinct_list by (auto simp: enumerates_def)
    with ne stuck drain.loop_broadcast run_broadcast_ok [OF ok(1)] show False by blast
  qed
  moreover have "c_send (h_obj (om_wsHub w) c) = []" if "c < h_next (om_wsHub w)" for c
  proof (rule ccontr)
    assume ne: "c_send (h_obj (om_wsHub w) c) \<noteq> []"
    then obtain h frame where "write_step c (om_wsHub w) = Some (h, frame)"
      by (auto simp: write_step_def neq_Nil_conv)
    with ne that stuck drain.write_pump show False by blast
  qed
  moreover have "db_writeCh d = []" if "om_postgres w = Some d" "\<not> db_stopped d" for d
  proof (rule ccontr)
    assume ne: "db_writeCh d \<noteq> []"
    have "archive_ok d" using ok(2) that(1) by (simp add: archive_typed_def)
    then obtain d' jobs where "asyncWriter_step (en_pg E) (om_heap w) Receive d = Some (d', jobs)"
      using archive_ok_step by blast
    with ne that stuck drain.archive show False by blast
  qed
  ultimately show False using busy ch by (auto simp: at_rest_def)
qed

section \<open>The measure\<close>

text \<open>
  What is queued, from the front of the pipeline to its end. A step takes one element from its queue and
  adds only to queues behind it.
\<close>

definition book_events :: "('r, 'd) OMS \<Rightarrow> nat" where
  "book_events w = (\<Sum>s \<in> dom (om_orderBooks w). length (ob_EventCh (the (om_orderBooks w s))))"

definition engine_trades :: "('r, 'd) OMS \<Rightarrow> nat" where
  "engine_trades w = (\<Sum>s \<in> dom (om_engines w). length (e_TradeCh (the (om_engines w s))))"

definition client_messages :: "Hub \<Rightarrow> nat" where
  "client_messages h = (\<Sum>c < h_next h. length (c_send (h_obj h c)))"

definition archive_jobs :: "'d DB option \<Rightarrow> nat" where
  "archive_jobs o' = (case o' of None \<Rightarrow> 0 | Some d \<Rightarrow> length (db_writeCh d))"

definition drain_order :: "(('r, 'd) OMS \<times> ('r, 'd) OMS) set" where
  "drain_order = measures [book_events, engine_trades, length \<circ> om_tradeCh, length \<circ> pm_eventCh \<circ> om_posMgr,
     length \<circ> gm_eventCh \<circ> om_gttManager, length \<circ> h_register \<circ> om_wsHub, length \<circ> h_unregister \<circ> om_wsHub,
     length \<circ> h_broadcast \<circ> om_wsHub, client_messages \<circ> om_wsHub, archive_jobs \<circ> om_postgres]"

lemma sum_update_less:
  fixes f :: "'v \<Rightarrow> nat"
  assumes "finite (dom m)" "m k = Some v" "f v' < f v"
  shows "(\<Sum>x \<in> dom (m(k \<mapsto> v')). f (the ((m(k \<mapsto> v')) x))) < (\<Sum>x \<in> dom m. f (the (m x)))"
proof -
  have dom: "dom (m(k \<mapsto> v')) = dom m" using assms(2) by auto
  show ?thesis unfolding dom by (rule sum_strict_mono_ex1) (use assms in \<open>auto intro!: bexI [of _ k]\<close>)
qed

lemma matchLoop_step_events:
  assumes "matchLoop_step now (h, ob, e) = (h1, ob1, e1)" "ob_EventCh ob \<noteq> []"
  shows "length (ob_EventCh ob1) < length (ob_EventCh ob)"
  using assms by (cases "ob_EventCh ob") (auto simp: matchLoop_step_def Let_def split: if_splits prod.splits)

lemma drain_match:
  assumes ok: "service_ok w" and ob: "om_orderBooks w s = Some ob" "ob_EventCh ob \<noteq> []"
  shows "book_events (match_symbol now s w) < book_events w"
proof -
  have "s \<in> dom (om_engines w)" using service_okD(6) [OF ok] ob(1) by blast
  then obtain e where e: "om_engines w s = Some e" by blast
  obtain h ob1 e1 where m: "matchLoop_step now (om_heap w, ob, e) = (h, ob1, e1)" by (metis prod.collapse)
  have "om_orderBooks (match_symbol now s w) = (om_orderBooks w)(s \<mapsto> ob1)"
    by (simp add: match_symbol_def ob(1) e m put_book_def)
  then show ?thesis
    using sum_update_less [OF service_okD(5) [OF ok] ob(1), of "\<lambda>ob. length (ob_EventCh ob)" ob1] matchLoop_step_events [OF m ob(2)]
    by (simp add: book_events_def)
qed

lemma drain_forward:
  assumes ok: "service_ok w" and e: "om_engines w s = Some e" "e_TradeCh e \<noteq> []" "length (om_tradeCh w) < oms_trade_cap"
  shows "book_events (forward_trade s w) = book_events w \<and> engine_trades (forward_trade s w) < engine_trades w"
proof -
  obtain t rest where ch: "e_TradeCh e = t # rest" using e(2) by (auto simp: neq_Nil_conv)
  have "om_engines (forward_trade s w) = (om_engines w)(s \<mapsto> e\<lparr>e_TradeCh := rest\<rparr>)"
    "om_orderBooks (forward_trade s w) = om_orderBooks w"
    by (simp_all add: forward_trade_def e ch)
  moreover have "finite (dom (om_engines w))" using service_okD(5,6) [OF ok] by simp
  ultimately show ?thesis
    using sum_update_less [of "om_engines w" s e "\<lambda>e. length (e_TradeCh e)" "e\<lparr>e_TradeCh := rest\<rparr>"] e(1) ch
    by (simp add: book_events_def engine_trades_def)
qed

text \<open>The consumers leave the books, the engines and the queues in front of theirs alone.\<close>

lemma consumer_frames:
  "om_orderBooks (consumeTrades_step E now w) = om_orderBooks w" "om_engines (consumeTrades_step E now w) = om_engines w"
  "om_orderBooks (consumePositionEvents_step now w) = om_orderBooks w"
  "om_engines (consumePositionEvents_step now w) = om_engines w" "om_tradeCh (consumePositionEvents_step now w) = om_tradeCh w"
  "pm_eventCh (om_posMgr (consumePositionEvents_step now w)) = tl (pm_eventCh (om_posMgr w))"
  "om_orderBooks (consumeGTTEvents_step now w) = om_orderBooks w" "om_engines (consumeGTTEvents_step now w) = om_engines w"
  "om_tradeCh (consumeGTTEvents_step now w) = om_tradeCh w" "om_posMgr (consumeGTTEvents_step now w) = om_posMgr w"
  "gm_eventCh (om_gttManager (consumeGTTEvents_step now w)) = tl (gm_eventCh (om_gttManager w))"
  by (simp_all add: consumeTrades_step_def consumePositionEvents_step_def consumeGTTEvents_step_def Let_def
      split: list.split sum.split option.split)

text \<open>The hub's loop takes from its three channels; only the broadcast adds to the clients' buffers.\<close>

lemma run_register_frame:
  assumes "run_register h = Some h'" "h_register h \<noteq> []"
  shows "length (h_register h') < length (h_register h)"
  using assms by (auto simp: run_register_def split: list.splits)

lemma run_unregister_frame:
  assumes "run_unregister h = Some h'" "h_unregister h \<noteq> []"
  shows "h_register h' = h_register h" "length (h_unregister h') < length (h_unregister h)"
  using assms by (auto simp: run_unregister_def close_send_def Let_def split: list.splits if_splits)

lemma run_broadcast_frame:
  assumes "hub_inv h" "enumerates keys h" "run_broadcast keys h = Some h'" "h_broadcast h \<noteq> []"
  shows "h_register h' = h_register h" "h_unregister h' = h_unregister h" "length (h_broadcast h') < length (h_broadcast h)"
proof -
  obtain msg rest where "h_broadcast h = msg # rest" using assms(4) by (auto simp: neq_Nil_conv)
  with run_broadcast_eq [OF assms(1,2) this] assms(3) show
    "h_register h' = h_register h" "h_unregister h' = h_unregister h" "length (h_broadcast h') < length (h_broadcast h)"
    by (auto simp: after_broadcast_def)
qed

lemma write_step_frame:
  assumes "write_step c h = Some (h', frame)" "c < h_next h" "c_send (h_obj h c) \<noteq> []"
  shows "h_register h' = h_register h" "h_unregister h' = h_unregister h" "h_broadcast h' = h_broadcast h"
    "client_messages h' < client_messages h"
proof -
  obtain msg rest where ch: "c_send (h_obj h c) = msg # rest" using assms(3) by (auto simp: neq_Nil_conv)
  then have h': "h' = put_client c ((h_obj h c)\<lparr>c_send := rest\<rparr>) h" using assms(1) by (simp add: write_step_def Let_def)
  show "client_messages h' < client_messages h" unfolding client_messages_def h' put_client_simps
    by (rule sum_strict_mono_ex1) (use assms(2) ch in \<open>auto intro!: bexI [of _ c]\<close>)
qed (use assms in \<open>auto simp: write_step_def Let_def split: list.splits if_splits\<close>)

lemma writer_frame:
  assumes "asyncWriter_step P h Receive d = Some (d', jobs)" "db_writeCh d \<noteq> []" "\<not> db_stopped d"
  shows "archive_jobs (Some d') < archive_jobs (Some d)"
  using assms by (auto simp: archive_jobs_def asyncWriter_step_def flush_def Let_def bind_eq_Some_conv split: list.splits if_splits)

lemma drain_decreases:
  assumes "drain E w w'" and ok: "service_ok w"
  shows "(w', w) \<in> drain_order"
  using assms(1)
proof (cases rule: drain.cases)
  case (matched s ob now)
  then show ?thesis using drain_match [OF ok] by (simp add: drain_order_def)
next
  case (forward s e)
  then show ?thesis using drain_forward [OF ok] by (simp add: drain_order_def)
next
  case (trade now)
  then show ?thesis
    by (simp add: drain_order_def book_events_def engine_trades_def consumer_frames consumeTrades_channel)
next
  case (position now)
  then show ?thesis by (simp add: drain_order_def book_events_def engine_trades_def consumer_frames)
next
  case (gtt now)
  then show ?thesis by (simp add: drain_order_def book_events_def engine_trades_def consumer_frames)
next
  case (loop_register h)
  then show ?thesis using run_register_frame [OF loop_register(3,2)]
    by (simp add: drain_order_def book_events_def engine_trades_def)
next
  case (loop_unregister h)
  then show ?thesis using run_unregister_frame [OF loop_unregister(3,2)]
    by (simp add: drain_order_def book_events_def engine_trades_def)
next
  case (loop_broadcast keys h)
  then show ?thesis using run_broadcast_frame [OF service_okD(1) [OF ok] loop_broadcast(3,4,2)]
    by (simp add: drain_order_def book_events_def engine_trades_def)
next
  case (write_pump c h frame)
  then show ?thesis using write_step_frame [OF write_pump(4,2,3)]
    by (simp add: drain_order_def book_events_def engine_trades_def)
next
  case (archive d d' jobs)
  then show ?thesis using writer_frame [OF archive(5,3,4)]
    by (simp add: drain_order_def book_events_def engine_trades_def)
qed

section \<open>Property\<close>

lemma drain_wf: "wf {(w', w). drain E w w' \<and> service_ok w}"
proof (rule wf_subset)
  show "wf drain_order" unfolding drain_order_def by (rule wf_measures)
qed (auto intro: drain_decreases)



end
