(* ===== verification/OMS_Positions.thy ===== *)
theory OMS_Positions
  imports OMS_System "HOL-Library.Sublist"
begin

text \<open>
  Positions of the running service. In every run the net positions are those of a subsequence of the
  trades that the consumer has taken: the ones whose two orders were found in the store. Price quotes,
  position reports and all other operations leave the quantities alone.
\<close>

section \<open>Operations that keep quantities\<close>

definition same_net :: "PManager \<Rightarrow> PManager \<Rightarrow> bool" where
  "same_net m m' \<longleftrightarrow> net m' = net m \<and> dom (pm_positions m') = dom (pm_positions m)"

lemma same_net_refl [simp]: "same_net m m"
  by (simp add: same_net_def)

lemma same_net_trans: "same_net m m1 \<Longrightarrow> same_net m1 m2 \<Longrightarrow> same_net m m2"
  by (simp add: same_net_def)

lemma same_net_events [simp]: "same_net m (m\<lparr>pm_eventCh := es\<rparr>)"
  by (simp add: same_net_def net_def fun_eq_iff)

lemma same_net_put:
  assumes "pm_positions m k = Some pos" "pos_Quantity pos' = pos_Quantity pos"
  shows "same_net m (put_position k pos' m)"
  using assms by (auto simp: same_net_def net_def put_position_def fun_eq_iff)

lemma same_net_emit: "same_net m (emit pos tr m)"
  by (simp add: same_net_def)

lemma mark_position_quantity: "pos_Quantity (mark_position now ltp pos) = pos_Quantity pos"
  by (simp add: mark_position_def Let_def)

lemma same_net_tick: "same_net m (tick_position now s ltp k m)"
proof (cases "pm_positions m k")
  case None
  then show ?thesis by (simp add: tick_position_def)
next
  case (Some pos)
  have "same_net m (put_position k (mark_position now ltp pos) m)"
    by (rule same_net_put [OF Some mark_position_quantity])
  then show ?thesis using same_net_trans [OF _ same_net_emit] by (simp add: tick_position_def Some Let_def)
qed

lemma same_net_UpdateLTP: "same_net m (UpdateLTP now keys s ltp m)"
  unfolding UpdateLTP_def
proof (induction keys arbitrary: m)
  case (Cons k keys)
  from same_net_trans [OF same_net_tick Cons.IH] show ?case by simp
qed simp

lemma place_new_positions: "om_posMgr (fst (fst (place_new E now f x w))) = om_posMgr w"
  using place_new_core [of x w E now f] by (simp add: same_core_def alloc_order_def)

interpretation position_keeper: order_placer "place_new E now f" "\<lambda>_ w. om_posMgr w = pm" for E now f pm
  by unfold_locales (simp_all add: place_new_positions)

lemma gtt_scan_positions:
  assumes "quantities (om_gttManager w)"
  shows "om_posMgr (gtt_scan E now f keys w) = om_posMgr w"
  using position_keeper.scan_ready [OF assms, where w = w and pm = "om_posMgr w"]
  by (simp add: gtt_scan_def Let_def case_prod_unfold)

lemma oms_step_positions:
  assumes "oms_step E w w'" "oms_reachable E w"
  shows "same_net (om_posMgr w) (om_posMgr w') \<or> (\<exists>now. w' = consumeTrades_step E now w)"
  using assms(1)
proof (cases rule: oms_step.cases)
  case (place x now f)
  then show ?thesis by (simp add: place_new_positions)
next
  case (cancel now oid)
  obtain w1 err where c: "CancelOrder E now oid w = (w1, err)" by fastforce
  then have "om_posMgr w1 = om_posMgr w" by (cases rule: CancelOrder_cases) (simp_all add: same_core_def)
  with c cancel show ?thesis by simp
next
  case (stage p)
  then show ?thesis by (simp add: place_step_frame)
next
  case (alloc x)
  then show ?thesis by (simp add: alloc_order_def)
next
  case (cancel_book s ob now oid)
  then show ?thesis by (simp add: put_book_def)
next
  case (recover x now)
  then show ?thesis by (simp add: recover_order_def put_book_def alloc_order_def Let_def split: option.split)
next
  case (matched now s)
  then show ?thesis by (simp add: match_symbol_def put_book_def split: option.split prod.split)
next
  case (forward s)
  then show ?thesis by (simp add: forward_trade_def split: option.split list.split)
next
  case (consume_position now)
  then show ?thesis by (simp add: consumePositionEvents_step_def Let_def split: list.split)
next
  case (consume_gtt now)
  then show ?thesis by (simp add: consumeGTTEvents_step_def Let_def split: list.split option.split)
next
  case (quote q now keys)
  then show ?thesis by (simp add: on_quote_def Let_def same_net_UpdateLTP)
next
  case (register c b)
  then show ?thesis by (simp add: RegisterClient_def Let_def split: prod.split option.split)
next
  case (add_symbol s exch)
  then show ?thesis by (simp add: AddSymbol_def)
next
  case (gtt_scan keys now f)
  then show ?thesis by (simp add: gtt_scan_positions [OF reachable_quantities [OF assms(2)]])
next
  case (refresh k)
  show ?thesis
  proof (cases "pm_positions (om_posMgr w) k")
    case (Some pos)
    have "same_net (om_posMgr w) (put_position k (refreshed E w pos) (om_posMgr w))"
      by (rule same_net_put [OF Some]) (simp add: refreshed_def Let_def)
    then show ?thesis by (simp add: refresh refresh_position_def Some)
  qed (simp add: refresh refresh_position_def)
qed auto

section \<open>The trades that reached a position\<close>

text \<open>The ledger of a manager: its net quantities and keys come from the trades \<open>xs\<close>.\<close>

definition from_trades :: "(Trade \<times> Order \<times> Order) list \<Rightarrow> PManager \<Rightarrow> bool" where
  "from_trades xs m \<longleftrightarrow> (\<forall>k. net m k = bought k xs - sold k xs) \<and>
     dom (pm_positions m) = (\<Union>x \<in> set xs. {buy_key x, sell_key x})"

lemma from_trades_same: "from_trades xs m \<Longrightarrow> same_net m m' \<Longrightarrow> from_trades xs m'"
  by (simp add: from_trades_def same_net_def)

lemma bought_sold_append [simp]:
  "bought k (xs @ ys) = bought k xs + bought k ys" "sold k (xs @ ys) = sold k xs + sold k ys"
  by (simp_all add: bought_def sold_def)

lemma bought_sold_bounds:
  assumes "\<forall>x \<in> set xs. 0 < trade_qty x"
  shows "0 \<le> bought k xs" "bought k xs \<le> (\<Sum>x\<leftarrow>xs. trade_qty x)" "0 \<le> sold k xs" "sold k xs \<le> (\<Sum>x\<leftarrow>xs. trade_qty x)"
  using assms by (induction xs) auto

lemma from_trades_apply:
  assumes "from_trades xs m" "\<forall>y \<in> set xs. 0 < trade_qty y" "0 < trade_qty x"
    and "2 * (trade_qty x + (\<Sum>y\<leftarrow>xs. trade_qty y)) < 2 ^ 63"
  shows "from_trades (xs @ [x]) (apply_trade now x m)"
proof -
  have "\<bar>net m k\<bar> + 2 * trade_qty x < 2 ^ 63" for k
    using assms(1,3,4) bought_sold_bounds [OF assms(2), of k] by (auto simp: from_trades_def)
  from apply_trade_net [OF assms(3) this] show ?thesis
    using assms(1) by (auto simp: from_trades_def apply_trade_dom)
qed

lemma from_trades_sum_zero:
  assumes "from_trades xs m"
  shows "(\<Sum>k \<in> dom (pm_positions m). net m k) = 0"
proof -
  let ?K = "dom (pm_positions m)"
  have K: "?K = (\<Union>x \<in> set xs. {buy_key x, sell_key x})" using assms by (simp add: from_trades_def)
  have "finite ?K" "\<forall>x \<in> set xs. buy_key x \<in> ?K \<and> sell_key x \<in> ?K" unfolding K by auto
  from sum_bought [OF this] show ?thesis using assms by (simp add: from_trades_def sum_subtractf)
qed

lemma subseq_set_mono: "subseq ys ts \<Longrightarrow> set ys \<subseteq> set ts"
  by (induction rule: list_emb.induct) auto

lemma subseq_quantity:
  assumes "subseq ys (ts :: Trade list)" "\<forall>t \<in> set ts. 0 < t_Quantity t"
  shows "(\<Sum>t\<leftarrow>ys. t_Quantity t) \<le> (\<Sum>t\<leftarrow>ts. t_Quantity t)"
  using assms
proof (induction rule: list_emb.induct)
  case (list_emb_Nil ts)
  then show ?case by (induction ts) auto
qed auto

text \<open>Every trade that leaves the shared channel is positive.\<close>

lemma by_symbol_set: "t \<in> set ts \<longleftrightarrow> t \<in> set (by_symbol ts (t_Symbol t))"
  by (simp add: by_symbol_def)

lemma oms_run_positive:
  assumes run: "oms_run E taken w" and t: "t \<in> set (taken @ om_tradeCh w)"
  shows "0 < t_Quantity t"
proof -
  let ?s = "t_Symbol t" let ?l = "by_symbol (taken @ om_tradeCh w) (t_Symbol t)"
  have mem: "t \<in> set ?l" using t by_symbol_set by blast
  have "symbol_ok ?l ?s w" using oms_run_inv [OF run] by (simp add: oms_inv_def)
  then show ?thesis
  proof (cases rule: symbol_okE)
    case (book ob e)
    from book(4) obtain lost where "sys_run ?l lost (view ?s ob e w)" unfolding tracked_def by (elim exE)
    from sys_run_ledger [OF this] have "\<forall>u \<in> set ?l. 0 < t_Quantity u" unfolding ledger_def set_append by blast
    with mem show ?thesis by blast
  qed (use mem in simp)
qed

lemma consumeTrades_positions:
  assumes "om_tradeCh w = t # rest"
  shows "om_posMgr (consumeTrades_step E now w) = om_posMgr w \<or>
    (\<exists>b s. om_posMgr (consumeTrades_step E now w) = apply_trade now (t, b, s) (om_posMgr w))"
  using assms by (auto simp: consumeTrades_step_def apply_trade_def Let_def split: sum.split)

lemma oms_run_positions:
  "oms_run E taken w \<Longrightarrow> 2 * (\<Sum>t\<leftarrow>taken. t_Quantity t) < 2 ^ 63 \<Longrightarrow>
   \<exists>xs. from_trades xs (om_posMgr w) \<and> subseq (map fst xs) taken"
proof (induction rule: oms_run.induct)
  case (start simMode objs h r pgDB)
  show ?case by (intro exI [of _ "[]"]) (simp add: from_trades_def NewOMS_def NewPManager_def net_def)
next
  case (consume taken w t rest now)
  let ?w = "consumeTrades_step E now w"
  have pos: "0 < t_Quantity u" if "u \<in> set (taken @ [t])" for u
    using oms_run_positive [OF consume.hyps(1), of u] consume.hyps(2) that by auto
  then have q: "0 < t_Quantity t" and "\<forall>u \<in> set taken. 0 < t_Quantity u" by auto
  moreover from this(1) have bound: "2 * (\<Sum>u\<leftarrow>taken. t_Quantity u) < 2 ^ 63" using consume.prems by simp
  ultimately obtain xs where xs: "from_trades xs (om_posMgr w)" "subseq (map fst xs) taken" using consume.IH by blast
  from consumeTrades_positions [OF consume.hyps(2), of E now] show ?case
  proof (elim disjE exE)
    assume "om_posMgr ?w = om_posMgr w"
    moreover have "subseq (map fst xs @ []) (taken @ [t])" by (rule list_emb_append_mono [OF xs(2)]) simp
    ultimately show ?thesis using xs(1) by auto
  next
    fix b s assume w': "om_posMgr ?w = apply_trade now (t, b, s) (om_posMgr w)"
    have "set (map fst xs) \<subseteq> set taken" using xs(2) by (rule subseq_set_mono)
    then have "\<forall>y \<in> set xs. 0 < trade_qty y" using pos by auto
    moreover have "(\<Sum>y\<leftarrow>xs. trade_qty y) \<le> (\<Sum>u\<leftarrow>taken. t_Quantity u)"
      using subseq_quantity [OF xs(2)] pos by (simp add: comp_def)
    ultimately have "from_trades (xs @ [(t, b, s)]) (om_posMgr ?w)"
      unfolding w' using consume.prems q by (intro from_trades_apply [OF xs(1)]) simp_all
    moreover have "subseq (map fst (xs @ [(t, b, s)])) (taken @ [t])" using xs(2) by (simp add: list_emb_append_mono)
    ultimately show ?thesis by blast
  qed
next
  case (step taken w w')
  then obtain xs where xs: "from_trades xs (om_posMgr w)" "subseq (map fst xs) taken" by blast
  have "same_net (om_posMgr w) (om_posMgr w')"
    using oms_step_positions [OF step.hyps(2) oms_run_reachable [OF step.hyps(1)]] step.hyps(3)
      consumeTrades_idle [of w E] consumeTrades_channel [of E _ w] by (cases "om_tradeCh w") auto
  with xs from_trades_same show ?case by blast
qed

section \<open>Property\<close>

text \<open>C6: Positions follow the recorded trades: in every run of the service with less than \<open>2 ^ 62\<close> units traded, the
  net position of every key is what was bought minus what was sold under it in a subsequence of the
  trades the consumer has taken, in their order; so the positions of all clients sum to zero, whatever quotes,
  reports, cancellations and failures of the store happen in between.\<close>

theorem service_positions_follow_trades:
  assumes "oms_run E taken w" "2 * (\<Sum>t\<leftarrow>taken. t_Quantity t) < 2 ^ 63"
  shows "(\<exists>xs. subseq (map fst xs) taken \<and> (\<forall>k. net (om_posMgr w) k = bought k xs - sold k xs)) \<and>
    (\<Sum>k \<in> dom (pm_positions (om_posMgr w)). net (om_posMgr w) k) = 0"
proof -
  obtain xs where xs: "from_trades xs (om_posMgr w)" "subseq (map fst xs) taken"
    using oms_run_positions [OF assms] by blast
  then show ?thesis using from_trades_sum_zero [OF xs(1)] by (auto simp: from_trades_def)
qed

theorem service_positions_follow_trades_witness:
  "(\<Sum>k \<in> dom (pm_positions (om_posMgr (consumeTrades_step ex_env 6 ex_forwarded))).
      net (om_posMgr (consumeTrades_step ex_env 6 ex_forwarded)) k) = 0"
proof -
  obtain t where t: "om_tradeCh ex_forwarded = [t]" "t_Quantity t = 50" using ex_forwarded_channel by auto
  from oms_run.consume [OF ex_forwarded_run t(1)] have "oms_run ex_env [t] (consumeTrades_step ex_env 6 ex_forwarded)" by simp
  from service_positions_follow_trades [OF this] t(2) show ?thesis by simp
qed

end
