(* ===== verification/Unit_Tests.thy ===== *)
theory Unit_Tests
  imports Matching Risk Position Gtt_Manager
begin

text \<open>
  The scenarios of the repository's own unit tests (\<^verbatim>\<open>tests/unit\<close>), evaluated on the model: a check that the
  definitions behave as the code is tested to behave. Each lemma is named after its test.
\<close>

section \<open>Orders\<close>

definition limit_order :: "instant \<Rightarrow> string \<Rightarrow> string \<Rightarrow> OrderSide \<Rightarrow> rat \<Rightarrow> int \<Rightarrow> Order" where
  "limit_order now c s side price qty = (NewOrder now c s)\<lparr>o_Side := side, o_OrderType := Limit,
     o_Price := Fin price, o_Quantity := qty, o_RemainingQty := qty, o_ProductType := MIS\<rparr>"

definition market_order :: "instant \<Rightarrow> string \<Rightarrow> string \<Rightarrow> OrderSide \<Rightarrow> int \<Rightarrow> Order" where
  "market_order now c s side qty = (NewOrder now c s)\<lparr>o_Side := side, o_OrderType := Market,
     o_Quantity := qty, o_RemainingQty := qty, o_ProductType := MIS\<rparr>"

lemma TestOrderFill_Partial:
  "(let x = Fill 2 50 (Fin 2500) (limit_order 1 ''C1'' ''RELIANCE'' Buy 2500 100)
    in (o_FilledQty x, o_RemainingQty x, o_Status x)) = (50, 50, StatusPartiallyFilled)"
  by (simp_all add: limit_order_def market_order_def Fill_def OrderValue_def NewOrder_def float64_def f64_simps i64_simps in64_def go_constants Let_def)

lemma TestOrderFill_Full:
  "(let x = Fill 2 100 (Fin 2500) (limit_order 1 ''C1'' ''RELIANCE'' Buy 2500 100)
    in (o_RemainingQty x, o_Status x)) = (0, StatusFilled)"
  by (simp_all add: limit_order_def market_order_def Fill_def OrderValue_def NewOrder_def float64_def f64_simps i64_simps in64_def go_constants Let_def)

lemma TestOrderFill_AveragePrice:
  "o_AveragePrice (Fill 3 100 (Fin 2510) (Fill 2 100 (Fin 2500) (limit_order 1 ''C1'' ''RELIANCE'' Buy 2510 200))) = Fin 2505"
  by (simp_all add: limit_order_def market_order_def Fill_def OrderValue_def NewOrder_def float64_def f64_simps i64_simps in64_def go_constants Let_def)

lemma TestOrderValue:
  "OrderValue (Fin 3800) (limit_order 1 ''C1'' ''TCS'' Buy 3800 10) = Fin 38000"
  "OrderValue (Fin 3850) (market_order 1 ''C1'' ''TCS'' Buy 10) = Fin 38500"
  by (simp_all add: limit_order_def market_order_def Fill_def OrderValue_def NewOrder_def float64_def f64_simps i64_simps in64_def go_constants Let_def)

section \<open>The order book\<close>

definition add_orders :: "Order list \<Rightarrow> heap \<times> OrderBook" where
  "add_orders xs = fold (\<lambda>(p, x) (h, ob). fst (ob_Add 9 p (h(p := x), ob))) (zip [0..<length xs] xs)
     (\<lambda>_. NewOrder 0 [] [], NewOrderBook ''RELIANCE'' NSE)"

lemma TestOrderBook_AddBid_SortedDescending:
  "map lv_Price (fst (MarketDepth 10 (snd (add_orders
     [limit_order 1 ''C1'' ''RELIANCE'' Buy 2500 100, limit_order 2 ''C1'' ''RELIANCE'' Buy 2510 100,
      limit_order 3 ''C1'' ''RELIANCE'' Buy 2495 100, limit_order 4 ''C1'' ''RELIANCE'' Buy 2505 100])))) =
   [Fin 2510, Fin 2505, Fin 2500, Fin 2495]"
  by code_simp

lemma TestOrderBook_AddAsk_SortedAscending:
  "map lv_Price (snd (MarketDepth 10 (snd (add_orders
     [limit_order 1 ''C1'' ''RELIANCE'' Sell 2510 100, limit_order 2 ''C1'' ''RELIANCE'' Sell 2520 100,
      limit_order 3 ''C1'' ''RELIANCE'' Sell 2505 100, limit_order 4 ''C1'' ''RELIANCE'' Sell 2515 100])))) =
   [Fin 2505, Fin 2510, Fin 2515, Fin 2520]"
  by code_simp

lemma TestOrderBook_Cancel:
  "(let x = limit_order 1 ''C1'' ''RELIANCE'' Buy 2500 100; ((h, ob), err) = ob_Cancel 10 (o_OrderID x) (add_orders [x])
    in (err, o_Status (h 0))) = (None, StatusCancelled)"
  by code_simp

lemma TestOrderBook_Spread:
  "Spread (snd (add_orders [limit_order 1 ''C1'' ''RELIANCE'' Buy 2500 100, limit_order 2 ''C2'' ''RELIANCE'' Sell 2505 100])) = Fin 5"
  by code_simp

section \<open>Matching\<close>

text \<open>The engine handles the events of the orders in the order in which they were added.\<close>

definition run_orders :: "Order list \<Rightarrow> heap \<times> OrderBook \<times> MEngine" where
  "run_orders xs = (let (h, ob) = add_orders xs in
     (matchLoop_step 10 ^^ length xs) (h, ob, engine_Start NewMEngine))"

definition trades_after :: "Order list \<Rightarrow> Trade list" where
  "trades_after xs = (let (h, ob, e) = run_orders xs in e_TradeCh e)"

lemma TestMatching_LimitBuyMatchesLimitSell:
  "map (\<lambda>t. (t_Quantity t, t_Price t, t_BuyerID t, t_SellerID t))
     (trades_after [limit_order 1 ''SELLER'' ''RELIANCE'' Sell 2500 100, limit_order 2 ''BUYER'' ''RELIANCE'' Buy 2500 100]) =
   [(100, Fin 2500, ''BUYER'', ''SELLER'')]"
  by code_simp

lemma TestMatching_PartialFill:
  "(let (h, ob, e) = run_orders [limit_order 1 ''SELLER'' ''TCS'' Sell 3800 100, limit_order 2 ''BUYER'' ''TCS'' Buy 3800 60]
    in (map t_Quantity (e_TradeCh e), o_RemainingQty (h 0), o_Status (h 0))) = ([60], 40, StatusPartiallyFilled)"
  by code_simp

lemma TestMatching_NoMatchWhenPriceCrossed:
  "trades_after [limit_order 1 ''SELLER'' ''INFY'' Sell 1810 100, limit_order 2 ''BUYER'' ''INFY'' Buy 1800 100] = []"
  by code_simp

section \<open>Risk checks\<close>

definition validate_for :: "rat \<Rightarrow> rat \<Rightarrow> int \<Rightarrow> rat \<Rightarrow> ProductType \<Rightarrow> risk_error option" where
  "validate_for balance price qty ltp product =
     Validate (RegisterAccount ''C1'' (Fin balance) NewRiskEngine)
       ((limit_order 1 ''C1'' ''RELIANCE'' Buy price qty)\<lparr>o_ProductType := product\<rparr>) (Fin ltp)"

lemma TestRisk_MarginCheck: "validate_for 100000 2500 100 2500 MIS = None" "validate_for 10000 2500 100 2500 MIS \<noteq> None"
  by code_simp+

lemma TestRisk_PriceBandViolation: "validate_for 10000000 3100 10 2500 MIS \<noteq> None"
  by code_simp

lemma TestRisk_FreezeQuantity: "validate_for 999999999 2500 600000 2500 MIS \<noteq> None"
  by code_simp

section \<open>Triggers\<close>

definition test_gtt :: "string \<Rightarrow> string \<Rightarrow> TriggerCondition \<Rightarrow> rat \<Rightarrow> int \<Rightarrow> GTTOrder" where
  "test_gtt c s cond trigger qty = (ex_gtt cond trigger [])\<lparr>g_ClientID := c, g_Symbol := s, g_Quantity := qty\<rparr>"

lemma TestGTT_LTPAbove_Triggers:
  "map (\<lambda>ltp. CheckCondition (Fin ltp) (test_gtt ''C1'' ''RELIANCE'' LTPAbove 2600 100)) [2550, 2600, 2650] = [False, True, True]"
  by code_simp

lemma TestGTT_LTPBelow_StopLoss:
  "map (\<lambda>ltp. CheckCondition (Fin ltp) (test_gtt ''C1'' ''RELIANCE'' LTPBelow 2400 100)) [2450, 2400, 2350] = [False, True, True]"
  by code_simp

definition test_manager :: "GTTOrder list \<Rightarrow> GManager" where
  "test_manager gs = fold (\<lambda>g m. fst (fst (gtt_Add 5 g m))) gs NewGManager"

lemma TestGTT_Cancel:
  "(let m = test_manager [test_gtt ''C1'' ''RELIANCE'' LTPAbove 2600 50];
        (m1, e1) = gtt_Cancel 6 ''GTT-C1-1'' m; (m2, e2) = gtt_Cancel 7 ''GTT-C1-1'' m1
    in (e1, map_option g_Status (gm_orders m1 ''GTT-C1-1''), e2)) =
   (None, Some GTTCancelled, Some (GttNotActive ''GTT-C1-1'' GTTCancelled))"
  by code_simp

lemma TestGTT_GetByClient:
  "(let m = test_manager [test_gtt ''C1'' ''RELIANCE'' LTPAbove 2000 10, test_gtt ''C1'' ''TCS'' LTPAbove 2100 10,
              test_gtt ''C1'' ''INFY'' LTPAbove 2200 10, test_gtt ''C2'' ''WIPRO'' LTPBelow 500 10];
        keys = [''GTT-C1-1'', ''GTT-C1-2'', ''GTT-C1-3'', ''GTT-C2-4'']
    in (length (GetByClient keys ''C1'' m), length (GetByClient keys ''C2'' m))) = (3, 1)"
  by code_simp

section \<open>Positions\<close>

text \<open>The buyer's position, through the functions that \<^verbatim>\<open>ApplyTrade\<close> and \<^verbatim>\<open>UpdateLTP\<close> apply to it.\<close>

lemma round_away_numeral: "round_away (numeral n) = numeral n"
  using round_away_of_int [of "numeral n"] by simp

lemmas position_defs = applyBuy_def add_long_def cover_short_def applyShortSell_def sell_long_def go_short_def
  mark_position_def empty_position_def round2_def float64_def fsub_def round_away_numeral

definition bought_100 :: Position where
  "bought_100 = applyBuy 5 100 (Fin 2500) (empty_position 4 ''C1'' ''RELIANCE'' NSE MIS)"

lemma TestPosition_BuyBuildsPosition: "(pos_Quantity bought_100, pos_BuyQty bought_100, pos_BuyAvg bought_100) = (100, 100, Fin 2500)"
  by (simp_all add: bought_100_def position_defs f64_simps i64_simps in64_def Let_def)

lemma TestPosition_WeightedAverageCost: "pos_BuyAvg (applyBuy 6 50 (Fin 2550) bought_100) = flit (251667 / 100)"
proof -
  have avg: "round2 (round64 (7550 / 3)) = flit (251667 / 100)" by code_simp
  have "round2 (Fin 2500) = Fin 2500" by (simp add: round2_def round_away_numeral f64_simps)
  then show ?thesis
    by (simp add: bought_100_def applyBuy_def add_long_def empty_position_def float64_def f64_simps i64_simps in64_def
        Let_def avg)
qed

lemma TestPosition_RealizedPnL_OnSell:
  "(let pos = applyShortSell 6 50 (Fin 2600) MIS bought_100 in (pos_Quantity pos, pos_RealizedPnL pos)) = (50, Fin 5000)"
  by (simp_all add: bought_100_def position_defs f64_simps i64_simps in64_def Let_def)

lemma TestPosition_UnrealizedPnL_OnPriceTick:
  "pos_UnrealizedPnL (mark_position 6 (Fin 2600) bought_100) = Fin 10000"
  by (simp_all add: bought_100_def position_defs f64_simps i64_simps in64_def Let_def)

end
