(* ===== verification/Spec2Isabelle.thy ===== *)
theory Spec2Isabelle
  imports Market_Data Handlers_Correct Server OMS_Drain OMS_Positions Unit_Tests
begin

text \<open>
  A verification of the order management system go-oms: a brokerage backend that accepts orders over
  HTTP, checks and reserves margin, matches orders by price and time, tracks positions, watches
  trigger orders, and publishes prices and fills over WebSocket. The development follows the Go sources
  under \<^verbatim>\<open>src/internal\<close> and \<^verbatim>\<open>src/cmd/server\<close> operation by operation.

  \<^bold>\<open>How the program works.\<close> A request reaches \<^verbatim>\<open>api/oms.go\<close>. Placing an order runs the checks of
  \<^verbatim>\<open>risk/engine.go\<close>, reserves margin with a script in Redis (\<^verbatim>\<open>store/redis.go\<close>), saves the order, adds it to
  the book of its symbol (\<^verbatim>\<open>orderbook/orderbook.go\<close>) and queues it for the archive (\<^verbatim>\<open>db/postgres.go\<close>).
  The book sends an event to the engine of the symbol (\<^verbatim>\<open>matching/engine.go\<close>), which matches the new
  order and emits trades. A forwarder per symbol moves trades into one channel, whose consumer saves
  them, updates positions (\<^verbatim>\<open>position/tracker.go\<close>) and informs clients (\<^verbatim>\<open>ws/hub.go\<close>). The feed
  (\<^verbatim>\<open>marketdata/feed.go\<close>) hands quotes to a handler of the service. The trigger manager
  (\<^verbatim>\<open>gtt/gtt.go\<close>) scans its orders every second and places orders through the service.

  \<^bold>\<open>Theories.\<close>
  \<^item> \<^verbatim>\<open>Prelude\<close>: decimal digits, 64-bit integers kept as \<^verbatim>\<open>int\<close> with explicit wrap-around, queues with a
    capacity, lists and maps. \<^verbatim>\<open>Float64\<close>: binary64 as exact rationals with the two infinities and NaN;
    every operation is the exact result rounded once to nearest even. \<^verbatim>\<open>Decimal\<close>: reading decimals back.
  \<^item> \<^verbatim>\<open>Models\<close> (\<^verbatim>\<open>models/order.go\<close>): orders, trades, \<^verbatim>\<open>Fill\<close>, \<^verbatim>\<open>UpdateStatus\<close>.
  \<^item> \<^verbatim>\<open>Order_Book\<close>, \<^verbatim>\<open>Order_Book_Correct\<close> (\<^verbatim>\<open>orderbook/orderbook.go\<close>): price levels hold addresses into a heap of
    orders, since book, engine and archive share pointers. The locale of a sorted side is interpreted for
    bids and for asks. Lemmas: the book invariant is kept, orders queue in priority, cancelling undoes
    adding.
  \<^item> \<^verbatim>\<open>Matching\<close>, \<^verbatim>\<open>Matching_Correct\<close> (\<^verbatim>\<open>matching/engine.go\<close>): the nested loops and their refinement to a
    greedy allocation over the active opposite orders; conservation, priority, limits.
  \<^item> \<^verbatim>\<open>Engine_System\<close>: book and engine of one symbol as a transition system over placing, cancelling and
    matching in any order; reachable states are sound, quiet books are not crossed, bought equals sold,
    and the loop catches up. \<^verbatim>\<open>Engine_Trades\<close>: its runs with their trades; the trades taken, waiting and dropped add
    up to what the orders have filled.
  \<^item> \<^verbatim>\<open>Risk\<close>, \<^verbatim>\<open>Position\<close>, \<^verbatim>\<open>Gtt_Manager\<close>, \<^verbatim>\<open>Market_Data\<close>: one theory for each of these packages. Lemmas: validated orders
    are within limits and never overdraw an account, net positions are bought minus sold, a trigger order
    fires at most once and a pair never twice, simulated prices stay within their walk. The locale
    \<open>order_placer\<close> states what a scan needs of the service it places orders with; the service is its
    interpretation.
  \<^item> \<^verbatim>\<open>Redis_Store\<close>: every operation of the store over the commands of Redis, which are fields of a
    record; the laws the proofs need (a value that was set is read back, commands on other keys leave
    it alone, increments add) are one predicate, \<open>redis_laws\<close>, which an in-memory server satisfies.
  \<^item> \<^verbatim>\<open>WS_Hub\<close>: clients, subscriptions, the hub loop and the two pumps, with panics as \<^verbatim>\<open>None\<close>.
  \<^item> \<^verbatim>\<open>Postgres\<close>: the write queue, the writer, the statements with their bound values, the queries and
    the settlement; the database is a record of functions.
  \<^item> \<^verbatim>\<open>OMS\<close> (\<^verbatim>\<open>api/oms.go\<close>, the service): one record with a field per component and one heap for the orders
    of all books; order entry, cancellation, recovery, the consumers and the price handler.
  \<^item> \<^verbatim>\<open>Shared_Heap\<close>, \<^verbatim>\<open>OMS_Correct\<close>: the composition. The service is a transition system over all its
    operations; seen from one symbol, with the objects of other symbols hidden, each of its reachable
    states is a reachable state of \<^verbatim>\<open>Engine_System\<close>, with the trades it has forwarded. So what holds there
    holds for every book. The steps of the hub, of the archive's writer and of other users of the two databases interleave,
    and so do the pieces of concurrent placements, into which \<^verbatim>\<open>PlaceOrder\<close> is shown to decompose.
  \<^item> \<^verbatim>\<open>OMS_System\<close>, \<^verbatim>\<open>OMS_Positions\<close>, \<^verbatim>\<open>OMS_Drain\<close>: the service as a whole. No trade is invented or recorded twice between the
    engines and the consumer, and positions follow the recorded trades; what is queued is well typed, so no goroutine panics; and the goroutines
    that empty the queues come to rest after finitely many steps, by a lexicographic measure along the pipeline.
  \<^item> \<^verbatim>\<open>OMS_Orders\<close>: what placing and cancelling guarantee for margin, store, book and messages, on success
    and on every error.
  \<^item> \<^verbatim>\<open>Handlers\<close>, \<^verbatim>\<open>Handlers_Correct\<close> (\<^verbatim>\<open>api/oms.go\<close>, the HTTP interface): all handlers and the routing table;
    requests are steps of the service, reading requests are safe, failing ones leave the books alone,
    and accepted orders can be read back.
  \<^item> \<^verbatim>\<open>Server\<close> (\<^verbatim>\<open>cmd/server/main.go\<close>): configuration and start-up; recovery restores the books exactly, and
    start-up ends in a reachable state.
  \<^item> \<^verbatim>\<open>Unit_Tests\<close>: scenarios of the repository's unit tests, evaluated on the model.

  \<^bold>\<open>Conventions.\<close> A function of the code that takes a lock is one step, and steps interleave in any
  order. \<^verbatim>\<open>PlaceOrder\<close> and \<^verbatim>\<open>CancelOrder\<close>, which take several locks in turn, are functions of the model as in the
  code; in the transition system they run as a whole and also piece by piece (\<open>place_step\<close>, \<open>cancel_book\<close>), with
  other steps in between. An
  operation reads the clock once. The order in which Go visits a map is an argument, and the theorems
  hold for all orders. Errors are values of a datatype per package with a function that
  yields the text. Channels are lists; a send that drops on a full channel is modelled with the
  capacity of the code (10000 events, trades and messages, 50000 forwarded trades, 256 messages
  per client), and a send that waits is a step that is possible when there is room. No function needs
  fuel: the loops run over finite lists. Floating point has no fused operations and
  one zero.

  \<^bold>\<open>Parameters.\<close> Redis, PostgreSQL, the quotes fetched over HTTP, random numbers, the clock, the environment
  and the WebSocket upgrade are arguments. JSON documents and HTTP bodies are represented by the
  structures they encode.

  \<^bold>\<open>Not modelled.\<close> Logging, the text of encoded JSON, time-outs and keep-alive frames, closing the
  connection pools, the expiry of Redis keys, the tables behind the SQL statements, and data races on
  fields that the code reads without a lock.

  \<^bold>\<open>Behaviours outside the contract.\<close> Lemmas at the ends of the theories evaluate behaviours that differ
  from the comments or the evident intent of the code, for example \<^verbatim>\<open>cancelled_order_trades\<close>,
  \<^verbatim>\<open>register_resets_used_margin\<close>, \<^verbatim>\<open>fills_not_stored\<close> and \<^verbatim>\<open>triggered_gtts_reversed\<close>.
\<close>

end
